(* ===== verification/Mail_Prelude.thy ===== *)
theory Mail_Prelude
  imports Main "HOL-Library.Word" "HOL-Library.Finite_Map" "HOL-Library.Char_ord"
    "HOL-Library.List_Lexorder"
begin

text \<open>
  Shared vocabulary of the development: how the Rust types of the crate are read in HOL, the
  outcome of a computation that may panic, and the list and map lemmas the component theories
  share.

  \<^item> \<open>String\<close> and \<open>&str\<close> are \<open>string\<close>: the UTF-8 bytes of the text, one HOL \<open>char\<close> per byte, so
    \<open>.len()\<close> is \<open>length\<close>, slicing is \<open>take\<close> and \<open>drop\<close>, and \<open>Ord\<close> is the byte-wise
    lexicographic order.
  \<^item> \<open>Vec<u8>\<close>, \<open>&[u8]\<close>, \<open>[u8; N]\<close> are \<open>bytes\<close>; the length of an array is a well-formedness
    condition where it matters.
  \<^item> \<open>u64\<close> and \<open>u32\<close> are machine words. \<open>usize\<close> (64 bits) is \<open>nat\<close>; where an operation can
    leave the range below \<open>usize_limit\<close> the model says so.
  \<^item> \<open>HashMap<K, V>\<close> is \<open>(K, V) fmap\<close> (always finite), \<open>HashSet<K>\<close> is \<open>K set\<close>.
  \<^item> \<open>anyhow::Result<T>\<close> and \<open>Result<T, String>\<close> are \<open>T result\<close>: \<open>Inl\<close> carries the error's
    text, \<open>Inr\<close> the value.
\<close>

type_synonym u8 = "8 word"
type_synonym u32 = "32 word"
type_synonym u64 = "64 word"
type_synonym bytes = "8 word list"
type_synonym 'a result = "string + 'a"

text \<open>The collections of facts the component theories extend.\<close>

named_theorems mail_defs \<open>unfoldings of the small accessors\<close>
named_theorems law_defs \<open>unfoldings of the named laws of external crates\<close>

section \<open>Panics\<close>

text \<open>
  A Rust function either returns or panics. Where the source has an operation that can panic
  (slice ranges, \<open>clamp\<close> with an empty range, checked arithmetic), the model returns an
  \<open>outcome\<close>.
\<close>

datatype 'a outcome = Returned 'a | Panicked

fun map_outcome_to :: "('a \<Rightarrow> 'b) \<Rightarrow> 'a outcome \<Rightarrow> 'b outcome" where
  "map_outcome_to f (Returned x) = Returned (f x)"
| "map_outcome_to f Panicked = Panicked"

fun and_then :: "'a outcome \<Rightarrow> ('a \<Rightarrow> 'b outcome) \<Rightarrow> 'b outcome" where
  "and_then (Returned x) f = f x"
| "and_then Panicked f = Panicked"

lemma and_then_Returned_iff [simp]:
  "and_then m f = Returned y \<longleftrightarrow> (\<exists>x. m = Returned x \<and> f x = Returned y)"
  by (cases m) auto

lemma map_outcome_Returned_iff [simp]:
  "map_outcome_to f m = Returned y \<longleftrightarrow> (\<exists>x. m = Returned x \<and> y = f x)"
  by (cases m) auto

lemma Returned_and_then_iff [simp]:
  "Returned y = and_then m f \<longleftrightarrow> (\<exists>x. m = Returned x \<and> f x = Returned y)"
  by (cases m) auto

lemma Returned_map_outcome_iff [simp]:
  "Returned y = map_outcome_to f m \<longleftrightarrow> (\<exists>x. m = Returned x \<and> y = f x)"
  by (cases m) auto

section \<open>Machine sizes\<close>

text \<open>\<open>usize\<close> on the 64-bit targets the node runs on: values below \<open>usize_limit\<close>.\<close>

definition usize_limit :: nat where
  "usize_limit = 2 ^ 64"

definition usize_max :: nat where
  "usize_max = usize_limit - 1"

lemma usize_max_less [simp]: "n \<le> usize_max \<longleftrightarrow> n < usize_limit"
  by (auto simp: usize_max_def usize_limit_def)

section \<open>Results\<close>

fun is_ok :: "'a result \<Rightarrow> bool" where
  "is_ok (Inr _) = True"
| "is_ok (Inl _) = False"

lemma is_ok_iff: "is_ok r \<longleftrightarrow> (\<exists>x. r = Inr x)"
  by (cases r) auto

lemma not_is_ok_iff: "\<not> is_ok r \<longleftrightarrow> (\<exists>e. r = Inl e)"
  by (cases r) auto

text \<open>\<open>unwrap_or_default\<close>, \<open>?\<close> and \<open>map_err\<close> with a text prefix.\<close>

fun unwrap_or :: "'a \<Rightarrow> 'a result \<Rightarrow> 'a" where
  "unwrap_or d (Inr x) = x"
| "unwrap_or d (Inl _) = d"

fun try_bind :: "'a result \<Rightarrow> ('a \<Rightarrow> 'b result) \<Rightarrow> 'b result" where
  "try_bind (Inr x) f = f x"
| "try_bind (Inl e) f = Inl e"

fun map_err :: "(string \<Rightarrow> string) \<Rightarrow> 'a result \<Rightarrow> 'a result" where
  "map_err f (Inr x) = Inr x"
| "map_err f (Inl e) = Inl (f e)"

lemma try_bind_Inr_iff [simp]:
  "try_bind m f = Inr y \<longleftrightarrow> (\<exists>x. m = Inr x \<and> f x = Inr y)"
  by (cases m) auto

lemma map_err_Inr_iff [simp]: "map_err f m = Inr y \<longleftrightarrow> m = Inr y"
  by (cases m) auto

section \<open>Decimal printing\<close>

text \<open>\<open>Display\<close> of an unsigned integer, as \<open>format!\<close> prints it.\<close>

fun show_nat :: "nat \<Rightarrow> string" where
  "show_nat n =
     (if n < 10 then [char_of (48 + n)] else show_nat (n div 10) @ [char_of (48 + n mod 10)])"

declare show_nat.simps [simp del]

lemma show_nat_small: "n < 10 \<Longrightarrow> show_nat n = [char_of (48 + n)]"
  by (simp add: show_nat.simps)

lemma digit_chars: "char_of (49 :: nat) = CHR ''1''" "char_of (50 :: nat) = CHR ''2''"
  by code_simp+

lemma show_nat_nonempty [simp]: "show_nat n \<noteq> []"
  by (subst show_nat.simps) simp

section \<open>Lists\<close>

lemma distinct_map_drop: "distinct (map f xs) \<Longrightarrow> distinct (map f (drop n xs))"
  by (simp add: drop_map [symmetric])

lemma distinct_map_split:
  assumes "distinct (map f xs)"
  shows "f ` set (take n xs) \<inter> f ` set (drop n xs) = {}"
proof -
  have "distinct (map f (take n xs) @ map f (drop n xs))"
    using assms by (metis append_take_drop_id map_append)
  then show ?thesis by simp
qed

lemma map_drop_set_diff:
  assumes "distinct (map f xs)"
  shows "f ` set (drop n xs) = f ` set xs - f ` set (take n xs)"
proof -
  have "f ` set xs = f ` set (take n xs) \<union> f ` set (drop n xs)"
    by (metis append_take_drop_id image_Un set_append)
  with distinct_map_split [OF assms, of n] show ?thesis by blast
qed

lemma fold_remove_set: "fold (\<lambda>k s. s - {k}) ks s = s - set ks"
  by (induction ks arbitrary: s) auto

section \<open>Association lists and finite maps\<close>

text \<open>The entry of a key, or a default: \<open>map.get(k).cloned().unwrap_or_default()\<close>.\<close>

definition fm_get :: "'v \<Rightarrow> ('k, 'v) fmap \<Rightarrow> 'k \<Rightarrow> 'v" where
  "fm_get d m k = (case fmlookup m k of Some v \<Rightarrow> v | None \<Rightarrow> d)"

lemma fm_get_upd [simp]: "fm_get d (fmupd k v m) k' = (if k = k' then v else fm_get d m k')"
  by (simp add: fm_get_def)

lemma fm_get_drop [simp]: "fm_get d (fmdrop k m) k' = (if k = k' then d else fm_get d m k')"
  by (simp add: fm_get_def)

lemma fm_get_empty [simp]: "fm_get d fmempty k = d"
  by (simp add: fm_get_def)

lemma fm_get_Some [simp]: "fmlookup m k = Some v \<Longrightarrow> fm_get d m k = v"
  by (simp add: fm_get_def)

lemma fm_get_None [simp]: "fmlookup m k = None \<Longrightarrow> fm_get d m k = d"
  by (simp add: fm_get_def)

text \<open>
  The order in which a \<open>HashMap\<close> is iterated is unspecified; an iteration is any list of its
  entries, each key once.
\<close>

definition is_iteration :: "('k, 'v) fmap \<Rightarrow> ('k \<times> 'v) list \<Rightarrow> bool" where
  "is_iteration m es \<longleftrightarrow> distinct (map fst es) \<and> fmap_of_list es = m"

lemma is_iteration_lookup:
  assumes "is_iteration m es"
  shows "(k, v) \<in> set es \<longleftrightarrow> fmlookup m k = Some v"
  using assms unfolding is_iteration_def
  by (metis fmlookup_of_list map_of_eq_Some_iff)

end
