(* ===== verification/Wire_Format.thy ===== *)
theory Wire_Format
  imports Mail_Prelude
begin

text \<open>
  The serde data model, as far as the crate's \<open>#[derive(Serialize, Deserialize)]\<close> types use it:
  the values a serializer receives (\<open>sval\<close>) and the types a deserializer is asked for (\<open>sty\<close>).
  The component theories give each derived type its \<open>sval\<close> form; \<open>bincode\<close>, the byte format, is a
  parameter of the model (theory Crates) of which only the round trip over this data model is
  assumed.
\<close>

section \<open>Valid text\<close>

text \<open>
  A \<open>String\<close> holds well-formed UTF-8 and fewer than \<open>2 ^ 64\<close> bytes. \<open>is_utf8\<close> is the byte automaton
  of \<open>std::str::from_utf8\<close>.
\<close>

definition byte_in :: "nat \<Rightarrow> nat \<Rightarrow> char \<Rightarrow> bool" where
  "byte_in lo hi c \<longleftrightarrow> lo \<le> of_char c \<and> of_char c \<le> hi"

fun is_utf8 :: "string \<Rightarrow> bool" where
  "is_utf8 [] = True"
| "is_utf8 (a # s) =
     (if byte_in 0 127 a then is_utf8 s
      else case s of
        [] \<Rightarrow> False
      | b # s2 \<Rightarrow>
          (if byte_in 194 223 a \<and> byte_in 128 191 b then is_utf8 s2
           else case s2 of
             [] \<Rightarrow> False
           | c # s3 \<Rightarrow>
               (if (byte_in 224 224 a \<and> byte_in 160 191 b
                    \<or> (byte_in 225 236 a \<or> byte_in 238 239 a) \<and> byte_in 128 191 b
                    \<or> byte_in 237 237 a \<and> byte_in 128 159 b) \<and> byte_in 128 191 c
                then is_utf8 s3
                else case s3 of
                  [] \<Rightarrow> False
                | d # s4 \<Rightarrow>
                    (byte_in 240 240 a \<and> byte_in 144 191 b
                     \<or> byte_in 241 243 a \<and> byte_in 128 191 b
                     \<or> byte_in 244 244 a \<and> byte_in 128 143 b)
                    \<and> byte_in 128 191 c \<and> byte_in 128 191 d \<and> is_utf8 s4)))"

definition rust_string :: "string \<Rightarrow> bool" where
  "rust_string s \<longleftrightarrow> is_utf8 s \<and> length s < usize_limit"

lemma ascii_is_utf8: "\<forall>c \<in> set s. of_char c \<le> (127 :: nat) \<Longrightarrow> is_utf8 s"
  by (induction s) (auto simp: byte_in_def)

lemma rust_string_ascii:
  "\<forall>c \<in> set s. of_char c \<le> (127 :: nat) \<Longrightarrow> length s < usize_limit \<Longrightarrow> rust_string s"
  by (simp add: rust_string_def ascii_is_utf8)

lemma rust_string_Nil [simp]: "rust_string []"
  by (simp add: rust_string_def usize_limit_def)

section \<open>Values and types of the data model\<close>

datatype sval =
    VBool bool
  | VU8 u8
  | VU32 u32
  | VU64 u64
  | VStr string
  | VBytes bytes
  | VSeq "sval list"
  | VTup "sval list"
  | VMap "(sval \<times> sval) list"
  | VEnum nat "sval list"

datatype sty =
    TBool
  | TU8
  | TU32
  | TU64
  | TStr
  | TSeq sty
  | TTup "sty list"
  | TMap sty sty
  | TEnum "sty list list"

text \<open>
  A format that is not self-describing returns a byte string, asked for as a sequence of bytes, as
  that sequence; \<open>canon\<close> is what comes back.
\<close>

primrec canon :: "sval \<Rightarrow> sval" where
  "canon (VBool b) = VBool b"
| "canon (VU8 x) = VU8 x"
| "canon (VU32 x) = VU32 x"
| "canon (VU64 x) = VU64 x"
| "canon (VStr s) = VStr s"
| "canon (VBytes bs) = VSeq (map VU8 bs)"
| "canon (VSeq vs) = VSeq (map canon vs)"
| "canon (VTup vs) = VTup (map canon vs)"
| "canon (VMap es) = VMap (map (map_prod canon canon) es)"
| "canon (VEnum i vs) = VEnum i (map canon vs)"

text \<open>Whether a value is one of the type; the pattern functions of \<open>sval\<close> as predicates.\<close>

fun is_VSeq :: "(sval \<Rightarrow> bool) \<Rightarrow> sval \<Rightarrow> bool" where
  "is_VSeq p (VSeq vs) = (length vs < usize_limit \<and> list_all p vs)"
| "is_VSeq p _ = False"

fun is_VTup :: "(sval \<Rightarrow> bool) list \<Rightarrow> sval \<Rightarrow> bool" where
  "is_VTup ps (VTup vs) = list_all2 (\<lambda>p v. p v) ps vs"
| "is_VTup ps _ = False"

fun is_VMap :: "(sval \<Rightarrow> bool) \<Rightarrow> (sval \<Rightarrow> bool) \<Rightarrow> sval \<Rightarrow> bool" where
  "is_VMap p q (VMap es) = (length es < usize_limit \<and> list_all (\<lambda>(k, v). p k \<and> q v) es)"
| "is_VMap p q _ = False"

fun is_VEnum :: "(sval \<Rightarrow> bool) list list \<Rightarrow> sval \<Rightarrow> bool" where
  "is_VEnum pss (VEnum i vs) = (i < length pss \<and> list_all2 (\<lambda>p v. p v) (pss ! i) vs)"
| "is_VEnum pss _ = False"

fun is_VStr :: "sval \<Rightarrow> bool" where
  "is_VStr (VStr s) = rust_string s"
| "is_VStr _ = False"

primrec fits :: "sty \<Rightarrow> sval \<Rightarrow> bool" where
  "fits TBool = (\<lambda>v. case v of VBool _ \<Rightarrow> True | _ \<Rightarrow> False)"
| "fits TU8 = (\<lambda>v. case v of VU8 _ \<Rightarrow> True | _ \<Rightarrow> False)"
| "fits TU32 = (\<lambda>v. case v of VU32 _ \<Rightarrow> True | _ \<Rightarrow> False)"
| "fits TU64 = (\<lambda>v. case v of VU64 _ \<Rightarrow> True | _ \<Rightarrow> False)"
| "fits TStr = is_VStr"
| "fits (TSeq t) = is_VSeq (fits t)"
| "fits (TTup ts) = is_VTup (map fits ts)"
| "fits (TMap k v) = is_VMap (fits k) (fits v)"
| "fits (TEnum tss) = is_VEnum (map (map fits) tss)"

section \<open>Reading values back\<close>

text \<open>
  What a derived \<open>Deserialize\<close> does with the value the format hands it. A value of another shape is
  a type error, which a format driven by the type never produces.
\<close>

definition type_error :: string where
  "type_error = ''invalid type''"

fun un_str :: "sval \<Rightarrow> string result" where
  "un_str (VStr s) = Inr s"
| "un_str _ = Inl type_error"

fun un_u64 :: "sval \<Rightarrow> u64 result" where
  "un_u64 (VU64 x) = Inr x"
| "un_u64 _ = Inl type_error"

fun un_u32 :: "sval \<Rightarrow> u32 result" where
  "un_u32 (VU32 x) = Inr x"
| "un_u32 _ = Inl type_error"

fun un_u8 :: "sval \<Rightarrow> u8 result" where
  "un_u8 (VU8 x) = Inr x"
| "un_u8 _ = Inl type_error"

fun un_bool :: "sval \<Rightarrow> bool result" where
  "un_bool (VBool x) = Inr x"
| "un_bool _ = Inl type_error"

text \<open>\<open>usize\<close> travels as \<open>u64\<close>.\<close>

definition sv_usize :: "nat \<Rightarrow> sval" where
  "sv_usize n = VU64 (of_nat n)"

fun un_usize :: "sval \<Rightarrow> nat result" where
  "un_usize (VU64 x) = Inr (unat x)"
| "un_usize _ = Inl type_error"

lemma un_usize_sv [simp]: "n < usize_limit \<Longrightarrow> un_usize (sv_usize n) = Inr n"
  by (simp add: sv_usize_def usize_limit_def unat_of_nat)

lemma fits_usize [simp]: "(case canon (sv_usize n) of VU64 _ \<Rightarrow> True | _ \<Rightarrow> False)"
  by (simp add: sv_usize_def)

lemma un_usize_canon [simp]: "n < usize_limit \<Longrightarrow> un_usize (canon (sv_usize n)) = Inr n"
  by (simp add: sv_usize_def usize_limit_def unat_of_nat)

fun un_all :: "(sval \<Rightarrow> 'a result) \<Rightarrow> sval list \<Rightarrow> 'a list result" where
  "un_all f [] = Inr []"
| "un_all f (v # vs) = try_bind (f v) (\<lambda>x. try_bind (un_all f vs) (\<lambda>xs. Inr (x # xs)))"

fun un_seq :: "(sval \<Rightarrow> 'a result) \<Rightarrow> sval \<Rightarrow> 'a list result" where
  "un_seq f (VSeq vs) = un_all f vs"
| "un_seq f _ = Inl type_error"

fun un_bytes :: "sval \<Rightarrow> bytes result" where
  "un_bytes v = un_seq un_u8 v"

fun un_array :: "nat \<Rightarrow> sval \<Rightarrow> bytes result" where
  "un_array n (VTup vs) = (if length vs = n then un_all un_u8 vs else Inl type_error)"
| "un_array n _ = Inl type_error"

text \<open>\<open>HashMap\<close> deserializes by inserting the entries in the order they come: a later one wins.\<close>

fun un_entries :: "(sval \<Rightarrow> 'k result) \<Rightarrow> (sval \<Rightarrow> 'v result) \<Rightarrow> (sval \<times> sval) list \<Rightarrow> ('k \<times> 'v) list result" where
  "un_entries f g [] = Inr []"
| "un_entries f g ((k, v) # es) =
     try_bind (f k) (\<lambda>k'. try_bind (g v) (\<lambda>v'. try_bind (un_entries f g es) (\<lambda>r. Inr ((k', v') # r))))"

fun un_map :: "(sval \<Rightarrow> 'k result) \<Rightarrow> (sval \<Rightarrow> 'v result) \<Rightarrow> sval \<Rightarrow> ('k, 'v) fmap result" where
  "un_map f g (VMap es) =
     try_bind (un_entries f g es) (\<lambda>r. Inr (fold (\<lambda>(k, v) m. fmupd k v m) r fmempty))"
| "un_map f g _ = Inl type_error"

lemma un_all_map:
  "(\<And>x. x \<in> set xs \<Longrightarrow> f (g x) = Inr x) \<Longrightarrow> un_all f (map g xs) = Inr xs"
  by (induction xs) auto

lemma un_all_bytes [simp]: "un_all un_u8 (map VU8 bs) = Inr bs"
  by (rule un_all_map) simp

lemma un_entries_map:
  "\<forall>e \<in> set es. f (a (fst e)) = Inr (fst e) \<and> g (b (snd e)) = Inr (snd e) \<Longrightarrow>
     un_entries f g (map (map_prod a b) es) = Inr es"
  by (induction es) auto

lemma fold_fmupd_lookup:
  assumes "distinct (map fst es)"
  shows "fmlookup (fold (\<lambda>(k, v) m. fmupd k v m) es m) x =
    (case map_of es x of Some v \<Rightarrow> Some v | None \<Rightarrow> fmlookup m x)"
  using assms
proof (induction es arbitrary: m)
  case (Cons e es)
  obtain k v where e: "e = (k, v)" by (cases e)
  with Cons.prems have "map_of es k = None" by (simp add: map_of_eq_None_iff)
  with Cons e show ?case by (auto split: option.splits)
qed simp

lemma fold_fmupd_iteration:
  assumes "is_iteration m es"
  shows "fold (\<lambda>(k, v) m. fmupd k v m) es fmempty = m"
proof (rule fmap_ext)
  fix x
  from assms have "distinct (map fst es)" and "fmap_of_list es = m"
    by (simp_all add: is_iteration_def)
  then show "fmlookup (fold (\<lambda>(k, v) m. fmupd k v m) es fmempty) x = fmlookup m x"
    by (auto simp: fold_fmupd_lookup fmlookup_of_list split: option.splits)
qed

lemma list_all_bytes [simp]:
  "list_all (\<lambda>v. case v of VU8 _ \<Rightarrow> True | _ \<Rightarrow> False) (map VU8 bs)"
  by (simp add: list_all_iff)

end
