(* ===== verification/Crates.thy ===== *)
theory Crates
  imports Wire_Format
begin

text \<open>
  What the crate uses of code that is not in the repository: the CE crates (ce-identity,
  ce-iam-core), the serializer (bincode), and the primitive functions of hex, sha2,
  curve25519-dalek and chacha20poly1305. Each is a field of the record \<open>crates\<close>, a parameter of
  every definition that calls it; \<open>'i\<close> is the type of \<open>ce_identity::Identity\<close>, \<open>'c\<close> that of
  \<open>ce_iam_core::SignedCapability\<close>. The laws after the record state documented behaviour and are
  named hypotheses of the theorems that need them.
\<close>

type_synonym node_id = bytes

record ('i, 'c) crates =
  \<comment> \<open>hex\<close>
  hex_encode :: "bytes \<Rightarrow> string"
  hex_decode :: "string \<Rightarrow> bytes option"
  \<comment> \<open>sha2\<close>
  sha256 :: "bytes \<Rightarrow> bytes"
  sha512 :: "bytes \<Rightarrow> bytes"
  \<comment> \<open>ce-identity: \<open>Identity::{node_id, node_id_hex, sign, secret_bytes}\<close> and \<open>verify\<close>\<close>
  node_id_of :: "'i \<Rightarrow> node_id"
  node_id_hex :: "'i \<Rightarrow> string"
  sign_with :: "'i \<Rightarrow> bytes \<Rightarrow> bytes"
  secret_bytes :: "'i \<Rightarrow> bytes"
  verify_sig :: "node_id \<Rightarrow> bytes \<Rightarrow> bytes \<Rightarrow> bool"
  \<comment> \<open>bincode over the serde data model: \<open>serialize\<close>, \<open>serialized_size\<close>, \<open>deserialize\<close>\<close>
  bincode_serialize :: "sval \<Rightarrow> bytes result"
  bincode_size :: "sval \<Rightarrow> nat result"
  bincode_deserialize :: "sty \<Rightarrow> bytes \<Rightarrow> sval result"
  \<comment> \<open>ce-iam-core: \<open>authorize(node, roots, &[], now, audience, ability, chain, is_revoked)\<close>\<close>
  authorize :: "node_id \<Rightarrow> node_id list \<Rightarrow> u64 \<Rightarrow> node_id \<Rightarrow> string \<Rightarrow> 'c list \<Rightarrow> (node_id \<Rightarrow> u64 \<Rightarrow> bool) \<Rightarrow> unit result"
  \<comment> \<open>the serde form of a \<open>SignedCapability\<close>\<close>
  cap_sv :: "'c \<Rightarrow> sval"
  cap_ty :: sty
  cap_un :: "sval \<Rightarrow> 'c result"
  \<comment> \<open>curve25519-dalek: \<open>CompressedEdwardsY(k).decompress().map(|p| p.to_montgomery().to_bytes())\<close>,
    \<open>MontgomeryPoint::mul_base(&Scalar::from_bytes_mod_order(s)).to_bytes()\<close> and
    \<open>(Scalar::from_bytes_mod_order(s) * MontgomeryPoint(p)).to_bytes()\<close>\<close>
  decompress_montgomery :: "bytes \<Rightarrow> bytes option"
  mont_mul_base :: "bytes \<Rightarrow> bytes"
  mont_mul :: "bytes \<Rightarrow> bytes \<Rightarrow> bytes"
  \<comment> \<open>chacha20poly1305: \<open>new_from_slice\<close> (the error's text), \<open>encrypt\<close>, \<open>decrypt\<close> under key and nonce\<close>
  aead_new :: "bytes \<Rightarrow> unit result"
  aead_encrypt :: "bytes \<Rightarrow> bytes \<Rightarrow> bytes \<Rightarrow> bytes option"
  aead_decrypt :: "bytes \<Rightarrow> bytes \<Rightarrow> bytes \<Rightarrow> bytes option"

section \<open>Laws\<close>

text \<open>
  hex: decoding inverts encoding, whose text is two lower-case hexadecimal digits per byte.
\<close>

definition hex_digits :: string where
  "hex_digits = ''0123456789abcdef''"

definition hex_ok :: "('i, 'c) crates \<Rightarrow> bool" where
  "hex_ok X \<longleftrightarrow>
     (\<forall>bs. hex_decode X (hex_encode X bs) = Some bs \<and>
           length (hex_encode X bs) = 2 * length bs \<and>
           set (hex_encode X bs) \<subseteq> set hex_digits)"

text \<open>
  ce-identity: a node id is 32 bytes, printed in hex; a signature is 64 bytes and verifies under
  the signer's node id.
\<close>

definition identity_ok :: "('i, 'c) crates \<Rightarrow> bool" where
  "identity_ok X \<longleftrightarrow>
     (\<forall>i. length (node_id_of X i) = 32 \<and> node_id_hex X i = hex_encode X (node_id_of X i) \<and>
          (\<forall>m. length (sign_with X i m) = 64 \<and> verify_sig X (node_id_of X i) m (sign_with X i m)))"

text \<open>
  bincode: serializing a value of a type succeeds, and deserializing the bytes at that type gives
  the value back.
\<close>

definition bincode_ok :: "('i, 'c) crates \<Rightarrow> bool" where
  "bincode_ok X \<longleftrightarrow>
     (\<forall>t v. fits t (canon v) \<longrightarrow>
        (\<exists>bs. bincode_serialize X v = Inr bs \<and> bincode_deserialize X t bs = Inr (canon v)))"

text \<open>ce-iam-core: a \<open>SignedCapability\<close>'s own serde form reads back.\<close>

definition caps_ok :: "('i, 'c) crates \<Rightarrow> bool" where
  "caps_ok X \<longleftrightarrow>
     (\<forall>c. fits (cap_ty X) (canon (cap_sv X c)) \<and> cap_un X (canon (cap_sv X c)) = Inr c)"

lemma hex_okD:
  assumes "hex_ok X"
  shows "hex_decode X (hex_encode X bs) = Some bs"
    and "length (hex_encode X bs) = 2 * length bs"
    and "c \<in> set (hex_encode X bs) \<Longrightarrow> c \<in> set hex_digits"
  using assms [unfolded hex_ok_def, THEN spec, of bs] by auto

lemma identity_okD:
  assumes "identity_ok X"
  shows "length (node_id_of X i) = 32"
    and "node_id_hex X i = hex_encode X (node_id_of X i)"
    and "length (sign_with X i m) = 64"
    and "verify_sig X (node_id_of X i) m (sign_with X i m)"
  using assms [unfolded identity_ok_def, THEN spec, of i] by auto

lemma bincode_okD:
  assumes "bincode_ok X" and "fits t (canon v)"
  shows "\<exists>bs. bincode_serialize X v = Inr bs \<and> bincode_deserialize X t bs = Inr (canon v)"
  by (rule assms(1) [unfolded bincode_ok_def, THEN spec, THEN spec, THEN mp, OF assms(2)])

section \<open>Encoding and decoding a type\<close>

text \<open>
  \<open>bincode::deserialize::<T>\<close>: read the value at the type, then build the \<open>T\<close>; both steps can
  fail, with the error's text.
\<close>

definition from_bincode :: "('i, 'c) crates \<Rightarrow> sty \<Rightarrow> (sval \<Rightarrow> 'a result) \<Rightarrow> bytes \<Rightarrow> 'a result" where
  "from_bincode X t un bs = try_bind (bincode_deserialize X t bs) un"

text \<open>
  The contract of a derived \<open>Serialize\<close> / \<open>Deserialize\<close> pair: a well-formed value is a value of its
  type, and is rebuilt from what the format hands back. Every type of the crate that is sent or
  stored is an instance.
\<close>

locale serde_type =
  fixes sv :: "'a \<Rightarrow> sval"
    and ty :: sty
    and un :: "sval \<Rightarrow> 'a result"
    and ok :: "'a \<Rightarrow> bool"
  assumes fits_sv: "ok a \<Longrightarrow> fits ty (canon (sv a))"
    and un_sv: "ok a \<Longrightarrow> un (canon (sv a)) = Inr a"
begin

lemma serde_roundtrip:
  assumes "bincode_ok X" and "ok a"
  shows "\<exists>bs. bincode_serialize X (sv a) = Inr bs \<and> from_bincode X ty un bs = Inr a"
  using bincode_okD [OF assms(1) fits_sv [OF assms(2)]] un_sv [OF assms(2)]
  by (auto simp: from_bincode_def)

lemma serde_decode:
  assumes "bincode_ok X" and "ok a"
  shows "from_bincode X ty un (unwrap_or [] (bincode_serialize X (sv a))) = Inr a"
  using serde_roundtrip [OF assms] by auto

lemma serde_total:
  assumes "bincode_ok X" and "ok a"
  shows "\<exists>bs. bincode_serialize X (sv a) = Inr bs"
  using serde_roundtrip [OF assms] by blast

lemma serde_injective:
  assumes "bincode_ok X" and "ok a" and "ok b"
    and "unwrap_or [] (bincode_serialize X (sv a)) = unwrap_or [] (bincode_serialize X (sv b))"
  shows "a = b"
proof -
  have "Inr a = from_bincode X ty un (unwrap_or [] (bincode_serialize X (sv a)))"
    by (rule serde_decode [OF assms(1,2), symmetric])
  also have "\<dots> = from_bincode X ty un (unwrap_or [] (bincode_serialize X (sv b)))"
    by (simp only: assms(4))
  also have "\<dots> = Inr b" by (rule serde_decode [OF assms(1,3)])
  finally show ?thesis by simp
qed

end

end
