(* ===== verification/Rust_Strings.thy ===== *)
theory Rust_Strings
  imports Mail_Prelude
begin

text \<open>
  The operations of Rust's \<open>str\<close> the crate uses, on the UTF-8 bytes of the text: trimming and
  splitting at Unicode white space, ASCII lower-casing, prefix stripping, byte search. White
  space is recognised as a one, two or three byte sequence at the front of the text; since the
  lead bytes of these sequences never occur as continuation bytes, scanning byte by byte is
  scanning character by character on valid UTF-8.
\<close>

section \<open>White space\<close>

text \<open>
  \<open>char::is_whitespace\<close>: U+0009..U+000D, U+0020, U+0085, U+00A0, U+1680, U+2000..U+200A, U+2028,
  U+2029, U+202F, U+205F, U+3000. \<open>ws_len s\<close> is the number of bytes of the white-space character
  at the front of \<open>s\<close>, 0 if there is none.
\<close>

definition ascii_ws :: "char \<Rightarrow> bool" where
  "ascii_ws c \<longleftrightarrow> c \<in> {CHR 0x09, CHR 0x0A, CHR 0x0B, CHR 0x0C, CHR 0x0D, CHR 0x20}"

definition ws2 :: "char \<Rightarrow> char \<Rightarrow> bool" where
  "ws2 a b \<longleftrightarrow> a = CHR 0xC2 \<and> (b = CHR 0x85 \<or> b = CHR 0xA0)"

definition ws3 :: "char \<Rightarrow> char \<Rightarrow> char \<Rightarrow> bool" where
  "ws3 a b c \<longleftrightarrow>
     a = CHR 0xE1 \<and> b = CHR 0x9A \<and> c = CHR 0x80
   \<or> a = CHR 0xE2 \<and> b = CHR 0x80 \<and>
       c \<in> {CHR 0x80, CHR 0x81, CHR 0x82, CHR 0x83, CHR 0x84, CHR 0x85, CHR 0x86, CHR 0x87,
            CHR 0x88, CHR 0x89, CHR 0x8A, CHR 0xA8, CHR 0xA9, CHR 0xAF}
   \<or> a = CHR 0xE2 \<and> b = CHR 0x81 \<and> c = CHR 0x9F
   \<or> a = CHR 0xE3 \<and> b = CHR 0x80 \<and> c = CHR 0x80"

fun ws_len :: "string \<Rightarrow> nat" where
  "ws_len [] = 0"
| "ws_len (a # s) =
     (if ascii_ws a then 1
      else case s of
        [] \<Rightarrow> 0
      | b # s' \<Rightarrow>
          (if ws2 a b then 2
           else case s' of [] \<Rightarrow> 0 | c # _ \<Rightarrow> (if ws3 a b c then 3 else 0)))"

text \<open>A continuation byte of a white-space sequence, and a byte that can start one.\<close>

definition ws_lead :: "char \<Rightarrow> bool" where
  "ws_lead c \<longleftrightarrow> ascii_ws c \<or> c \<in> {CHR 0xC2, CHR 0xE1, CHR 0xE2, CHR 0xE3}"

definition ws_cont :: "char \<Rightarrow> bool" where
  "ws_cont c \<longleftrightarrow>
     c \<in> {CHR 0x80, CHR 0x81, CHR 0x82, CHR 0x83, CHR 0x84, CHR 0x85, CHR 0x86, CHR 0x87,
          CHR 0x88, CHR 0x89, CHR 0x8A, CHR 0xA8, CHR 0xA9, CHR 0xAF, CHR 0x9A, CHR 0x9F, CHR 0xA0}"

lemma ws2_cont: "ws2 a b \<Longrightarrow> ws_cont b"
  by (auto simp: ws2_def ws_cont_def)

lemma ws3_cont: "ws3 a b c \<Longrightarrow> ws_cont b \<and> ws_cont c"
  by (auto simp: ws3_def ws_cont_def)

lemma ws2_lead: "ws2 a b \<Longrightarrow> ws_lead a"
  by (auto simp: ws2_def ws_lead_def)

lemma ws3_lead: "ws3 a b c \<Longrightarrow> ws_lead a"
  by (auto simp: ws3_def ws_lead_def)

lemma ws_lead_not_cont: "ws_lead c \<Longrightarrow> \<not> ws_cont c"
  by (auto simp: ws_lead_def ws_cont_def ascii_ws_def)

lemma ws_len_pos_lead: "0 < ws_len (a # s) \<Longrightarrow> ws_lead a"
  by (auto simp: ws_lead_def ws2_def ws3_def split: if_splits list.splits)

lemma ws_len_le: "ws_len s \<le> length s"
  by (cases s) (auto split: list.splits)

lemma ws_len_not_lead [simp]: "\<not> ws_lead a \<Longrightarrow> ws_len (a # s) = 0"
  using ws_len_pos_lead by blast

text \<open>A white-space character at the front is found whatever follows it.\<close>

lemma ws_len_append: "0 < ws_len u \<Longrightarrow> ws_len (u @ v) = ws_len u"
  by (cases u) (auto split: if_splits list.splits)

lemma ws_len_take: "ws_len s = k \<Longrightarrow> ws_len (take k s) = k"
  by (cases s) (auto split: if_splits list.splits)

text \<open>A text followed by a byte that is no continuation byte hides no white space across the seam.\<close>

lemma ws_len_seam:
  assumes "v = [] \<or> \<not> ws_cont (hd v)"
  shows "u \<noteq> [] \<Longrightarrow> ws_len (u @ v) = ws_len u"
proof -
  assume "u \<noteq> []"
  then obtain a u' where u: "u = a # u'" by (cases u) auto
  consider "u' = []" | b where "u' = [b]" | b c u'' where "u' = b # c # u''"
    by (metis neq_Nil_conv)
  then show ?thesis
    using assms unfolding u
    by cases (auto split: list.splits dest: ws2_cont ws3_cont)
qed

text \<open>No white-space sequence starts inside another one.\<close>

lemma ws_len_inside:
  assumes "ws_len w = length w" and "0 < j" and "j < length w"
  shows "ws_cont (w ! j)"
proof (cases w)
  case Nil
  with assms show ?thesis by simp
next
  case (Cons a s)
  with assms show ?thesis
    by (auto split: if_splits list.splits simp: nth_Cons' dest: ws2_cont ws3_cont
        split: if_splits)
qed

lemma ws_len_hd_not_cont: "ws_len s \<noteq> 0 \<Longrightarrow> \<not> ws_cont (s ! 0)"
  by (cases s) (use ws_len_pos_lead ws_lead_not_cont in \<open>auto simp del: ws_len.simps(2)\<close>)

declare ws_len.simps(2) [simp del]

section \<open>Trimming\<close>

text \<open>\<open>str::trim_start\<close>\<close>

function trim_start :: "string \<Rightarrow> string" where
  "trim_start s = (if ws_len s = 0 then s else trim_start (drop (ws_len s) s))"
  by pat_completeness auto
termination
proof (relation "measure length", simp)
  fix s :: string
  assume "ws_len s \<noteq> 0"
  moreover have "ws_len s \<le> length s" by (rule ws_len_le)
  ultimately show "(drop (ws_len s) s, s) \<in> measure length" by simp
qed

declare trim_start.simps [simp del]

text \<open>The length of the white-space character at the end of a text, 0 if there is none.\<close>

definition ws_end :: "string \<Rightarrow> nat" where
  "ws_end s =
     (let n = length s in
      if 1 \<le> n \<and> ws_len (drop (n - 1) s) = 1 then 1
      else if 2 \<le> n \<and> ws_len (drop (n - 2) s) = 2 then 2
      else if 3 \<le> n \<and> ws_len (drop (n - 3) s) = 3 then 3
      else 0)"

lemma ws_end_le: "ws_end s \<le> length s"
  by (auto simp: ws_end_def Let_def)

text \<open>\<open>str::trim_end\<close> and \<open>str::trim\<close>\<close>

function trim_end :: "string \<Rightarrow> string" where
  "trim_end s = (if ws_end s = 0 then s else trim_end (take (length s - ws_end s) s))"
  by pat_completeness auto
termination
proof (relation "measure length", simp)
  fix s :: string
  assume "ws_end s \<noteq> 0"
  moreover have "ws_end s \<le> length s" by (rule ws_end_le)
  ultimately show "(take (length s - ws_end s) s, s) \<in> measure length" by simp
qed

declare trim_end.simps [simp del]

definition trim :: "string \<Rightarrow> string" where
  "trim s = trim_end (trim_start s)"

lemma trim_start_id: "ws_len s = 0 \<Longrightarrow> trim_start s = s"
  by (simp add: trim_start.simps)

lemma trim_end_id: "ws_end s = 0 \<Longrightarrow> trim_end s = s"
  by (simp add: trim_end.simps)

lemma trim_start_Nil [simp]: "trim_start [] = []"
  by (simp add: trim_start_id)

lemma trim_end_Nil [simp]: "trim_end [] = []"
  by (simp add: trim_end_id ws_end_def)

lemma ws_len_trim_start [simp]: "ws_len (trim_start s) = 0"
  by (induction s rule: trim_start.induct) (simp add: trim_start.simps)

lemma trim_start_idem [simp]: "trim_start (trim_start s) = trim_start s"
  by (simp add: trim_start_id)

lemma ws_end_trim_end [simp]: "ws_end (trim_end s) = 0"
  by (induction s rule: trim_end.induct) (simp add: trim_end.simps)

lemma trim_end_idem [simp]: "trim_end (trim_end s) = trim_end s"
  by (simp add: trim_end_id)

lemma length_trim_start: "length (trim_start s) \<le> length s"
proof (induction s rule: trim_start.induct)
  case (1 s)
  show ?case
  proof (cases "ws_len s = 0")
    case False
    with "1.IH" have "length (trim_start (drop (ws_len s) s)) \<le> length s" by simp
    with False show ?thesis by (simp add: trim_start.simps [of s])
  qed (simp add: trim_start_id)
qed

lemma trim_end_prefix: "\<exists>v. s = trim_end s @ v"
proof (induction s rule: trim_end.induct)
  case (1 s)
  show ?case
  proof (cases "ws_end s = 0")
    case True
    then show ?thesis by (simp add: trim_end_id)
  next
    case False
    with "1.IH" obtain v where
      "take (length s - ws_end s) s = trim_end (take (length s - ws_end s) s) @ v" by blast
    then have "s = trim_end (take (length s - ws_end s) s) @ v @ drop (length s - ws_end s) s"
      by (metis append.assoc append_take_drop_id)
    with False show ?thesis by (metis trim_end.simps)
  qed
qed

text \<open>The end of a text is white space exactly when a whole white-space character is its suffix.\<close>

lemma ws_len_values: "ws_len s \<in> {0, 1, 2, 3}"
  by (cases s) (auto simp: ws_len.simps(2) split: list.splits)

lemma ws_end_iff: "ws_end s \<noteq> 0 \<longleftrightarrow> (\<exists>u w. s = u @ w \<and> w \<noteq> [] \<and> ws_len w = length w)"
proof
  assume "ws_end s \<noteq> 0"
  then obtain k where k: "k \<in> {1, 2, 3}" "k \<le> length s" "ws_len (drop (length s - k) s) = k"
    by (auto simp: ws_end_def Let_def split: if_splits)
  have "s = take (length s - k) s @ drop (length s - k) s" by simp
  moreover have "drop (length s - k) s \<noteq> []" using k by auto
  moreover have "ws_len (drop (length s - k) s) = length (drop (length s - k) s)"
    using k by simp
  ultimately show "\<exists>u w. s = u @ w \<and> w \<noteq> [] \<and> ws_len w = length w" by blast
next
  assume "\<exists>u w. s = u @ w \<and> w \<noteq> [] \<and> ws_len w = length w"
  then obtain u w where s: "s = u @ w" "w \<noteq> []" "ws_len w = length w" by blast
  then have "length w \<in> {1, 2, 3}" using ws_len_values [of w] by auto
  moreover have "drop (length s - length w) s = w" using s by simp
  ultimately show "ws_end s \<noteq> 0" using s by (auto simp: ws_end_def Let_def)
qed

lemma ws_end_unique:
  assumes "s = u @ w" and "w \<noteq> []" and "ws_len w = length w"
  shows "ws_end s = length w"
proof -
  have nz: "ws_end s \<noteq> 0" using assms ws_end_iff by blast
  define k where "k = ws_end s"
  have k: "k \<in> {1, 2, 3}" "k \<le> length s" "ws_len (drop (length s - k) s) = k"
    using nz by (auto simp: k_def ws_end_def Let_def split: if_splits)
  define v where "v = drop (length s - k) s"
  have v: "length v = k" "ws_len v = length v" "v \<noteq> []" using k by (auto simp: v_def)
  have lead_w: "\<not> ws_cont (w ! 0)"
    using assms(2,3) ws_len_hd_not_cont by auto
  have lead_v: "\<not> ws_cont (v ! 0)"
    using v ws_len_hd_not_cont by auto
  have s_v: "s = take (length s - k) s @ v" by (simp add: v_def)
  show ?thesis
  proof (rule ccontr)
    assume "ws_end s \<noteq> length w"
    then consider "k < length w" | "length w < k" unfolding k_def by linarith
    then show False
    proof cases
      case 1
      have "v = drop (length w - k) w"
        using 1 assms(1) by (simp add: v_def)
      then have "v ! 0 = w ! (length w - k)" using 1 v by (simp add: nth_drop)
      moreover have "ws_cont (w ! (length w - k))"
        using 1 k by (intro ws_len_inside [OF assms(3)]) auto
      ultimately show False using lead_v by simp
    next
      case 2
      have "w = drop (k - length w) v"
        using 2 assms(1) k by (simp add: v_def)
      then have "w ! 0 = v ! (k - length w)" using 2 v assms(2) by (metis nth_drop add.right_neutral diff_le_self)
      moreover have "ws_cont (v ! (k - length w))"
        using 2 v assms(2) by (intro ws_len_inside) auto
      ultimately show False using lead_w by simp
    qed
  qed
qed

text \<open>Cutting one white-space character off the end; both trims from a seam outwards.\<close>

lemma trim_end_ws_suffix:
  assumes "w \<noteq> []" and "ws_len w = length w"
  shows "trim_end (u @ w) = trim_end u"
proof -
  have "ws_end (u @ w) = length w" by (rule ws_end_unique [OF refl assms])
  with assms show ?thesis by (subst trim_end.simps) simp
qed

lemma trim_end_decompose:
  assumes "ws_end s \<noteq> 0"
  obtains u w where "s = u @ w" "w \<noteq> []" "ws_len w = length w" "trim_end s = trim_end u"
  using assms ws_end_iff trim_end_ws_suffix by metis

text \<open>
  A seam that no white-space sequence crosses: whatever non-empty \<open>u\<close> without trailing white
  space follows \<open>w\<close>, no trailing white space appears.
\<close>

definition solid :: "string \<Rightarrow> bool" where
  "solid w \<longleftrightarrow> (\<forall>u. u \<noteq> [] \<longrightarrow> ws_end u = 0 \<longrightarrow> ws_end (w @ u) = 0)"

lemma trim_end_append:
  assumes "solid w"
  shows "trim_end (w @ u) = (if trim_end u = [] then trim_end w else w @ trim_end u)"
proof (induction u rule: measure_induct_rule [where f = length])
  case (less u)
  show ?case
  proof (cases "ws_end u = 0")
    case True
    then show ?thesis
      using assms by (cases "u = []") (auto simp: solid_def trim_end_id)
  next
    case False
    then obtain v x where u: "u = v @ x" "x \<noteq> []" "ws_len x = length x" "trim_end u = trim_end v"
      by (rule trim_end_decompose)
    have "trim_end (w @ u) = trim_end (w @ v)"
      using trim_end_ws_suffix [OF u(2,3), of "w @ v"] u(1) by simp
    with less [of v] u show ?thesis by simp
  qed
qed

lemma solidI:
  assumes "\<And>x a u. w = a @ x \<Longrightarrow> x \<noteq> [] \<Longrightarrow> u \<noteq> [] \<Longrightarrow> ws_len (x @ u) \<noteq> length (x @ u)"
  shows "solid w"
  unfolding solid_def
proof (intro allI impI, rule ccontr)
  fix u
  assume u: "u \<noteq> []" "ws_end u = 0" and nz: "ws_end (w @ u) \<noteq> 0"
  then obtain a v where av: "w @ u = a @ v" "v \<noteq> []" "ws_len v = length v"
    using ws_end_iff by blast
  then consider x where "w = a @ x" "v = x @ u" | x where "u = x @ v"
    by (auto simp: append_eq_append_conv2)
  then show False
  proof cases
    case 1
    show False
    proof (cases "x = []")
      case True
      with 1 av have "u = [] @ v" by simp
      with av u show False using ws_end_iff [of u] by blast
    next
      case False
      with 1 av u assms [of a x u] show False by simp
    qed
  next
    case 2
    then show False using av u ws_end_iff by blast
  qed
qed

lemma solid_ws:
  assumes "w \<noteq> []" and "ws_len w = length w"
  shows "solid w"
proof (rule solidI)
  fix x a u :: string
  assume w: "w = a @ x" "x \<noteq> []" and u: "u \<noteq> []"
  show "ws_len (x @ u) \<noteq> length (x @ u)"
  proof (cases "a = []")
    case True
    with w assms have "ws_len (x @ u) = length x" using ws_len_append [of x u] by simp
    with u show ?thesis by simp
  next
    case False
    with w assms have "ws_cont (w ! length a)" by (intro ws_len_inside) auto
    with w have "ws_cont ((x @ u) ! 0)" by (simp add: nth_append)
    with w show ?thesis using ws_len_hd_not_cont [of "x @ u"] by auto
  qed
qed

text \<open>A byte that neither starts nor continues white space seals the seam.\<close>

definition inert :: "char \<Rightarrow> bool" where
  "inert c \<longleftrightarrow> \<not> ws_lead c \<and> \<not> ws_cont c"

lemma inert_not_end:
  assumes "inert c"
  shows "ws_end (p @ [c]) = 0"
proof (rule ccontr)
  assume "ws_end (p @ [c]) \<noteq> 0"
  then obtain u w where w: "p @ [c] = u @ w" "w \<noteq> []" "ws_len w = length w"
    using ws_end_iff by blast
  then have lastw: "w ! (length w - 1) = c"
    by (metis last_appendR last_conv_nth last_snoc)
  show False
  proof (cases "length w = 1")
    case True
    then have "w = [c]" using lastw by (cases w) auto
    with w assms show False by (simp add: inert_def)
  next
    case False
    then have "1 < length w" using w by (cases w) auto
    then have "ws_cont (w ! (length w - 1))" using w by (intro ws_len_inside) auto
    with lastw assms show False by (simp add: inert_def)
  qed
qed

lemma solid_inert:
  assumes "inert c"
  shows "solid (p @ [c])"
proof (rule solidI)
  fix x a u :: string
  assume w: "p @ [c] = a @ x" "x \<noteq> []" and u: "u \<noteq> []"
  have c: "x ! (length x - 1) = c"
    using w by (metis last_appendR last_conv_nth last_snoc)
  show "ws_len (x @ u) \<noteq> length (x @ u)"
  proof
    assume eq: "ws_len (x @ u) = length (x @ u)"
    show False
    proof (cases "length x = 1")
      case True
      then have "x = [c]" using c by (cases x) auto
      with eq assms show False by (simp add: inert_def)
    next
      case False
      then have "1 < length x" using w by (cases x) auto
      then have "ws_cont ((x @ u) ! (length x - 1))"
        using eq by (intro ws_len_inside) auto
      with c w assms show False by (simp add: nth_append inert_def)
    qed
  qed
qed

lemma trim_end_after_inert:
  assumes "inert c"
  shows "trim_end (p @ c # u) = p @ c # trim_end u"
proof -
  have "trim_end ((p @ [c]) @ u) = (if trim_end u = [] then trim_end (p @ [c]) else (p @ [c]) @ trim_end u)"
    by (rule trim_end_append [OF solid_inert [OF assms]])
  moreover have "trim_end (p @ [c]) = p @ [c]"
    by (rule trim_end_id [OF inert_not_end [OF assms]])
  ultimately show ?thesis by (auto split: if_splits)
qed

lemma ws_len_trim_end_0: "ws_len s = 0 \<Longrightarrow> ws_len (trim_end s) = 0"
  by (metis gr0I trim_end_prefix ws_len_append)

lemma trim_commute: "trim_start (trim_end s) = trim_end (trim_start s)"
proof (induction s rule: trim_start.induct)
  case (1 s)
  show ?case
  proof (cases "ws_len s = 0")
    case True
    then show ?thesis by (simp add: trim_start_id ws_len_trim_end_0)
  next
    case False
    define w where "w = take (ws_len s) s"
    define u where "u = drop (ws_len s) s"
    have s: "s = w @ u" by (simp add: w_def u_def)
    have w: "w \<noteq> []" "ws_len w = length w"
      using False ws_len_le [of s] ws_len_take [of s "ws_len s"] by (auto simp: w_def)
    have "trim_start s = trim_start u" using False by (simp add: trim_start.simps [of s] u_def)
    moreover have "trim_start (trim_end s) = trim_start (trim_end u)"
    proof (cases "trim_end u = []")
      case True
      then have "trim_end s = trim_end ([] @ w)"
        using trim_end_append [OF solid_ws [OF w], of u] s by simp
      also have "\<dots> = []" using trim_end_ws_suffix [OF w, of "[]"] by simp
      finally show ?thesis using True by simp
    next
      case False
      then have te: "trim_end s = w @ trim_end u"
        using trim_end_append [OF solid_ws [OF w], of u] s by simp
      have "ws_len (w @ trim_end u) = length w" using ws_len_append [of w] w by simp
      then show ?thesis using w te by (simp add: trim_start.simps [of "w @ trim_end u"])
    qed
    ultimately show ?thesis using "1.IH" [OF False] by (simp add: u_def)
  qed
qed

lemma trim_idem [simp]: "trim (trim s) = trim s"
  by (simp add: trim_def trim_commute [symmetric])

lemma trim_Nil [simp]: "trim [] = []"
  by (simp add: trim_def)

lemma ws_len_trim [simp]: "ws_len (trim s) = 0"
  by (simp add: trim_def ws_len_trim_end_0)

text \<open>Trimming removes white-space bytes only.\<close>

lemma inert_not_ws:
  assumes "inert c" and "ws_len w = length w"
  shows "c \<notin> set w"
proof
  assume "c \<in> set w"
  then obtain i where i: "i < length w" "w ! i = c" by (auto simp: in_set_conv_nth)
  show False
  proof (cases "i = 0")
    case True
    then obtain w' where "w = c # w'" using i by (cases w) auto
    with assms show False by (simp add: inert_def)
  next
    case False
    then have "ws_cont (w ! i)" using ws_len_inside [OF assms(2) _ i(1)] by simp
    with i assms(1) show False by (simp add: inert_def)
  qed
qed

lemma inert_trim_start: "inert c \<Longrightarrow> c \<in> set s \<Longrightarrow> c \<in> set (trim_start s)"
proof (induction s rule: trim_start.induct)
  case (1 s)
  show ?case
  proof (cases "ws_len s = 0")
    case False
    have "c \<notin> set (take (ws_len s) s)"
      using inert_not_ws [OF "1.prems"(1), of "take (ws_len s) s"] ws_len_take [of s] ws_len_le [of s]
      by simp
    then have "c \<in> set (drop (ws_len s) s)"
      using "1.prems"(2) by (metis Un_iff append_take_drop_id set_append)
    with 1 False show ?thesis by (simp add: trim_start.simps [of s])
  qed (use "1.prems" in \<open>simp add: trim_start_id\<close>)
qed

lemma inert_trim_end: "inert c \<Longrightarrow> c \<in> set s \<Longrightarrow> c \<in> set (trim_end s)"
proof (induction s rule: measure_induct_rule [where f = length])
  case (less s)
  show ?case
  proof (cases "ws_end s = 0")
    case False
    then obtain u w where s: "s = u @ w" "w \<noteq> []" "ws_len w = length w" "trim_end s = trim_end u"
      by (rule trim_end_decompose)
    with less inert_not_ws [of c w] show ?thesis by auto
  qed (use less.prems in \<open>simp add: trim_end_id\<close>)
qed

lemma inert_trim: "inert c \<Longrightarrow> c \<in> set s \<Longrightarrow> c \<in> set (trim s)"
  by (simp add: trim_def inert_trim_start inert_trim_end)

end
