(* ===== verification/Rust_Tokens.thy ===== *)
theory Rust_Tokens
  imports Rust_Strings
begin

text \<open>
  Splitting at white space, ASCII lower-casing, prefix stripping and byte search of Rust's \<open>str\<close>,
  with the laws the subject normalisation relies on: splitting ignores leading and trailing white
  space, lower-casing moves no white space, and splitting a re-joined list of words gives the
  words back.
\<close>

section \<open>split_whitespace and join\<close>

definition flush :: "string \<Rightarrow> string list" where
  "flush acc = (if acc = [] then [] else [acc])"

function split_ws_aux :: "string \<Rightarrow> string \<Rightarrow> string list" where
  "split_ws_aux acc s =
     (case s of
        [] \<Rightarrow> flush acc
      | c # cs \<Rightarrow>
          (if ws_len s = 0 then split_ws_aux (acc @ [c]) cs
           else flush acc @ split_ws_aux [] (drop (ws_len s) s)))"
  by pat_completeness auto
termination
  by (relation "measure (\<lambda>(acc, s). length s)") auto

declare split_ws_aux.simps [simp del]

text \<open>\<open>str::split_whitespace\<close> (collected) and \<open>[&str]::join(" ")\<close>\<close>

definition split_whitespace :: "string \<Rightarrow> string list" where
  "split_whitespace s = split_ws_aux [] s"

fun join_space :: "string list \<Rightarrow> string" where
  "join_space [] = []"
| "join_space [t] = t"
| "join_space (t # ts) = t @ CHR '' '' # join_space ts"

lemma split_ws_aux_Nil [simp]: "split_ws_aux acc [] = flush acc"
  by (simp add: split_ws_aux.simps)

lemma split_ws_aux_char: "ws_len (c # cs) = 0 \<Longrightarrow> split_ws_aux acc (c # cs) = split_ws_aux (acc @ [c]) cs"
  by (simp add: split_ws_aux.simps [of acc "c # cs"])

lemma split_ws_aux_ws:
  "ws_len s \<noteq> 0 \<Longrightarrow> split_ws_aux acc s = flush acc @ split_ws_aux [] (drop (ws_len s) s)"
  by (subst split_ws_aux.simps) (auto split: list.splits)

lemma flush_Nil [simp]: "flush [] = []"
  by (simp add: flush_def)

lemma split_trim_start [simp]: "split_whitespace (trim_start s) = split_whitespace s"
proof (induction s rule: trim_start.induct)
  case (1 s)
  show ?case
  proof (cases "ws_len s = 0")
    case False
    with "1.IH" show ?thesis
      by (simp add: trim_start.simps [of s] split_whitespace_def split_ws_aux_ws [of s])
  qed (simp add: trim_start_id)
qed

lemma split_ws_aux_append_ws:
  assumes "w \<noteq> []" and "ws_len w = length w"
  shows "split_ws_aux acc (v @ w) = split_ws_aux acc v"
proof (induction acc v rule: split_ws_aux.induct)
  case (1 acc v)
  have hd: "\<not> ws_cont (hd w)"
    using assms ws_len_hd_not_cont [of w] by (simp add: hd_conv_nth)
  show ?case
  proof (cases v)
    case Nil
    with assms show ?thesis by (simp add: split_ws_aux_ws [of w])
  next
    case (Cons c cs)
    have seam: "ws_len (v @ w) = ws_len v" using ws_len_seam [of w v] hd Cons by simp
    show ?thesis
    proof (cases "ws_len v = 0")
      case True
      with Cons seam have "split_ws_aux acc (v @ w) = split_ws_aux (acc @ [c]) (cs @ w)"
        by (simp add: split_ws_aux_char)
      with 1 Cons True show ?thesis by (simp add: split_ws_aux_char)
    next
      case False
      have "split_ws_aux acc (v @ w) = flush acc @ split_ws_aux [] (drop (ws_len v) v @ w)"
        using False seam ws_len_le [of v] by (subst split_ws_aux_ws) simp_all
      moreover have "split_ws_aux acc v = flush acc @ split_ws_aux [] (drop (ws_len v) v)"
        using False by (rule split_ws_aux_ws)
      ultimately show ?thesis using 1 Cons False by simp
    qed
  qed
qed

lemma split_trim_end [simp]: "split_whitespace (trim_end s) = split_whitespace s"
proof (induction s rule: measure_induct_rule [where f = length])
  case (less s)
  show ?case
  proof (cases "ws_end s = 0")
    case False
    then obtain u w where s: "s = u @ w" "w \<noteq> []" "ws_len w = length w" "trim_end s = trim_end u"
      by (rule trim_end_decompose)
    with less [of u] show ?thesis
      by (simp add: split_whitespace_def split_ws_aux_append_ws)
  qed (simp add: trim_end_id)
qed

lemma split_trim [simp]: "split_whitespace (trim s) = split_whitespace s"
  by (simp add: trim_def)

text \<open>A word: not empty, and no white space starts in it.\<close>

definition word :: "string \<Rightarrow> bool" where
  "word t \<longleftrightarrow> t \<noteq> [] \<and> (\<forall>i < length t. ws_len (drop i t) = 0)"

lemma split_ws_aux_words:
  assumes "\<forall>i < length acc. ws_len (drop i acc @ s) = 0"
  shows "\<forall>t \<in> set (split_ws_aux acc s). word t"
  using assms
proof (induction acc s rule: split_ws_aux.induct)
  case (1 acc s)
  have flush: "\<forall>t \<in> set (flush acc). word t"
    using "1.prems" unfolding flush_def word_def
    by (auto) (metis gr0I ws_len_append)
  show ?case
  proof (cases s)
    case Nil
    with flush show ?thesis by simp
  next
    case (Cons c cs)
    show ?thesis
    proof (cases "ws_len s = 0")
      case True
      have "\<forall>i < length (acc @ [c]). ws_len (drop i (acc @ [c]) @ cs) = 0"
      proof (intro allI impI)
        fix i
        assume "i < length (acc @ [c])"
        with True Cons "1.prems" show "ws_len (drop i (acc @ [c]) @ cs) = 0"
          by (cases "i = length acc") auto
      qed
      with 1 Cons True show ?thesis by (simp add: split_ws_aux_char)
    next
      case False
      then have "split_ws_aux acc s = flush acc @ split_ws_aux [] (drop (ws_len s) s)"
        by (rule split_ws_aux_ws)
      with 1 Cons False flush show ?thesis by auto
    qed
  qed
qed

lemma split_words: "t \<in> set (split_whitespace s) \<Longrightarrow> word t"
  using split_ws_aux_words [of "[]" s] by (auto simp: split_whitespace_def)

lemma ws_len_space [simp]: "ws_len (CHR '' '' # s) = 1"
  by (simp add: ws_len.simps(2) ascii_ws_def)

lemma space_not_cont [simp]: "\<not> ws_cont (CHR '' '')"
  by (simp add: ws_cont_def)

lemma word_seam: "word t \<Longrightarrow> i < length t \<Longrightarrow> v = [] \<or> hd v = CHR '' '' \<Longrightarrow> ws_len (drop i t @ v) = 0"
  using ws_len_seam [of v "drop i t"] by (auto simp: word_def)

lemma split_ws_aux_word:
  assumes "\<forall>i < length t. ws_len (drop i t @ v) = 0"
  shows "split_ws_aux acc (t @ v) = split_ws_aux (acc @ t) v"
  using assms
proof (induction t arbitrary: acc)
  case (Cons c t)
  have "ws_len ((c # t) @ v) = 0" using Cons.prems by force
  moreover have "\<forall>i < length t. ws_len (drop i t @ v) = 0" using Cons.prems by force
  ultimately show ?case using Cons.IH [of "acc @ [c]"] by (simp add: split_ws_aux_char)
qed simp

lemma split_join:
  assumes "\<forall>t \<in> set ts. word t"
  shows "split_whitespace (join_space ts) = ts"
  using assms unfolding split_whitespace_def
proof (induction ts rule: join_space.induct)
  case (2 t)
  then have "split_ws_aux [] (t @ []) = split_ws_aux ([] @ t) []"
    using word_seam [of t _ "[]"] by (intro split_ws_aux_word) auto
  with 2 show ?case by (auto simp: flush_def word_def)
next
  case (3 t t' ts)
  let ?v = "CHR '' '' # join_space (t' # ts)"
  have "split_ws_aux [] (t @ ?v) = split_ws_aux ([] @ t) ?v"
    using 3 word_seam [of t _ ?v] by (intro split_ws_aux_word) auto
  also have "\<dots> = flush t @ split_ws_aux [] (join_space (t' # ts))"
    by (subst split_ws_aux_ws) simp_all
  finally show ?case using 3 by (auto simp: flush_def word_def)
qed simp

lemma ws_len_join: "\<forall>t \<in> set ts. word t \<Longrightarrow> ws_len (join_space ts) = 0"
proof (induction ts rule: join_space.induct)
  case (2 t)
  then show ?case by (auto simp: word_def)
next
  case (3 t t' ts)
  then have "ws_len (drop 0 t @ CHR '' '' # join_space (t' # ts)) = 0"
    by (intro word_seam) (auto simp: word_def)
  then show ?case by simp
qed simp

lemma ws_end_word: "word t \<Longrightarrow> ws_end t = 0"
proof (rule ccontr)
  assume t: "word t" and "ws_end t \<noteq> 0"
  then obtain u w where w: "t = u @ w" "w \<noteq> []" "ws_len w = length w"
    using ws_end_iff by blast
  then have "length u < length t" by simp
  with t have "ws_len (drop (length u) t) = 0" unfolding word_def by blast
  with w show False by simp
qed

lemma ws_end_append_word:
  assumes "word t"
  shows "ws_end (p @ CHR '' '' # t) = 0"
proof (rule ccontr)
  assume "ws_end (p @ CHR '' '' # t) \<noteq> 0"
  then obtain u w where w: "p @ CHR '' '' # t = u @ w" "w \<noteq> []" "ws_len w = length w"
    using ws_end_iff by blast
  show False
  proof (cases "length w \<le> length t")
    case True
    then have "w = drop (length t - length w) t"
      using arg_cong [OF w(1), of "\<lambda>x. drop (length x - length w) x"]
      by (simp add: Suc_diff_le)
    then have "t = take (length t - length w) t @ w" by (metis append_take_drop_id)
    then have "ws_end t \<noteq> 0" using w ws_end_iff [of t] by blast
    with assms show False by (simp add: ws_end_word)
  next
    case False
    define j where "j = length w - length t - 1"
    have j: "w ! j = CHR '' ''"
    proof -
      have "w = drop (length u) (p @ CHR '' '' # t)" using w by simp
      moreover have "length u + j = length p"
        using arg_cong [OF w(1), of length] False by (simp add: j_def)
      ultimately show ?thesis using False by (simp add: nth_drop nth_append j_def)
    qed
    have jl: "j < length w" using False by (simp add: j_def)
    have "j = 0" using w j jl ws_len_inside [of w j] by fastforce
    then have "ws_len w = 1" using j w(2) by (cases w) auto
    moreover have "word t" by (rule assms)
    ultimately show False using w False by (cases t) (auto simp: word_def)
  qed
qed

lemma ws_end_join: "\<forall>t \<in> set ts. word t \<Longrightarrow> ws_end (join_space ts) = 0"
proof (cases ts rule: rev_cases)
  case (snoc us t)
  assume ts: "\<forall>t \<in> set ts. word t"
  have "us \<noteq> [] \<Longrightarrow> join_space (us @ [t]) = join_space us @ CHR '' '' # t"
    by (induction us rule: join_space.induct) auto
  with ts snoc show ?thesis
    by (cases "us = []") (auto simp: ws_end_word ws_end_append_word)
qed (simp add: ws_end_def)

lemma trim_join: "\<forall>t \<in> set ts. word t \<Longrightarrow> trim (join_space ts) = join_space ts"
  by (simp add: trim_def trim_start_id ws_len_join trim_end_id ws_end_join)

section \<open>ASCII lower-casing\<close>

text \<open>\<open>to_ascii_lowercase\<close> maps \<open>A\<close>..\<open>Z\<close> and no other byte.\<close>

definition lower_char :: "char \<Rightarrow> char" where
  "lower_char c =
     (if CHR ''A'' \<le> c \<and> c \<le> CHR ''Z'' then char_of (of_char c + (32 :: nat)) else c)"

definition to_ascii_lowercase :: "string \<Rightarrow> string" where
  "to_ascii_lowercase s = map lower_char s"

lemma upper_iff: "CHR ''A'' \<le> c \<and> c \<le> CHR ''Z'' \<longleftrightarrow> 65 \<le> (of_char c :: nat) \<and> (of_char c :: nat) \<le> 90"
  by (simp add: less_eq_char_def)

lemma of_char_lower:
  "(of_char (lower_char c) :: nat) =
     (if 65 \<le> (of_char c :: nat) \<and> (of_char c :: nat) \<le> 90 then of_char c + 32 else of_char c)"
  by (auto simp: lower_char_def upper_iff)

lemma lower_char_eqI:
  assumes "(of_char d :: nat) \<notin> {65..90}" and "(of_char d :: nat) \<notin> {97..122}"
  shows "lower_char c = d \<longleftrightarrow> c = d"
proof
  assume "lower_char c = d"
  with assms show "c = d" by (auto simp: lower_char_def upper_iff)
next
  assume "c = d"
  with assms show "lower_char c = d" by (auto simp: lower_char_def upper_iff)
qed

lemma lower_char_idem [simp]: "lower_char (lower_char c) = lower_char c"
proof -
  have "(of_char (lower_char (lower_char c)) :: nat) = of_char (lower_char c)"
    by (simp add: of_char_lower)
  then show ?thesis by (simp add: of_char_eq_iff)
qed

lemma lower_idem [simp]: "to_ascii_lowercase (to_ascii_lowercase s) = to_ascii_lowercase s"
  by (simp add: to_ascii_lowercase_def)

lemma lower_append [simp]: "to_ascii_lowercase (s @ t) = to_ascii_lowercase s @ to_ascii_lowercase t"
  by (simp add: to_ascii_lowercase_def)

lemma lower_Nil [simp]: "to_ascii_lowercase [] = []"
  by (simp add: to_ascii_lowercase_def)

lemma lower_Cons [simp]: "to_ascii_lowercase (c # s) = lower_char c # to_ascii_lowercase s"
  by (simp add: to_ascii_lowercase_def)

lemma length_lower [simp]: "length (to_ascii_lowercase s) = length s"
  by (simp add: to_ascii_lowercase_def)

lemma lower_drop: "to_ascii_lowercase (drop n s) = drop n (to_ascii_lowercase s)"
  by (simp add: to_ascii_lowercase_def drop_map)

lemma lower_take: "to_ascii_lowercase (take n s) = take n (to_ascii_lowercase s)"
  by (simp add: to_ascii_lowercase_def take_map)

lemma lower_eq_Nil [simp]: "to_ascii_lowercase s = [] \<longleftrightarrow> s = []"
  by (simp add: to_ascii_lowercase_def)

lemma lower_space [simp]: "lower_char (CHR '' '') = CHR '' ''"
  by (simp add: lower_char_def upper_iff)

lemma ascii_ws_lower [simp]: "ascii_ws (lower_char c) = ascii_ws c"
  by (simp add: ascii_ws_def lower_char_eqI)

lemma ws2_lower [simp]: "ws2 (lower_char a) (lower_char b) = ws2 a b"
  by (simp add: ws2_def lower_char_eqI)

lemma ws3_lower [simp]: "ws3 (lower_char a) (lower_char b) (lower_char c) = ws3 a b c"
  by (simp add: ws3_def lower_char_eqI)

lemma ws_len_lower [simp]: "ws_len (to_ascii_lowercase s) = ws_len s"
  by (cases s) (auto simp: ws_len.simps(2) split: list.splits)

lemma word_lower: "word t \<Longrightarrow> word (to_ascii_lowercase t)"
  by (simp add: word_def lower_drop [symmetric])

lemma lower_join: "to_ascii_lowercase (join_space ts) = join_space (map to_ascii_lowercase ts)"
  by (induction ts rule: join_space.induct) auto

section \<open>Prefixes and searching\<close>

text \<open>\<open>str::strip_prefix\<close> of a text, \<open>str::find\<close> of an ASCII character, \<open>rsplit(c).next()\<close>\<close>

definition strip_prefix :: "string \<Rightarrow> string \<Rightarrow> string option" where
  "strip_prefix p s = (if take (length p) s = p then Some (drop (length p) s) else None)"

definition find_char :: "char \<Rightarrow> string \<Rightarrow> nat option" where
  "find_char c s = (if c \<in> set s then Some (length (takeWhile (\<lambda>d. d \<noteq> c) s)) else None)"

definition after_last :: "char \<Rightarrow> string \<Rightarrow> string" where
  "after_last c s = rev (takeWhile (\<lambda>d. d \<noteq> c) (rev s))"

definition is_ascii_digit :: "char \<Rightarrow> bool" where
  "is_ascii_digit c \<longleftrightarrow> CHR ''0'' \<le> c \<and> c \<le> CHR ''9''"

lemma strip_prefix_Some_iff: "strip_prefix p s = Some r \<longleftrightarrow> s = p @ r"
  by (auto simp: strip_prefix_def) (metis append_take_drop_id)

lemma find_char_split:
  assumes "find_char c s = Some i"
  shows "s = take i s @ c # drop (Suc i) s" and "c \<notin> set (take i s)" and "i < length s"
proof -
  define u where "u = takeWhile (\<lambda>d. d \<noteq> c) s"
  have c: "c \<in> set s" and i: "i = length u"
    using assms by (auto simp: find_char_def u_def split: if_splits)
  have "c \<notin> set u" unfolding u_def by (auto dest: set_takeWhileD)
  have ne: "dropWhile (\<lambda>d. d \<noteq> c) s \<noteq> []" using c by (simp add: dropWhile_eq_Nil_conv)
  then obtain d r where d: "dropWhile (\<lambda>d. d \<noteq> c) s = d # r" by (cases "dropWhile (\<lambda>d. d \<noteq> c) s") auto
  then have "d = c" using hd_dropWhile [OF ne] by simp
  with d have s: "s = u @ c # r" unfolding u_def by (metis takeWhile_dropWhile_id)
  with i \<open>c \<notin> set u\<close>
  show "s = take i s @ c # drop (Suc i) s" and "c \<notin> set (take i s)" and "i < length s"
    by auto
qed

lemma find_char_append:
  assumes "c \<notin> set u"
  shows "find_char c (u @ c # v) = Some (length u)"
proof -
  have "takeWhile (\<lambda>d. d \<noteq> c) (u @ c # v) = u" using assms by (induction u) auto
  then show ?thesis by (simp add: find_char_def)
qed

end
