(* ===== verification/Envelopes.thy ===== *)
theory Envelopes
  imports Crates Rust_Tokens
begin

text \<open>
  The signed envelope (src/src/envelope.rs): its contents, canonical signing bytes and message id,
  sealing and verification, wire form, and node-id parsing. The lemmas show that a sealed envelope
  verifies and names its signer, that the signing bytes determine every field (so no field can be
  changed without changing what is signed), and that the wire form round-trips.
\<close>

section \<open>Node ids\<close>

definition parse_node_id :: "('i, 'c) crates \<Rightarrow> string \<Rightarrow> node_id result" where
  "parse_node_id X hex_str =
     (case hex_decode X (trim hex_str) of
        None \<Rightarrow> Inl ''node id is not valid hex''
      | Some bs \<Rightarrow>
          (if length bs = 32 then Inr bs
           else Inl ''node id must be 32 bytes (64 hex chars)''))"

lemma parse_node_id_length: "parse_node_id X s = Inr n \<Longrightarrow> length n = 32"
  by (auto simp: parse_node_id_def split: option.splits if_splits)

lemma hex_digit_inert: "c \<in> set hex_digits \<Longrightarrow> inert c"
  by (auto simp: hex_digits_def inert_def ws_lead_def ws_cont_def ascii_ws_def)

lemma trim_hex: "set s \<subseteq> set hex_digits \<Longrightarrow> trim s = s"
proof (cases s rule: rev_cases)
  case (snoc p c)
  assume hex: "set s \<subseteq> set hex_digits"
  then have end0: "ws_end s = 0" using snoc by (simp add: hex_digit_inert inert_not_end)
  have "s \<noteq> []" using snoc by simp
  then obtain d q where "s = d # q" by (auto simp: neq_Nil_conv)
  with hex have "ws_len s = 0" using hex_digit_inert [of d] by (simp add: inert_def)
  with end0 show ?thesis by (simp add: trim_def trim_start_id trim_end_id)
qed simp

lemma parse_hex_encode:
  assumes "hex_ok X" and "length n = 32"
  shows "parse_node_id X (hex_encode X n) = Inr n"
proof -
  have "trim (hex_encode X n) = hex_encode X n"
    by (rule trim_hex) (use hex_okD(3) [OF assms(1)] in blast)
  with assms show ?thesis by (simp add: parse_node_id_def hex_okD(1))
qed

lemma parse_node_id_hex:
  assumes "hex_ok X" and "identity_ok X"
  shows "parse_node_id X (node_id_hex X i) = Inr (node_id_of X i)"
  using parse_hex_encode [OF assms(1)] identity_okD(1,2) [OF assms(2)] by metis

section \<open>Envelope contents\<close>

record EnvelopeBody =
  eb_from :: string
  eb_to :: string
  eb_subject :: string
  eb_body_cid :: string
  eb_attachment_cids :: "string list"
  eb_in_reply_to :: string
  eb_sent_at :: u64
  eb_postage_receipt :: string

type_synonym MessageId = string

text \<open>A byte-string literal \<open>b"..."\<close>.\<close>

definition byte_string :: "string \<Rightarrow> bytes" where
  "byte_string s = map of_char s"

definition ENVELOPE_DOMAIN :: bytes where
  "ENVELOPE_DOMAIN = byte_string ''ce-mail-envelope-v1''"

text \<open>The tuple that is signed, and its bincode bytes.\<close>

definition sv_signing :: "EnvelopeBody \<Rightarrow> sval" where
  "sv_signing e = VTup
     [VSeq (map VU8 ENVELOPE_DOMAIN), VStr (eb_from e), VStr (eb_to e), VStr (eb_subject e),
      VStr (eb_body_cid e), VSeq (map VStr (eb_attachment_cids e)), VStr (eb_in_reply_to e),
      VU64 (eb_sent_at e), VStr (eb_postage_receipt e)]"

definition envelope_signing_bytes :: "('i, 'c) crates \<Rightarrow> EnvelopeBody \<Rightarrow> bytes" where
  "envelope_signing_bytes X e = unwrap_or [] (bincode_serialize X (sv_signing e))"

definition message_id :: "('i, 'c) crates \<Rightarrow> EnvelopeBody \<Rightarrow> MessageId" where
  "message_id X e = hex_encode X (sha256 X (envelope_signing_bytes X e))"

section \<open>The envelope\<close>

record Envelope =
  en_body :: EnvelopeBody
  en_sig :: bytes

definition seal_envelope :: "('i, 'c) crates \<Rightarrow> 'i \<Rightarrow> EnvelopeBody \<Rightarrow> Envelope" where
  "seal_envelope X sender body =
     (let body = body\<lparr>eb_from := node_id_hex X sender\<rparr>;
          sig = sign_with X sender (envelope_signing_bytes X body)
      in \<lparr>en_body = body, en_sig = sig\<rparr>)"

definition verify_envelope :: "('i, 'c) crates \<Rightarrow> Envelope \<Rightarrow> unit result" where
  "verify_envelope X e =
     try_bind (parse_node_id X (eb_from (en_body e))) (\<lambda>from_id.
       if verify_sig X from_id (envelope_signing_bytes X (en_body e)) (en_sig e) then Inr ()
       else Inl ''envelope signature does not verify (forged or tampered)'')"

definition envelope_message_id :: "('i, 'c) crates \<Rightarrow> Envelope \<Rightarrow> MessageId" where
  "envelope_message_id X e = message_id X (en_body e)"

definition attachment_count :: "Envelope \<Rightarrow> nat" where
  "attachment_count e = length (eb_attachment_cids (en_body e))"

section \<open>Wire form\<close>

text \<open>The derived serde form of the body, and of the envelope with its signature module.\<close>

definition sv_body :: "EnvelopeBody \<Rightarrow> sval" where
  "sv_body e = VTup
     [VStr (eb_from e), VStr (eb_to e), VStr (eb_subject e), VStr (eb_body_cid e),
      VSeq (map VStr (eb_attachment_cids e)), VStr (eb_in_reply_to e), VU64 (eb_sent_at e),
      VStr (eb_postage_receipt e)]"

definition ty_body :: sty where
  "ty_body = TTup [TStr, TStr, TStr, TStr, TSeq TStr, TStr, TU64, TStr]"

fun un_body :: "sval \<Rightarrow> EnvelopeBody result" where
  "un_body (VTup [a, b, c, d, e, f, g, h]) =
     try_bind (un_str a) (\<lambda>a. try_bind (un_str b) (\<lambda>b. try_bind (un_str c) (\<lambda>c.
     try_bind (un_str d) (\<lambda>d. try_bind (un_seq un_str e) (\<lambda>e. try_bind (un_str f) (\<lambda>f.
     try_bind (un_u64 g) (\<lambda>g. try_bind (un_str h) (\<lambda>h.
       Inr \<lparr>eb_from = a, eb_to = b, eb_subject = c, eb_body_cid = d, eb_attachment_cids = e,
            eb_in_reply_to = f, eb_sent_at = g, eb_postage_receipt = h\<rparr>))))))))"
| "un_body _ = Inl type_error"

text \<open>The signature is written with \<open>serialize_bytes\<close> and read back as a \<open>Vec<u8>\<close> of 64 bytes.\<close>

definition sv_sig :: "bytes \<Rightarrow> sval" where
  "sv_sig sig = VBytes sig"

definition un_sig :: "sval \<Rightarrow> bytes result" where
  "un_sig v =
     try_bind (un_bytes v) (\<lambda>bs.
       if length bs = 64 then Inr bs else Inl ''expected 64 bytes for signature'')"

definition sv_envelope :: "Envelope \<Rightarrow> sval" where
  "sv_envelope e = VTup [sv_body (en_body e), sv_sig (en_sig e)]"

definition ty_envelope :: sty where
  "ty_envelope = TTup [ty_body, TSeq TU8]"

fun un_envelope :: "sval \<Rightarrow> Envelope result" where
  "un_envelope (VTup [b, s]) =
     try_bind (un_body b) (\<lambda>b. try_bind (un_sig s) (\<lambda>s. Inr \<lparr>en_body = b, en_sig = s\<rparr>))"
| "un_envelope _ = Inl type_error"

definition try_encode_envelope :: "('i, 'c) crates \<Rightarrow> Envelope \<Rightarrow> bytes result" where
  "try_encode_envelope X e =
     map_err (\<lambda>err. ''failed to encode envelope: '' @ err) (bincode_serialize X (sv_envelope e))"

definition encode_envelope :: "('i, 'c) crates \<Rightarrow> Envelope \<Rightarrow> bytes" where
  "encode_envelope X e = unwrap_or [] (try_encode_envelope X e)"

definition encoded_len :: "('i, 'c) crates \<Rightarrow> Envelope \<Rightarrow> nat" where
  "encoded_len X e = unwrap_or usize_max (bincode_size X (sv_envelope e))"

definition decode_envelope :: "('i, 'c) crates \<Rightarrow> bytes \<Rightarrow> Envelope result" where
  "decode_envelope X bs =
     map_err (\<lambda>err. ''malformed envelope: '' @ err) (from_bincode X ty_envelope un_envelope bs)"

text \<open>What Rust's types guarantee of an envelope: texts are valid, the signature has 64 bytes.\<close>

definition ok_body :: "EnvelopeBody \<Rightarrow> bool" where
  "ok_body e \<longleftrightarrow>
     rust_string (eb_from e) \<and> rust_string (eb_to e) \<and> rust_string (eb_subject e) \<and>
     rust_string (eb_body_cid e) \<and> list_all rust_string (eb_attachment_cids e) \<and>
     length (eb_attachment_cids e) < usize_limit \<and> rust_string (eb_in_reply_to e) \<and>
     rust_string (eb_postage_receipt e)"

definition ok_envelope :: "Envelope \<Rightarrow> bool" where
  "ok_envelope e \<longleftrightarrow> ok_body (en_body e) \<and> length (en_sig e) = 64"

section \<open>Instances of the serde contract\<close>

lemma un_all_str: "un_all un_str (map VStr xs) = Inr xs"
  by (rule un_all_map) simp

lemma fits_strs: "list_all is_VStr (map VStr xs) = list_all rust_string xs"
  by (simp add: list_all_iff)

lemma map_canon_VStr [simp]: "map (canon \<circ> VStr) xs = map VStr xs"
  by simp

lemma map_canon_VU8 [simp]: "map (canon \<circ> VU8) xs = map VU8 xs"
  by simp

interpretation body_serde: serde_type sv_body ty_body un_body ok_body
  by unfold_locales (auto simp: sv_body_def ty_body_def ok_body_def fits_strs un_all_str)

interpretation envelope_serde: serde_type sv_envelope ty_envelope un_envelope ok_envelope
proof
  fix e
  assume "ok_envelope e"
  then have b: "ok_body (en_body e)" and s: "length (en_sig e) = 64"
    by (simp_all add: ok_envelope_def)
  show "fits ty_envelope (canon (sv_envelope e))"
    using body_serde.fits_sv [OF b] s
    by (simp add: ty_envelope_def sv_envelope_def sv_sig_def usize_limit_def)
  show "un_envelope (canon (sv_envelope e)) = Inr e"
    using body_serde.un_sv [OF b] s by (simp add: sv_envelope_def sv_sig_def un_sig_def)
qed

text \<open>The signed tuple, read back for the sake of injectivity.\<close>

fun un_signing :: "sval \<Rightarrow> EnvelopeBody result" where
  "un_signing (VTup (d # vs)) = un_body (VTup vs)"
| "un_signing _ = Inl type_error"

definition ty_signing :: sty where
  "ty_signing = TTup [TSeq TU8, TStr, TStr, TStr, TStr, TSeq TStr, TStr, TU64, TStr]"

interpretation signing_serde: serde_type sv_signing ty_signing un_signing ok_body
  by unfold_locales
    (auto simp: sv_signing_def ty_signing_def ok_body_def fits_strs un_all_str ENVELOPE_DOMAIN_def
      byte_string_def usize_limit_def)

section \<open>Properties of sealing and verifying\<close>

lemma verify_envelope_iff:
  "verify_envelope X e = Inr () \<longleftrightarrow>
     (\<exists>k. parse_node_id X (eb_from (en_body e)) = Inr k \<and>
          verify_sig X k (envelope_signing_bytes X (en_body e)) (en_sig e))"
  by (auto simp: verify_envelope_def split: if_splits)

lemma verify_envelope_ok: "is_ok (verify_envelope X e) \<longleftrightarrow> verify_envelope X e = Inr ()"
  by (auto simp: is_ok_iff)

lemma seal_envelope_from: "eb_from (en_body (seal_envelope X i b)) = node_id_hex X i"
  by (simp add: seal_envelope_def Let_def)

lemma seal_envelope_verifies:
  assumes "hex_ok X" and "identity_ok X"
  shows "verify_envelope X (seal_envelope X i b) = Inr ()"
  using parse_node_id_hex [OF assms] identity_okD(4) [OF assms(2)]
  by (simp add: verify_envelope_def seal_envelope_def Let_def)

lemma node_hex_digits:
  assumes "identity_ok X" and "hex_ok X"
  shows "set (node_id_hex X i) \<subseteq> set hex_digits" and "length (node_id_hex X i) = 64"
  using identity_okD(1,2) [OF assms(1), of i] hex_okD(2,3) [OF assms(2)] by (auto simp del: set_simps)

lemma node_hex_rust_string:
  assumes "identity_ok X" and "hex_ok X"
  shows "rust_string (node_id_hex X i)"
  using node_hex_digits [OF assms, of i]
  by (intro rust_string_ascii) (auto simp: hex_digits_def usize_limit_def dest!: subsetD)

lemma seal_envelope_ok:
  assumes "identity_ok X" and "hex_ok X" and "ok_body b"
  shows "ok_envelope (seal_envelope X i b)"
  using assms identity_okD(3) [OF assms(1)] node_hex_rust_string [OF assms(1,2)]
  by (simp add: ok_envelope_def seal_envelope_def Let_def ok_body_def)

text \<open>Two well-formed bodies with the same signing bytes are the same body.\<close>

lemma signing_bytes_injective:
  assumes "bincode_ok X" and "ok_body a" and "ok_body b"
    and "envelope_signing_bytes X a = envelope_signing_bytes X b"
  shows "a = b"
  by (rule signing_serde.serde_injective [OF assms(1-3)])
     (use assms(4) in \<open>simp only: envelope_signing_bytes_def\<close>)

lemma encode_decode_envelope:
  assumes "bincode_ok X" and "ok_envelope e"
  shows "decode_envelope X (encode_envelope X e) = Inr e"
proof -
  have "encode_envelope X e = unwrap_or [] (bincode_serialize X (sv_envelope e))"
    by (cases "bincode_serialize X (sv_envelope e)") (simp_all add: encode_envelope_def try_encode_envelope_def)
  then show ?thesis
    using envelope_serde.serde_decode [OF assms] by (simp add: decode_envelope_def)
qed

end
