(* ===== verification/Receipts.thy ===== *)
theory Receipts
  imports Envelopes
begin

text \<open>
  Signed delivery and read receipts (src/src/receipt.rs): issue, verify, the de-duplication key and
  the wire form. The lemmas show that an issued receipt verifies and names its issuer, that the
  signed bytes determine the receipt, that the key identifies \<open>(message_id, kind, by)\<close> for every
  receipt that verifies, and that the wire form round-trips.
\<close>

section \<open>Receipts\<close>

datatype ReceiptKind = KDelivered | KRead

fun kind_tag :: "ReceiptKind \<Rightarrow> u8" where
  "kind_tag KDelivered = 1"
| "kind_tag KRead = 2"

record ReceiptBody =
  rb_message_id :: MessageId
  rb_by :: string
  rb_kind :: ReceiptKind
  rb_at :: u64

record Receipt =
  rc_body :: ReceiptBody
  rc_sig :: bytes

definition RECEIPT_DOMAIN :: bytes where
  "RECEIPT_DOMAIN = byte_string ''ce-mail-receipt-v1''"

definition sv_receipt_signing :: "ReceiptBody \<Rightarrow> sval" where
  "sv_receipt_signing b = VTup
     [VSeq (map VU8 RECEIPT_DOMAIN), VStr (rb_message_id b), VStr (rb_by b),
      VU8 (kind_tag (rb_kind b)), VU64 (rb_at b)]"

definition receipt_signing_bytes :: "('i, 'c) crates \<Rightarrow> ReceiptBody \<Rightarrow> bytes" where
  "receipt_signing_bytes X b = unwrap_or [] (bincode_serialize X (sv_receipt_signing b))"

definition issue_receipt :: "('i, 'c) crates \<Rightarrow> 'i \<Rightarrow> string \<Rightarrow> ReceiptKind \<Rightarrow> u64 \<Rightarrow> Receipt" where
  "issue_receipt X recipient mid kind at_secs =
     (let body = \<lparr>rb_message_id = mid, rb_by = node_id_hex X recipient, rb_kind = kind, rb_at = at_secs\<rparr>;
          sig = sign_with X recipient (receipt_signing_bytes X body)
      in \<lparr>rc_body = body, rc_sig = sig\<rparr>)"

definition verify_receipt :: "('i, 'c) crates \<Rightarrow> Receipt \<Rightarrow> unit result" where
  "verify_receipt X r =
     try_bind (parse_node_id X (rb_by (rc_body r))) (\<lambda>by_id.
       if verify_sig X by_id (receipt_signing_bytes X (rc_body r)) (rc_sig r) then Inr ()
       else Inl ''receipt signature does not verify (forged or tampered)'')"

definition dedup_key :: "Receipt \<Rightarrow> string" where
  "dedup_key r =
     rb_message_id (rc_body r) @ '':'' @ show_nat (unat (kind_tag (rb_kind (rc_body r)))) @ '':'' @
     rb_by (rc_body r)"

definition by_node :: "('i, 'c) crates \<Rightarrow> Receipt \<Rightarrow> node_id result" where
  "by_node X r = parse_node_id X (rb_by (rc_body r))"

section \<open>Wire form\<close>

fun sv_kind :: "ReceiptKind \<Rightarrow> sval" where
  "sv_kind KDelivered = VEnum 0 []"
| "sv_kind KRead = VEnum 1 []"

fun un_kind :: "sval \<Rightarrow> ReceiptKind result" where
  "un_kind (VEnum i []) =
     (if i = 0 then Inr KDelivered else if i = 1 then Inr KRead else Inl type_error)"
| "un_kind _ = Inl type_error"

definition sv_receipt :: "Receipt \<Rightarrow> sval" where
  "sv_receipt r = VTup
     [VTup [VStr (rb_message_id (rc_body r)), VStr (rb_by (rc_body r)), sv_kind (rb_kind (rc_body r)),
            VU64 (rb_at (rc_body r))],
      sv_sig (rc_sig r)]"

definition ty_receipt :: sty where
  "ty_receipt = TTup [TTup [TStr, TStr, TEnum [[], []], TU64], TSeq TU8]"

fun un_receipt :: "sval \<Rightarrow> Receipt result" where
  "un_receipt (VTup [VTup [a, b, c, d], s]) =
     try_bind (un_str a) (\<lambda>a. try_bind (un_str b) (\<lambda>b. try_bind (un_kind c) (\<lambda>c.
     try_bind (un_u64 d) (\<lambda>d. try_bind (un_sig s) (\<lambda>s.
       Inr \<lparr>rc_body = \<lparr>rb_message_id = a, rb_by = b, rb_kind = c, rb_at = d\<rparr>, rc_sig = s\<rparr>)))))"
| "un_receipt _ = Inl type_error"

definition encode_receipt :: "('i, 'c) crates \<Rightarrow> Receipt \<Rightarrow> bytes" where
  "encode_receipt X r = unwrap_or [] (bincode_serialize X (sv_receipt r))"

definition decode_receipt :: "('i, 'c) crates \<Rightarrow> bytes \<Rightarrow> Receipt result" where
  "decode_receipt X bs =
     map_err (\<lambda>err. ''malformed receipt: '' @ err) (from_bincode X ty_receipt un_receipt bs)"

definition ok_receipt_body :: "ReceiptBody \<Rightarrow> bool" where
  "ok_receipt_body b \<longleftrightarrow> rust_string (rb_message_id b) \<and> rust_string (rb_by b)"

definition ok_receipt :: "Receipt \<Rightarrow> bool" where
  "ok_receipt r \<longleftrightarrow> ok_receipt_body (rc_body r) \<and> length (rc_sig r) = 64"

lemma un_sv_kind [simp]: "un_kind (canon (sv_kind k)) = Inr k"
  by (cases k) auto

lemma fits_sv_kind [simp]: "is_VEnum [[], []] (canon (sv_kind k))"
  by (cases k) auto

interpretation receipt_serde: serde_type sv_receipt ty_receipt un_receipt ok_receipt
  by unfold_locales
    (auto simp: sv_receipt_def ty_receipt_def ok_receipt_def ok_receipt_body_def sv_sig_def un_sig_def
      usize_limit_def)

text \<open>The signed tuple, read back for the sake of injectivity.\<close>

fun un_receipt_signing :: "sval \<Rightarrow> ReceiptBody result" where
  "un_receipt_signing (VTup [d, a, b, c, e]) =
     try_bind (un_str a) (\<lambda>a. try_bind (un_str b) (\<lambda>b. try_bind (un_u8 c) (\<lambda>c.
     try_bind (un_u64 e) (\<lambda>e.
       Inr \<lparr>rb_message_id = a, rb_by = b, rb_kind = (if c = 1 then KDelivered else KRead), rb_at = e\<rparr>))))"
| "un_receipt_signing _ = Inl type_error"

definition ty_receipt_signing :: sty where
  "ty_receipt_signing = TTup [TSeq TU8, TStr, TStr, TU8, TU64]"

lemma kind_of_tag [simp]: "(if kind_tag k = 1 then KDelivered else KRead) = k"
  by (cases k) auto

interpretation receipt_signing_serde:
  serde_type sv_receipt_signing ty_receipt_signing un_receipt_signing ok_receipt_body
  by unfold_locales
    (auto simp: sv_receipt_signing_def ty_receipt_signing_def ok_receipt_body_def RECEIPT_DOMAIN_def
      byte_string_def usize_limit_def simp del: kind_tag.simps)

section \<open>Properties\<close>

lemma verify_receipt_iff:
  "verify_receipt X r = Inr () \<longleftrightarrow>
     (\<exists>k. parse_node_id X (rb_by (rc_body r)) = Inr k \<and>
          verify_sig X k (receipt_signing_bytes X (rc_body r)) (rc_sig r))"
  by (auto simp: verify_receipt_def split: if_splits)

lemma issue_receipt_by: "rb_by (rc_body (issue_receipt X i m k t)) = node_id_hex X i"
  by (simp add: issue_receipt_def Let_def)

lemma issue_receipt_verifies:
  assumes "hex_ok X" and "identity_ok X"
  shows "verify_receipt X (issue_receipt X i m k t) = Inr ()"
  using parse_node_id_hex [OF assms] identity_okD(4) [OF assms(2)]
  by (simp add: verify_receipt_def issue_receipt_def Let_def)

lemma receipt_signing_injective:
  assumes "bincode_ok X" and "ok_receipt_body a" and "ok_receipt_body b"
    and "receipt_signing_bytes X a = receipt_signing_bytes X b"
  shows "a = b"
  by (rule receipt_signing_serde.serde_injective [OF assms(1-3)])
     (use assms(4) in \<open>simp only: receipt_signing_bytes_def\<close>)

lemma encode_decode_receipt:
  assumes "bincode_ok X" and "ok_receipt r"
  shows "decode_receipt X (encode_receipt X r) = Inr r"
  using receipt_serde.serde_decode [OF assms]
  by (simp add: decode_receipt_def encode_receipt_def)

text \<open>
  The key's parts can be read off as long as \<open>by\<close> holds no colon, and a \<open>by\<close> that parses as a
  node id holds none: hex decoding accepts hexadecimal digits only.
\<close>

definition hex_strict :: "('i, 'c) crates \<Rightarrow> bool" where
  "hex_strict X \<longleftrightarrow> (\<forall>s bs. hex_decode X s = Some bs \<longrightarrow> CHR '':'' \<notin> set s)"

lemma kind_text: "show_nat (unat (kind_tag k)) = (case k of KDelivered \<Rightarrow> ''1'' | KRead \<Rightarrow> ''2'')"
  by (cases k) (simp_all add: show_nat_small digit_chars)

lemma last_colon_unique:
  assumes "u @ CHR '':'' # v = u' @ CHR '':'' # v'" and "CHR '':'' \<notin> set v" and "CHR '':'' \<notin> set v'"
  shows "u = u' \<and> v = v'"
proof -
  have "rev v @ CHR '':'' # rev u = rev v' @ CHR '':'' # rev u'"
    using arg_cong [OF assms(1), of rev] by simp
  then have "takeWhile (\<lambda>c. c \<noteq> CHR '':'') (rev v @ CHR '':'' # rev u) =
      takeWhile (\<lambda>c. c \<noteq> CHR '':'') (rev v' @ CHR '':'' # rev u')" by simp
  moreover have "takeWhile (\<lambda>c. c \<noteq> CHR '':'') (rev x) = rev x" if "CHR '':'' \<notin> set x" for x
    using that by (auto simp: takeWhile_eq_all_conv)
  ultimately have "rev v = rev v'" using assms(2,3) by (simp add: takeWhile_tail)
  with assms(1) show ?thesis by simp
qed

lemma dedup_key_injective:
  assumes "dedup_key r = dedup_key s"
    and "CHR '':'' \<notin> set (rb_by (rc_body r))" and "CHR '':'' \<notin> set (rb_by (rc_body s))"
  shows "rb_message_id (rc_body r) = rb_message_id (rc_body s) \<and>
    rb_kind (rc_body r) = rb_kind (rc_body s) \<and> rb_by (rc_body r) = rb_by (rc_body s)"
proof -
  let ?h = "\<lambda>r. rb_message_id (rc_body r) @ '':'' @ show_nat (unat (kind_tag (rb_kind (rc_body r))))"
  have "?h r @ CHR '':'' # rb_by (rc_body r) = ?h s @ CHR '':'' # rb_by (rc_body s)"
    using assms(1) by (simp add: dedup_key_def)
  from last_colon_unique [OF this assms(2,3)]
  have head: "?h r = ?h s" and by_eq: "rb_by (rc_body r) = rb_by (rc_body s)" by auto
  from head have "rb_message_id (rc_body r) @ CHR '':'' # show_nat (unat (kind_tag (rb_kind (rc_body r)))) =
      rb_message_id (rc_body s) @ CHR '':'' # show_nat (unat (kind_tag (rb_kind (rc_body s))))"
    by simp
  from last_colon_unique [OF this]
  have "rb_message_id (rc_body r) = rb_message_id (rc_body s)"
    and "show_nat (unat (kind_tag (rb_kind (rc_body r)))) = show_nat (unat (kind_tag (rb_kind (rc_body s))))"
    by (auto simp: kind_text split: ReceiptKind.splits)
  with by_eq show ?thesis
    by (auto simp: kind_text split: ReceiptKind.splits)
qed

lemma verified_by_no_colon:
  assumes "hex_strict X" and "verify_receipt X r = Inr ()"
  shows "CHR '':'' \<notin> set (rb_by (rc_body r))"
proof
  assume "CHR '':'' \<in> set (rb_by (rc_body r))"
  then have "CHR '':'' \<in> set (trim (rb_by (rc_body r)))"
    by (rule inert_trim [rotated]) (simp add: inert_def ws_lead_def ws_cont_def ascii_ws_def)
  moreover obtain bs where "hex_decode X (trim (rb_by (rc_body r))) = Some bs"
    using assms(2) by (auto simp: verify_receipt_iff parse_node_id_def split: option.splits)
  ultimately show False using assms(1) unfolding hex_strict_def by blast
qed

end
