(* ===== verification/Bounded_Queue.thy ===== *)
theory Bounded_Queue
  imports Mail_Prelude
begin

text \<open>
  The interface behind both tables of the mailbox store: a queue of bounded length whose entries
  carry an identifier, with an index of the identifiers already stored. The locales state the
  contract of storing an entry (\<open>dedup_queue\<close>), of acknowledging a prefix (\<open>acked_queue\<close>) and of
  collecting everything (\<open>collected_queue\<close>); the lemmas, proved once from the contract, are the
  invariant, idempotence and the retention of the most recent entries. \<open>page_source\<close> is the contract
  of a paginated read and of the loop that reads page after page.
\<close>

section \<open>Keeping the last entries\<close>

definition keep_last :: "nat \<Rightarrow> 'a list \<Rightarrow> 'a list" where
  "keep_last n xs = drop (length xs - n) xs"

lemma length_keep_last: "length (keep_last n xs) \<le> n"
  by (simp add: keep_last_def)

lemma keep_last_all: "length xs \<le> n \<Longrightarrow> keep_last n xs = xs"
  by (simp add: keep_last_def)

lemma set_keep_last: "set (keep_last n xs) \<subseteq> set xs"
  by (simp add: keep_last_def set_drop_subset)

lemma distinct_keep_last: "distinct (map f xs) \<Longrightarrow> distinct (map f (keep_last n xs))"
  by (simp add: keep_last_def distinct_map_drop)

lemma keep_last_append: "keep_last n (keep_last n xs @ ys) = keep_last n (xs @ ys)"
proof (cases "length xs \<le> n")
  case False
  then have "length ys + (length xs - n) = length xs + length ys - n" by simp
  with False show ?thesis by (simp add: keep_last_def)
qed (simp add: keep_last_all)

lemma keep_last_snoc: "1 \<le> n \<Longrightarrow> x \<in> set (keep_last n (xs @ [x]))"
  by (simp add: keep_last_def)

section \<open>Storing\<close>

locale dedup_queue =
  fixes items :: "'s \<Rightarrow> 'x list"
    and known :: "'s \<Rightarrow> string set"
    and ident :: "'x \<Rightarrow> string"
    and cap :: "'s \<Rightarrow> nat"
    and push :: "'x \<Rightarrow> 's \<Rightarrow> 's"
  assumes push_dup: "ident x \<in> known s \<Longrightarrow> items (push x s) = items s \<and> known (push x s) = known s"
    and push_items: "ident x \<notin> known s \<Longrightarrow> items (push x s) = keep_last (cap s) (items s @ [x])"
    and push_known: "ident x \<notin> known s \<Longrightarrow>
      known (push x s) =
        insert (ident x) (known s) - ident ` set (take (Suc (length (items s)) - cap s) (items s @ [x]))"
    and push_cap: "cap (push x s) = cap s"
begin

text \<open>What every operation keeps: no duplicates, everything stored is known, the bound.\<close>

definition queue_inv :: "'s \<Rightarrow> bool" where
  "queue_inv s \<longleftrightarrow>
     1 \<le> cap s \<and> distinct (map ident (items s)) \<and> ident ` set (items s) \<subseteq> known s \<and>
     length (items s) \<le> cap s"

text \<open>The index holds nothing but what is stored, so it is as bounded as the queue.\<close>

definition exact_index :: "'s \<Rightarrow> bool" where
  "exact_index s \<longleftrightarrow> known s = ident ` set (items s)"

lemma push_fresh_distinct:
  assumes "queue_inv s" and "ident x \<notin> known s"
  shows "distinct (map ident (items s @ [x]))"
  using assms by (auto simp: queue_inv_def)

lemma push_queue_inv:
  assumes inv: "queue_inv s"
  shows "queue_inv (push x s)"
proof (cases "ident x \<in> known s")
  case True
  with inv show ?thesis by (simp add: queue_inv_def push_dup push_cap)
next
  case False
  note dist = push_fresh_distinct [OF inv False]
  have "ident ` set (keep_last (cap s) (items s @ [x])) \<subseteq> known (push x s)"
    using inv False map_drop_set_diff [OF dist, of "Suc (length (items s)) - cap s"]
    by (auto simp: keep_last_def push_known queue_inv_def)
  with inv False dist show ?thesis
    by (simp add: queue_inv_def push_items push_cap length_keep_last distinct_keep_last del: map_append)
qed

lemma push_exact:
  assumes inv: "queue_inv s" and ex: "exact_index s"
  shows "exact_index (push x s)"
proof (cases "ident x \<in> known s")
  case True
  with ex show ?thesis by (simp add: exact_index_def push_dup)
next
  case False
  note dist = push_fresh_distinct [OF inv False]
  show ?thesis
    using ex False map_drop_set_diff [OF dist, of "Suc (length (items s)) - cap s"]
    by (simp add: exact_index_def push_items push_known keep_last_def)
qed

lemma push_stores_newest: "queue_inv s \<Longrightarrow> ident x \<notin> known s \<Longrightarrow> x \<in> set (items (push x s))"
  by (simp add: push_items queue_inv_def keep_last_snoc)

lemma push_then_known: "queue_inv s \<Longrightarrow> ident x \<in> known (push x s)"
  using push_stores_newest [of s x] push_queue_inv [of s x] push_dup [of x s]
  by (cases "ident x \<in> known s") (auto simp: queue_inv_def)

text \<open>Storing the same entry again changes nothing.\<close>

lemma push_idempotent:
  assumes "queue_inv s" and "ident y = ident x"
  shows "items (push y (push x s)) = items (push x s)"
  using push_dup [of y "push x s"] push_then_known [OF assms(1), of x] assms(2) by simp

lemma exact_bounded:
  assumes "queue_inv s" and "exact_index s"
  shows "card (known s) = length (items s)" and "card (known s) \<le> cap s"
  using assms distinct_card [of "map ident (items s)"] by (simp_all add: queue_inv_def exact_index_def)

text \<open>Storing many entries, none known before and no two alike, keeps the most recent ones in order.\<close>

lemma push_all_items:
  assumes "queue_inv s" and "distinct (map ident xs)" and "ident ` set xs \<inter> known s = {}"
  shows "items (fold push xs s) = keep_last (cap s) (items s @ xs)"
  using assms
proof (induction xs arbitrary: s)
  case Nil
  then show ?case by (simp add: keep_last_all queue_inv_def)
next
  case (Cons x xs)
  have new: "ident x \<notin> known s" and rest: "ident x \<notin> ident ` set xs" "ident ` set xs \<inter> known s = {}"
    using Cons.prems(2,3) by auto
  have "known (push x s) \<subseteq> insert (ident x) (known s)"
    using push_known [OF new] by (simp only: Diff_subset)
  then have "ident ` set xs \<inter> known (push x s) \<subseteq> ident ` set xs \<inter> insert (ident x) (known s)"
    by (rule Int_mono [OF subset_refl])
  with rest have disjoint: "ident ` set xs \<inter> known (push x s) = {}" by simp
  have "items (fold push xs (push x s)) = keep_last (cap s) (keep_last (cap s) (items s @ [x]) @ xs)"
    using Cons.IH [OF push_queue_inv [OF Cons.prems(1)] _ disjoint] Cons.prems(2) new
    by (simp add: push_cap push_items)
  then show ?case by (simp add: keep_last_append)
qed

lemma push_all_inv: "queue_inv s \<Longrightarrow> queue_inv (fold push xs s)"
  by (induction xs arbitrary: s) (auto simp: push_queue_inv)

end

section \<open>Acknowledging a prefix\<close>

locale acked_queue = dedup_queue items known ident cap push
  for items :: "'s \<Rightarrow> 'x list" and known :: "'s \<Rightarrow> string set" and ident :: "'x \<Rightarrow> string"
    and cap :: "'s \<Rightarrow> nat" and push :: "'x \<Rightarrow> 's \<Rightarrow> 's" +
  fixes ack :: "nat \<Rightarrow> 's \<Rightarrow> 's"
  assumes ack_items: "items (ack n s) = drop n (items s)"
    and ack_known: "known (ack n s) = known s"
    and ack_cap: "cap (ack n s) = cap s"
begin

lemma ack_queue_inv: "queue_inv s \<Longrightarrow> queue_inv (ack n s)"
  using set_drop_subset [of n "items s"]
  by (auto simp: queue_inv_def ack_items ack_known ack_cap distinct_map_drop)

text \<open>An acknowledged entry stays known: storing it again is refused as a duplicate.\<close>

lemma acked_stays_known:
  assumes "queue_inv s" and "x \<in> set (items s)"
  shows "items (push x (ack n s)) = items (ack n s)"
  using push_dup [of x "ack n s"] assms by (auto simp: queue_inv_def ack_known)

text \<open>
  The other side of it: acknowledging frees the queue but never the index. A recipient that
  acknowledges every entry as it comes has an empty queue and an index of everything it ever got.
\<close>

lemma deliver_ack_rounds:
  assumes "1 \<le> cap s" and "items s = []"
    and "distinct (map ident xs)" and "ident ` set xs \<inter> known s = {}"
  shows "items (fold (\<lambda>x s. ack 1 (push x s)) xs s) = [] \<and>
    known (fold (\<lambda>x s. ack 1 (push x s)) xs s) = known s \<union> ident ` set xs"
  using assms
proof (induction xs arbitrary: s)
  case (Cons x xs)
  have fresh: "ident x \<notin> known s" using Cons.prems by auto
  let ?t = "ack 1 (push x s)"
  have "items ?t = []"
    using fresh Cons.prems by (simp add: ack_items push_items keep_last_def)
  moreover have known: "known ?t = insert (ident x) (known s)"
    using fresh Cons.prems by (simp add: ack_known push_known)
  moreover have "1 \<le> cap ?t" using Cons.prems by (simp add: ack_cap push_cap)
  moreover have "ident ` set xs \<inter> known ?t = {}" using Cons.prems known by auto
  ultimately show ?case using Cons.IH [of ?t] Cons.prems by auto
qed simp

end

section \<open>Collecting everything\<close>

locale collected_queue = dedup_queue items known ident cap push
  for items :: "'s \<Rightarrow> 'x list" and known :: "'s \<Rightarrow> string set" and ident :: "'x \<Rightarrow> string"
    and cap :: "'s \<Rightarrow> nat" and push :: "'x \<Rightarrow> 's \<Rightarrow> 's" +
  fixes collect :: "'s \<Rightarrow> 's"
  assumes collect_items: "items (collect s) = []"
    and collect_known: "known (collect s) = {}"
    and collect_cap: "cap (collect s) = cap s"
begin

lemma collect_queue_inv: "queue_inv s \<Longrightarrow> queue_inv (collect s)"
  by (simp add: queue_inv_def collect_items collect_known collect_cap)

lemma collect_exact: "exact_index (collect s)"
  by (simp add: exact_index_def collect_items collect_known)

lemma collected_again:
  assumes "1 \<le> cap s"
  shows "items (push x (collect s)) = [x]"
  using push_items [of x "collect s"] assms
  by (simp add: collect_items collect_known collect_cap keep_last_def)

end

section \<open>Reading page by page\<close>

text \<open>
  The loop a client runs: read a page at the cursor, continue at the cursor returned while more is
  announced. Each page spends one unit of fuel; \<open>None\<close> is running out.
\<close>

fun read_pages :: "nat \<Rightarrow> (nat \<Rightarrow> ('x list \<times> nat \<times> bool) outcome) \<Rightarrow> nat \<Rightarrow> 'x list outcome option" where
  "read_pages 0 page cursor = None"
| "read_pages (Suc fuel) page cursor =
     (case page cursor of
        Panicked \<Rightarrow> Some Panicked
      | Returned (xs, next_cursor, more) \<Rightarrow>
          (if more then map_option (map_outcome_to (\<lambda>rest. xs @ rest)) (read_pages fuel page next_cursor)
           else Some (Returned xs)))"

locale page_source =
  fixes page :: "nat \<Rightarrow> ('x list \<times> nat \<times> bool) outcome"
    and contents :: "'x list"
    and step :: nat
  assumes step_pos: "1 \<le> step"
    and page_inside: "c < length contents \<Longrightarrow> c + step < usize_limit \<Longrightarrow>
      page c = Returned (take step (drop c contents), min (c + step) (length contents),
                         c + step < length contents)"
    and page_outside: "length contents \<le> c \<Longrightarrow> page c = Returned ([], length contents, False)"
begin

lemma read_pages_complete:
  assumes "length contents - c < fuel" and "length contents + step \<le> usize_limit"
  shows "read_pages fuel page c = Some (Returned (drop c contents))"
  using assms
proof (induction fuel arbitrary: c)
  case (Suc fuel)
  show ?case
  proof (cases "c + step < length contents")
    case True
    have "length contents - (c + step) < fuel" using Suc.prems True step_pos by linarith
    then have "read_pages fuel page (c + step) = Some (Returned (drop (c + step) contents))"
      using Suc.prems(2) by (rule Suc.IH)
    moreover have "take step (drop c contents) @ drop (c + step) contents = drop c contents"
      by (metis append_take_drop_id drop_drop add.commute)
    ultimately show ?thesis using True Suc.prems(2) by (simp add: page_inside)
  next
    case False
    then show ?thesis
      using Suc.prems(2) by (cases "c < length contents") (simp_all add: page_inside page_outside)
  qed
qed simp

end

end
