(* ===== verification/Mailbox.thy ===== *)
theory Mailbox
  imports Receipts Bounded_Queue
begin

text \<open>
  The mailbox store (src/src/mailbox.rs): per-recipient queues of envelopes and per-sender queues of
  receipts, each with the index of what it has stored, the capability check, the cursor reads,
  acknowledgement, and the persisted form with its legacy format. Both tables are instances of the
  queue contracts of \<open>Bounded_Queue\<close>; the lemmas give the store's invariant and that every
  operation keeps it, what each operation does to every recipient's queue, and the persistence round
  trip.
\<close>

section \<open>State\<close>

definition ABILITY_ACCEPT :: string where
  "ABILITY_ACCEPT = ''mail:accept''"

record StoredEnvelope =
  se_envelope :: Envelope
  se_stored_at :: u64

record MailboxStore =
  mb_self_id :: node_id
  mb_queues :: "(string, StoredEnvelope list) fmap"
  mb_seen :: "(string, string set) fmap"
  mb_receipts :: "(string, Receipt list) fmap"
  mb_receipts_seen :: "(string, string set) fmap"
  mb_capacity :: nat

datatype Accepted = Stored | Duplicate

definition new_store :: "node_id \<Rightarrow> nat \<Rightarrow> MailboxStore" where
  "new_store self_id capacity_per_recipient =
     \<lparr>mb_self_id = self_id, mb_queues = fmempty, mb_seen = fmempty, mb_receipts = fmempty,
      mb_receipts_seen = fmempty, mb_capacity = max capacity_per_recipient 1\<rparr>"

text \<open>The id of a stored envelope, the queue of a recipient and the two indexes.\<close>

definition stored_id :: "('i, 'c) crates \<Rightarrow> StoredEnvelope \<Rightarrow> string" where
  "stored_id X s = envelope_message_id X (se_envelope s)"

abbreviation queue_of :: "string \<Rightarrow> MailboxStore \<Rightarrow> StoredEnvelope list" where
  "queue_of r s \<equiv> fm_get [] (mb_queues s) r"

abbreviation seen_of :: "string \<Rightarrow> MailboxStore \<Rightarrow> string set" where
  "seen_of r s \<equiv> fm_get {} (mb_seen s) r"

abbreviation receipts_of :: "string \<Rightarrow> MailboxStore \<Rightarrow> Receipt list" where
  "receipts_of r s \<equiv> fm_get [] (mb_receipts s) r"

abbreviation receipt_keys_of :: "string \<Rightarrow> MailboxStore \<Rightarrow> string set" where
  "receipt_keys_of r s \<equiv> fm_get {} (mb_receipts_seen s) r"

section \<open>Operations\<close>

definition check_accept_grant ::
  "('i, 'c) crates \<Rightarrow> MailboxStore \<Rightarrow> node_id \<Rightarrow> 'c list \<Rightarrow> u64 \<Rightarrow> (node_id \<Rightarrow> u64 \<Rightarrow> bool) \<Rightarrow> unit result" where
  "check_accept_grant X s recipient chain now is_revoked =
     map_err (\<lambda>e. ''mailbox not authorized to accept mail for recipient: '' @ e)
       (authorize X recipient [recipient] now (mb_self_id s) ABILITY_ACCEPT chain is_revoked)"

text \<open>
  The second half of \<open>accept\<close>: the index lookup, the push, and the eviction of the oldest entries
  together with their ids.
\<close>

definition store_envelope ::
  "('i, 'c) crates \<Rightarrow> string \<Rightarrow> StoredEnvelope \<Rightarrow> MailboxStore \<Rightarrow> Accepted \<times> MailboxStore" where
  "store_envelope X to stored s =
     (let mid = stored_id X stored; seen = seen_of to s in
      if mid \<in> seen then (Duplicate, s\<lparr>mb_seen := fmupd to seen (mb_seen s)\<rparr>)
      else
        let s = s\<lparr>mb_seen := fmupd to (insert mid seen) (mb_seen s)\<rparr>;
            q = queue_of to s @ [stored]
        in
        if length q > mb_capacity s then
          let overflow = length q - mb_capacity s;
              evicted = map (stored_id X) (take overflow q);
              s = s\<lparr>mb_queues := fmupd to (drop overflow q) (mb_queues s)\<rparr>
          in (Stored,
              case fmlookup (mb_seen s) to of
                Some ids \<Rightarrow> s\<lparr>mb_seen := fmupd to (fold (\<lambda>k ids. ids - {k}) evicted ids) (mb_seen s)\<rparr>
              | None \<Rightarrow> s)
        else (Stored, s\<lparr>mb_queues := fmupd to q (mb_queues s)\<rparr>))"

definition accept ::
  "('i, 'c) crates \<Rightarrow> Envelope \<Rightarrow> u64 \<Rightarrow> MailboxStore \<Rightarrow> Accepted result \<times> MailboxStore" where
  "accept X envelope now s =
     (case verify_envelope X envelope of
        Inl e \<Rightarrow> (Inl (''refusing to store unverifiable envelope: '' @ e), s)
      | Inr _ \<Rightarrow>
          let to = eb_to (en_body envelope) in
          if to = [] then (Inl ''envelope has no recipient'', s)
          else
            let (outcome, s') =
              store_envelope X to \<lparr>se_envelope = envelope, se_stored_at = now\<rparr> s
            in (Inr outcome, s'))"

definition pending_count :: "string \<Rightarrow> MailboxStore \<Rightarrow> nat" where
  "pending_count recipient_hex s =
     (case fmlookup (mb_queues s) recipient_hex of Some q \<Rightarrow> length q | None \<Rightarrow> 0)"

definition read_from :: "string \<Rightarrow> nat \<Rightarrow> MailboxStore \<Rightarrow> StoredEnvelope list \<times> nat" where
  "read_from recipient_hex since s =
     (case fmlookup (mb_queues s) recipient_hex of
        Some q \<Rightarrow> (if since < length q then (drop since q, length q) else ([], length q))
      | None \<Rightarrow> ([], 0))"

text \<open>
  \<open>since + limit\<close> past \<open>usize::MAX\<close> panics: the addition does with overflow checks, and without
  them the wrapped end lies before \<open>since\<close> and slicing does.
\<close>

definition read_page ::
  "string \<Rightarrow> nat \<Rightarrow> nat \<Rightarrow> MailboxStore \<Rightarrow> (StoredEnvelope list \<times> nat \<times> bool) outcome" where
  "read_page recipient_hex since limit s =
     (let limit = max limit 1 in
      case fmlookup (mb_queues s) recipient_hex of
        Some q \<Rightarrow>
          (if since < length q then
             if since + limit \<ge> usize_limit then Panicked
             else
               let upto = min (since + limit) (length q);
                   page = take (upto - since) (drop since q);
                   more = upto < length q
               in Returned (page, upto, more)
           else Returned ([], length q, False))
      | None \<Rightarrow> Returned ([], 0, False))"

definition store_receipt :: "string \<Rightarrow> Receipt \<Rightarrow> MailboxStore \<Rightarrow> Accepted \<times> MailboxStore" where
  "store_receipt sender receipt s =
     (let key = dedup_key receipt; seen = receipt_keys_of sender s in
      if key \<in> seen then (Duplicate, s\<lparr>mb_receipts_seen := fmupd sender seen (mb_receipts_seen s)\<rparr>)
      else
        let s = s\<lparr>mb_receipts_seen := fmupd sender (insert key seen) (mb_receipts_seen s)\<rparr>;
            q = receipts_of sender s @ [receipt]
        in
        if length q > mb_capacity s then
          let overflow = length q - mb_capacity s;
              evicted = map dedup_key (take overflow q);
              s = s\<lparr>mb_receipts := fmupd sender (drop overflow q) (mb_receipts s)\<rparr>
          in (Stored,
              case fmlookup (mb_receipts_seen s) sender of
                Some ks \<Rightarrow>
                  s\<lparr>mb_receipts_seen := fmupd sender (fold (\<lambda>k ks. ks - {k}) evicted ks) (mb_receipts_seen s)\<rparr>
              | None \<Rightarrow> s)
        else (Stored, s\<lparr>mb_receipts := fmupd sender q (mb_receipts s)\<rparr>))"

definition put_receipt ::
  "('i, 'c) crates \<Rightarrow> string \<Rightarrow> Receipt \<Rightarrow> MailboxStore \<Rightarrow> Accepted result \<times> MailboxStore" where
  "put_receipt X for_sender_hex receipt s =
     (case verify_receipt X receipt of
        Inl e \<Rightarrow> (Inl (''refusing to store unverifiable receipt: '' @ e), s)
      | Inr _ \<Rightarrow>
          if for_sender_hex = [] then (Inl ''receipt has no target sender'', s)
          else
            let (outcome, s') = store_receipt for_sender_hex receipt s
            in (Inr outcome, s'))"

definition receipt_count :: "string \<Rightarrow> MailboxStore \<Rightarrow> nat" where
  "receipt_count sender_hex s =
     (case fmlookup (mb_receipts s) sender_hex of Some q \<Rightarrow> length q | None \<Rightarrow> 0)"

definition collect_receipts :: "string \<Rightarrow> MailboxStore \<Rightarrow> Receipt list \<times> MailboxStore" where
  "collect_receipts sender_hex s =
     (receipts_of sender_hex s,
      s\<lparr>mb_receipts_seen := fmdrop sender_hex (mb_receipts_seen s),
        mb_receipts := fmdrop sender_hex (mb_receipts s)\<rparr>)"

definition ack :: "string \<Rightarrow> nat \<Rightarrow> MailboxStore \<Rightarrow> nat \<times> MailboxStore" where
  "ack recipient_hex up_to_cursor s =
     (case fmlookup (mb_queues s) recipient_hex of
        Some q \<Rightarrow>
          let n = min up_to_cursor (length q)
          in (n, s\<lparr>mb_queues := fmupd recipient_hex (drop n q) (mb_queues s)\<rparr>)
      | None \<Rightarrow> (0, s))"

section \<open>Both tables as bounded queues\<close>

abbreviation push_envelope :: "('i, 'c) crates \<Rightarrow> string \<Rightarrow> StoredEnvelope \<Rightarrow> MailboxStore \<Rightarrow> MailboxStore" where
  "push_envelope X r x s \<equiv> snd (store_envelope X r x s)"

abbreviation push_receipt :: "string \<Rightarrow> Receipt \<Rightarrow> MailboxStore \<Rightarrow> MailboxStore" where
  "push_receipt r x s \<equiv> snd (store_receipt r x s)"

lemma keep_last_unfold: "keep_last n xs = (if n < length xs then drop (length xs - n) xs else xs)"
  by (simp add: keep_last_def)

lemma fold_remove_ids: "fold (\<lambda>k ids. ids - {k}) (map f xs) ids = ids - f ` set xs"
  by (simp add: fold_remove_set)

interpretation inbox: acked_queue "queue_of r" "seen_of r" "stored_id X" mb_capacity
  "push_envelope X r" "\<lambda>n s. snd (ack r n s)" for X :: "('i, 'c) crates" and r :: string
  by unfold_locales
    (auto simp: store_envelope_def ack_def Let_def keep_last_unfold fold_remove_ids fm_get_def
      min_def split: option.splits)

interpretation receipt_box: collected_queue "receipts_of r" "receipt_keys_of r" dedup_key mb_capacity
  "push_receipt r" "\<lambda>s. snd (collect_receipts r s)" for r :: string
  by unfold_locales
    (auto simp: store_receipt_def collect_receipts_def Let_def keep_last_unfold fold_remove_ids fm_get_def
      split: option.splits)

interpretation inbox_pages: page_source "\<lambda>c. read_page r c limit s" "queue_of r s" "max limit 1"
  for r :: string and limit :: nat and s :: MailboxStore
  by unfold_locales (auto simp: read_page_def Let_def fm_get_def min_def split: option.splits)

abbreviation inbox_inv :: "('i, 'c) crates \<Rightarrow> string \<Rightarrow> MailboxStore \<Rightarrow> bool" where
  "inbox_inv X r \<equiv> dedup_queue.queue_inv (queue_of r) (seen_of r) (stored_id X) mb_capacity"

abbreviation receipts_inv :: "string \<Rightarrow> MailboxStore \<Rightarrow> bool" where
  "receipts_inv r \<equiv> dedup_queue.queue_inv (receipts_of r) (receipt_keys_of r) dedup_key mb_capacity"

abbreviation receipts_exact :: "string \<Rightarrow> MailboxStore \<Rightarrow> bool" where
  "receipts_exact r \<equiv> dedup_queue.exact_index (receipts_of r) (receipt_keys_of r) dedup_key"

lemma stored_eta [simp]: "\<lparr>se_envelope = se_envelope x, se_stored_at = se_stored_at x\<rparr> = x"
  by (cases x) simp

text \<open>A page in terms of the recipient's queue.\<close>

lemma read_page_result:
  "read_page r c limit s =
     (if c < length (queue_of r s) then
        if usize_limit \<le> c + max limit 1 then Panicked
        else Returned (take (max limit 1) (drop c (queue_of r s)),
                       min (c + max limit 1) (length (queue_of r s)),
                       c + max limit 1 < length (queue_of r s))
      else Returned ([], length (queue_of r s), False))"
  by (auto simp: read_page_def Let_def fm_get_def min_def split: option.splits)

section \<open>What an operation leaves alone\<close>

text \<open>The components of the store a push may change are those of its own recipient.\<close>

lemma store_envelope_frame:
  "r' \<noteq> r \<Longrightarrow> queue_of r' (push_envelope X r x s) = queue_of r' s"
  "r' \<noteq> r \<Longrightarrow> seen_of r' (push_envelope X r x s) = seen_of r' s"
  "mb_receipts (push_envelope X r x s) = mb_receipts s"
  "mb_receipts_seen (push_envelope X r x s) = mb_receipts_seen s"
  "mb_self_id (push_envelope X r x s) = mb_self_id s"
  by (auto simp: store_envelope_def Let_def split: option.splits)

lemma store_receipt_frame:
  "r' \<noteq> r \<Longrightarrow> receipts_of r' (push_receipt r x s) = receipts_of r' s"
  "r' \<noteq> r \<Longrightarrow> receipt_keys_of r' (push_receipt r x s) = receipt_keys_of r' s"
  "mb_queues (push_receipt r x s) = mb_queues s"
  "mb_seen (push_receipt r x s) = mb_seen s"
  "mb_self_id (push_receipt r x s) = mb_self_id s"
  by (auto simp: store_receipt_def Let_def split: option.splits)

lemma ack_frame:
  "r' \<noteq> r \<Longrightarrow> queue_of r' (snd (ack r n s)) = queue_of r' s"
  "mb_seen (snd (ack r n s)) = mb_seen s"
  "mb_receipts (snd (ack r n s)) = mb_receipts s"
  "mb_receipts_seen (snd (ack r n s)) = mb_receipts_seen s"
  "mb_self_id (snd (ack r n s)) = mb_self_id s"
  by (auto simp: ack_def Let_def split: option.splits)

lemma ack_count: "fst (ack r n s) = min n (length (queue_of r s))"
  by (auto simp: ack_def Let_def fm_get_def split: option.splits)

lemma collect_frame:
  "r' \<noteq> r \<Longrightarrow> receipts_of r' (snd (collect_receipts r s)) = receipts_of r' s"
  "r' \<noteq> r \<Longrightarrow> receipt_keys_of r' (snd (collect_receipts r s)) = receipt_keys_of r' s"
  "mb_queues (snd (collect_receipts r s)) = mb_queues s"
  "mb_seen (snd (collect_receipts r s)) = mb_seen s"
  "mb_self_id (snd (collect_receipts r s)) = mb_self_id s"
  by (auto simp: collect_receipts_def)

lemmas mailbox_frames = store_envelope_frame store_receipt_frame ack_frame collect_frame

text \<open>The three ways \<open>accept\<close> ends; the fourth, a duplicate, is a push that changes no queue.\<close>

lemma accept_cases:
  "accept X e now s =
     (if verify_envelope X e \<noteq> Inr () then
        (Inl (''refusing to store unverifiable envelope: '' @ projl (verify_envelope X e)), s)
      else if eb_to (en_body e) = [] then (Inl ''envelope has no recipient'', s)
      else map_prod Inr id
             (store_envelope X (eb_to (en_body e)) \<lparr>se_envelope = e, se_stored_at = now\<rparr> s))"
  by (auto simp: accept_def Let_def split: sum.splits prod.splits)

lemma put_receipt_cases:
  "put_receipt X sender r s =
     (if verify_receipt X r \<noteq> Inr () then
        (Inl (''refusing to store unverifiable receipt: '' @ projl (verify_receipt X r)), s)
      else if sender = [] then (Inl ''receipt has no target sender'', s)
      else map_prod Inr id (store_receipt sender r s))"
  by (auto simp: put_receipt_def Let_def split: sum.splits prod.splits)

lemma store_envelope_outcome:
  "fst (store_envelope X r x s) = (if stored_id X x \<in> seen_of r s then Duplicate else Stored)"
  by (auto simp: store_envelope_def Let_def split: option.splits)

lemma store_receipt_outcome:
  "fst (store_receipt r x s) = (if dedup_key x \<in> receipt_keys_of r s then Duplicate else Stored)"
  by (auto simp: store_receipt_def Let_def split: option.splits)

section \<open>The invariant of the store\<close>

text \<open>
  Per recipient: no id twice, everything stored is in the index, the capacity bound, and every
  envelope is authentic and addressed to the queue it lies in. Per sender the same of receipts,
  whose index is exact.
\<close>

definition inbox_ok :: "('i, 'c) crates \<Rightarrow> MailboxStore \<Rightarrow> string \<Rightarrow> bool" where
  "inbox_ok X s r \<longleftrightarrow>
     distinct (map (stored_id X) (queue_of r s)) \<and>
     stored_id X ` set (queue_of r s) \<subseteq> seen_of r s \<and>
     length (queue_of r s) \<le> mb_capacity s \<and>
     (\<forall>x \<in> set (queue_of r s).
        verify_envelope X (se_envelope x) = Inr () \<and> eb_to (en_body (se_envelope x)) = r \<and> r \<noteq> [])"

definition receipt_box_ok :: "('i, 'c) crates \<Rightarrow> MailboxStore \<Rightarrow> string \<Rightarrow> bool" where
  "receipt_box_ok X s r \<longleftrightarrow>
     distinct (map dedup_key (receipts_of r s)) \<and>
     receipt_keys_of r s = dedup_key ` set (receipts_of r s) \<and>
     length (receipts_of r s) \<le> mb_capacity s \<and>
     (\<forall>x \<in> set (receipts_of r s). verify_receipt X x = Inr () \<and> r \<noteq> [])"

definition mailbox_ok :: "('i, 'c) crates \<Rightarrow> MailboxStore \<Rightarrow> bool" where
  "mailbox_ok X s \<longleftrightarrow>
     1 \<le> mb_capacity s \<and> (\<forall>r. inbox_ok X s r) \<and> (\<forall>r. receipt_box_ok X s r)"

lemma mailbox_okD:
  assumes "mailbox_ok X s"
  shows "1 \<le> mb_capacity s" and "inbox_ok X s r" and "receipt_box_ok X s r"
  using assms by (simp_all add: mailbox_ok_def)

lemma mailbox_ok_queue_inv:
  assumes "mailbox_ok X s"
  shows "inbox_inv X r s" and "receipts_inv r s" and "receipts_exact r s"
  using mailbox_okD(2,3) [OF assms, where r = r] mailbox_okD(1) [OF assms]
  by (simp_all add: inbox.queue_inv_def receipt_box.queue_inv_def receipt_box.exact_index_def
      inbox_ok_def receipt_box_ok_def)

text \<open>Every queue keeps what it had and gains at most the new entry.\<close>

lemma push_envelope_set:
  "set (queue_of r' (push_envelope X r x s)) \<subseteq>
     set (queue_of r' s) \<union> (if r' = r then {x} else {})"
proof (cases "r' = r \<and> stored_id X x \<notin> seen_of r s")
  case True
  then show ?thesis
    using set_keep_last [of "mb_capacity s" "queue_of r s @ [x]"] by (simp add: inbox.push_items)
next
  case False
  then show ?thesis using store_envelope_frame(1) [where r' = r' and r = r and X = X] inbox.push_dup [where r = r and X = X and x = x and s = s] by auto
qed

lemma push_receipt_set:
  "set (receipts_of r' (push_receipt r x s)) \<subseteq>
     set (receipts_of r' s) \<union> (if r' = r then {x} else {})"
proof (cases "r' = r \<and> dedup_key x \<notin> receipt_keys_of r s")
  case True
  then show ?thesis
    using set_keep_last [of "mb_capacity s" "receipts_of r s @ [x]"] by (simp add: receipt_box.push_items)
next
  case False
  then show ?thesis using store_receipt_frame(1) [where r' = r' and r = r] receipt_box.push_dup [where r = r and x = x and s = s] by auto
qed

lemma new_store_ok: "mailbox_ok X (new_store self_id cap)"
  by (simp add: mailbox_ok_def inbox_ok_def receipt_box_ok_def new_store_def)

lemma push_envelope_ok:
  assumes inv: "mailbox_ok X s" and x: "verify_envelope X (se_envelope x) = Inr ()"
    and r: "eb_to (en_body (se_envelope x)) = r" "r \<noteq> []"
  shows "mailbox_ok X (push_envelope X r x s)"
proof -
  let ?t = "push_envelope X r x s"
  have "inbox_ok X ?t r'" for r'
  proof (cases "r' = r")
    case True
    have "inbox_inv X r ?t" by (rule inbox.push_queue_inv [OF mailbox_ok_queue_inv(1) [OF inv]])
    with True mailbox_okD(2) [OF inv, where r = r] x r push_envelope_set [where r' = r and r = r and X = X and x = x and s = s]
    show ?thesis unfolding inbox_ok_def inbox.queue_inv_def by auto
  next
    case False
    with mailbox_okD(2) [OF inv, where r = r'] show ?thesis
      by (simp add: inbox_ok_def store_envelope_frame inbox.push_cap)
  qed
  moreover have "receipt_box_ok X ?t r'" for r'
    using mailbox_okD(3) [OF inv, where r = r'] by (simp add: receipt_box_ok_def store_envelope_frame inbox.push_cap)
  ultimately show ?thesis using mailbox_okD(1) [OF inv] by (simp add: mailbox_ok_def inbox.push_cap)
qed

lemma push_receipt_ok:
  assumes inv: "mailbox_ok X s" and x: "verify_receipt X x = Inr ()" and r: "r \<noteq> []"
  shows "mailbox_ok X (push_receipt r x s)"
proof -
  let ?t = "push_receipt r x s"
  have "receipt_box_ok X ?t r'" for r'
  proof (cases "r' = r")
    case True
    note i = mailbox_ok_queue_inv(2,3) [OF inv, where r = r]
    have "receipts_inv r ?t" "receipts_exact r ?t"
      by (rule receipt_box.push_queue_inv [OF i(1)]) (rule receipt_box.push_exact [OF i])
    with True mailbox_okD(3) [OF inv, where r = r] x r push_receipt_set [where r' = r and r = r and x = x and s = s]
    show ?thesis unfolding receipt_box_ok_def receipt_box.queue_inv_def receipt_box.exact_index_def by auto
  next
    case False
    with mailbox_okD(3) [OF inv, where r = r'] show ?thesis
      by (simp add: receipt_box_ok_def store_receipt_frame receipt_box.push_cap)
  qed
  moreover have "inbox_ok X ?t r'" for r'
    using mailbox_okD(2) [OF inv, where r = r'] by (simp add: inbox_ok_def store_receipt_frame receipt_box.push_cap)
  ultimately show ?thesis using mailbox_okD(1) [OF inv] by (simp add: mailbox_ok_def receipt_box.push_cap)
qed

lemma accept_ok: "mailbox_ok X s \<Longrightarrow> mailbox_ok X (snd (accept X e now s))"
  by (auto simp: accept_cases intro: push_envelope_ok)

lemma put_receipt_ok: "mailbox_ok X s \<Longrightarrow> mailbox_ok X (snd (put_receipt X sender r s))"
  by (auto simp: put_receipt_cases intro: push_receipt_ok)

lemma ack_ok:
  assumes inv: "mailbox_ok X s"
  shows "mailbox_ok X (snd (ack r n s))"
proof -
  have "inbox_ok X (snd (ack r n s)) r'" for r'
  proof (cases "r' = r")
    case True
    then show ?thesis
      using mailbox_okD(2) [OF inv, where r = r] set_drop_subset [of n "queue_of r s"]
      by (auto simp: inbox_ok_def inbox.ack_items inbox.ack_known inbox.ack_cap distinct_map_drop)
  next
    case False
    with mailbox_okD(2) [OF inv, where r = r'] show ?thesis
      by (simp add: inbox_ok_def ack_frame inbox.ack_cap)
  qed
  moreover have "receipt_box_ok X (snd (ack r n s)) r'" for r'
    using mailbox_okD(3) [OF inv, where r = r'] by (simp add: receipt_box_ok_def ack_frame inbox.ack_cap)
  ultimately show ?thesis using mailbox_okD(1) [OF inv] by (simp add: mailbox_ok_def inbox.ack_cap)
qed

lemma collect_ok:
  assumes inv: "mailbox_ok X s"
  shows "mailbox_ok X (snd (collect_receipts r s))"
proof -
  have "receipt_box_ok X (snd (collect_receipts r s)) r'" for r'
    using mailbox_okD(3) [OF inv, where r = r'] by (simp add: receipt_box_ok_def collect_receipts_def)
  moreover have "inbox_ok X (snd (collect_receipts r s)) r'" for r'
    using mailbox_okD(2) [OF inv, where r = r'] by (simp add: inbox_ok_def collect_receipts_def)
  ultimately show ?thesis using mailbox_okD(1) [OF inv]
    by (simp add: mailbox_ok_def receipt_box.collect_cap)
qed

lemmas mailbox_ok_intros = new_store_ok accept_ok put_receipt_ok ack_ok collect_ok

end
