(* ===== verification/Mailbox_Format.thy ===== *)
theory Mailbox_Format
  imports Mailbox
begin

text \<open>
  The persisted form of the mailbox store (src/src/mailbox.rs, \<open>try_to_bytes\<close>, \<open>from_bytes\<close>,
  \<open>rebuild\<close>): the magic-tagged tuple, the legacy three-field form, and the reconstruction of the
  de-duplication indexes. The order in which a \<open>HashMap\<close> is serialized is a parameter: any function
  that lists a map's entries. The lemmas give the round trip of both formats and the invariant of a
  loaded store.
\<close>

section \<open>Serialized forms\<close>

definition STORE_MAGIC :: u32 where
  "STORE_MAGIC = 0x43454d32"

definition sv_stored :: "StoredEnvelope \<Rightarrow> sval" where
  "sv_stored s = VTup [sv_envelope (se_envelope s), VU64 (se_stored_at s)]"

definition ty_stored :: sty where
  "ty_stored = TTup [ty_envelope, TU64]"

fun un_stored :: "sval \<Rightarrow> StoredEnvelope result" where
  "un_stored (VTup [e, t]) =
     try_bind (un_envelope e) (\<lambda>e. try_bind (un_u64 t) (\<lambda>t. Inr \<lparr>se_envelope = e, se_stored_at = t\<rparr>))"
| "un_stored _ = Inl type_error"

definition ok_stored :: "StoredEnvelope \<Rightarrow> bool" where
  "ok_stored s \<longleftrightarrow> ok_envelope (se_envelope s)"

interpretation stored_serde: serde_type sv_stored ty_stored un_stored ok_stored
  by unfold_locales
    (auto simp: sv_stored_def ty_stored_def ok_stored_def envelope_serde.fits_sv envelope_serde.un_sv)

text \<open>A table: text keys, each with a list of entries, written in the order the iteration gives.\<close>

definition sv_table :: "('x \<Rightarrow> sval) \<Rightarrow> (string \<times> 'x list) list \<Rightarrow> sval" where
  "sv_table f es = VMap (map (map_prod VStr (\<lambda>xs. VSeq (map f xs))) es)"

definition ty_table :: "sty \<Rightarrow> sty" where
  "ty_table t = TMap TStr (TSeq t)"

definition un_table :: "(sval \<Rightarrow> 'x result) \<Rightarrow> sval \<Rightarrow> (string, 'x list) fmap result" where
  "un_table g = un_map un_str (un_seq g)"

definition ok_table :: "('x \<Rightarrow> bool) \<Rightarrow> (string \<times> 'x list) list \<Rightarrow> bool" where
  "ok_table p es \<longleftrightarrow>
     length es < usize_limit \<and>
     list_all (\<lambda>(k, xs). rust_string k \<and> length xs < usize_limit \<and> list_all p xs) es"

lemma table_fits:
  assumes "\<And>x. p x \<Longrightarrow> fits t (canon (f x))" and "ok_table p es"
  shows "fits (ty_table t) (canon (sv_table f es))"
proof -
  have "rust_string k \<and> length xs < usize_limit \<and> (\<forall>x \<in> set xs. fits t (canon (f x)))"
    if "(k, xs) \<in> set es" for k xs
    using that assms by (auto simp: ok_table_def list_all_iff)
  then show ?thesis
    using assms(2) by (auto simp: ty_table_def sv_table_def ok_table_def list_all_iff)
qed

lemma table_un:
  assumes f: "\<And>x. p x \<Longrightarrow> g (canon (f x)) = Inr x" and ok: "ok_table p es" and it: "is_iteration m es"
  shows "un_table g (canon (sv_table f es)) = Inr m"
proof -
  have "un_entries un_str (un_seq g)
      (map (map_prod (canon \<circ> VStr) (canon \<circ> (\<lambda>xs. VSeq (map f xs)))) es) = Inr es"
  proof (rule un_entries_map, rule ballI)
    fix e
    assume "e \<in> set es"
    then have "list_all p (snd e)" using ok by (auto simp: ok_table_def list_all_iff)
    then have "un_all g (map (canon \<circ> f) (snd e)) = Inr (snd e)"
      by (intro un_all_map) (auto simp: list_all_iff f)
    then show "un_str ((canon \<circ> VStr) (fst e)) = Inr (fst e) \<and>
        un_seq g ((canon \<circ> (\<lambda>xs. VSeq (map f xs))) (snd e)) = Inr (snd e)"
      by simp
  qed
  then show ?thesis
    by (simp add: un_table_def sv_table_def map_prod.comp fold_fmupd_iteration [OF it])
qed

section \<open>Store and legacy store\<close>

type_synonym queue_table = "(string, StoredEnvelope list) fmap"
type_synonym receipt_table = "(string, Receipt list) fmap"
type_synonym 'x table_order = "(string, 'x list) fmap \<Rightarrow> (string \<times> 'x list) list"

text \<open>The tuples of the two formats.\<close>

type_synonym store_parts = "u32 \<times> node_id \<times> queue_table \<times> nat \<times> receipt_table"
type_synonym legacy_parts = "node_id \<times> queue_table \<times> nat"

fun sv_parts :: "StoredEnvelope table_order \<Rightarrow> Receipt table_order \<Rightarrow> store_parts \<Rightarrow> sval" where
  "sv_parts oq ors (magic, self_id, qs, cap, rs) =
     VTup [VU32 magic, VTup (map VU8 self_id), sv_table sv_stored (oq qs), sv_usize cap,
           sv_table sv_receipt (ors rs)]"

definition ty_node_id :: sty where
  "ty_node_id = TTup (replicate 32 TU8)"

definition ty_parts :: sty where
  "ty_parts = TTup [TU32, ty_node_id, ty_table ty_stored, TU64, ty_table ty_receipt]"

fun un_parts :: "sval \<Rightarrow> store_parts result" where
  "un_parts (VTup [m, i, q, c, r]) =
     try_bind (un_u32 m) (\<lambda>m. try_bind (un_array 32 i) (\<lambda>i. try_bind (un_table un_stored q) (\<lambda>q.
     try_bind (un_usize c) (\<lambda>c. try_bind (un_table un_receipt r) (\<lambda>r. Inr (m, i, q, c, r))))))"
| "un_parts _ = Inl type_error"

fun sv_legacy :: "StoredEnvelope table_order \<Rightarrow> legacy_parts \<Rightarrow> sval" where
  "sv_legacy oq (self_id, qs, cap) =
     VTup [VTup (map VU8 self_id), sv_table sv_stored (oq qs), sv_usize cap]"

definition ty_legacy :: sty where
  "ty_legacy = TTup [ty_node_id, ty_table ty_stored, TU64]"

fun un_legacy :: "sval \<Rightarrow> legacy_parts result" where
  "un_legacy (VTup [i, q, c]) =
     try_bind (un_array 32 i) (\<lambda>i. try_bind (un_table un_stored q) (\<lambda>q.
     try_bind (un_usize c) (\<lambda>c. Inr (i, q, c))))"
| "un_legacy _ = Inl type_error"

fun ok_legacy :: "StoredEnvelope table_order \<Rightarrow> legacy_parts \<Rightarrow> bool" where
  "ok_legacy oq (self_id, qs, cap) \<longleftrightarrow>
     length self_id = 32 \<and> is_iteration qs (oq qs) \<and> ok_table ok_stored (oq qs) \<and> cap < usize_limit"

fun ok_parts :: "StoredEnvelope table_order \<Rightarrow> Receipt table_order \<Rightarrow> store_parts \<Rightarrow> bool" where
  "ok_parts oq ors (magic, self_id, qs, cap, rs) \<longleftrightarrow>
     ok_legacy oq (self_id, qs, cap) \<and> is_iteration rs (ors rs) \<and> ok_table ok_receipt (ors rs)"

lemma fits_node_id: "length bs = 32 \<Longrightarrow> fits ty_node_id (VTup (map VU8 bs))"
  by (simp add: ty_node_id_def list_all2_conv_all_nth)

lemma un_array_node_id: "length bs = 32 \<Longrightarrow> un_array 32 (VTup (map VU8 bs)) = Inr bs"
  by simp

lemmas table_parts =
  table_fits [where p = ok_stored and t = ty_stored and f = sv_stored, OF stored_serde.fits_sv]
  table_fits [where p = ok_receipt and t = ty_receipt and f = sv_receipt, OF receipt_serde.fits_sv]
  table_un [where p = ok_stored and g = un_stored and f = sv_stored, OF stored_serde.un_sv]
  table_un [where p = ok_receipt and g = un_receipt and f = sv_receipt, OF receipt_serde.un_sv]
  fits_node_id un_array_node_id

interpretation legacy_serde: serde_type "sv_legacy oq" ty_legacy un_legacy "ok_legacy oq"
  for oq :: "StoredEnvelope table_order"
proof
  fix a
  assume ok: "ok_legacy oq a"
  obtain i qs c where a: "a = (i, qs, c)" by (cases a)
  from ok a show "fits ty_legacy (canon (sv_legacy oq a))" and "un_legacy (canon (sv_legacy oq a)) = Inr a"
    by (simp_all add: ty_legacy_def table_parts del: un_array.simps)
qed

interpretation parts_serde: serde_type "sv_parts oq ors" ty_parts un_parts "ok_parts oq ors"
  for oq :: "StoredEnvelope table_order" and ors :: "Receipt table_order"
proof
  fix a
  assume ok: "ok_parts oq ors a"
  obtain m i qs c rs where a: "a = (m, i, qs, c, rs)" by (cases a)
  from ok a show "fits ty_parts (canon (sv_parts oq ors a))" and "un_parts (canon (sv_parts oq ors a)) = Inr a"
    by (simp_all add: ty_parts_def table_parts del: un_array.simps)
qed

section \<open>Saving and loading\<close>

definition try_to_bytes ::
  "('i, 'c) crates \<Rightarrow> StoredEnvelope table_order \<Rightarrow> Receipt table_order \<Rightarrow> MailboxStore \<Rightarrow> bytes result" where
  "try_to_bytes X oq ors s =
     map_err (\<lambda>e. ''failed to serialize mailbox store: '' @ e)
       (bincode_serialize X
          (sv_parts oq ors (STORE_MAGIC, mb_self_id s, mb_queues s, mb_capacity s, mb_receipts s)))"

definition to_bytes ::
  "('i, 'c) crates \<Rightarrow> StoredEnvelope table_order \<Rightarrow> Receipt table_order \<Rightarrow> MailboxStore \<Rightarrow> bytes" where
  "to_bytes X oq ors s = unwrap_or [] (try_to_bytes X oq ors s)"

text \<open>
  The indexes \<open>rebuild\<close> fills: one set per key of the table, with the ids of the entries stored under
  it. \<open>rebuild_index\<close> is the loop over an iteration of the table; \<open>rebuild\<close> states its result, which
  no iteration order changes (\<open>rebuild_index_iteration\<close> below).
\<close>

definition rebuild_index :: "('x \<Rightarrow> string) \<Rightarrow> (string \<times> 'x list) list \<Rightarrow> (string, string set) fmap" where
  "rebuild_index key es =
     fold (\<lambda>(k, q) seen. fmupd k (fold (\<lambda>x ids. insert (key x) ids) q (fm_get {} seen k)) seen) es fmempty"

definition rebuild ::
  "('i, 'c) crates \<Rightarrow> node_id \<Rightarrow> queue_table \<Rightarrow> nat \<Rightarrow> receipt_table \<Rightarrow> MailboxStore" where
  "rebuild X self_id queues capacity receipts =
     \<lparr>mb_self_id = self_id,
      mb_queues = queues,
      mb_seen = fmmap (\<lambda>q. set (map (stored_id X) q)) queues,
      mb_receipts = receipts,
      mb_receipts_seen = fmmap (\<lambda>q. set (map dedup_key q)) receipts,
      mb_capacity = max capacity 1\<rparr>"

definition from_bytes :: "('i, 'c) crates \<Rightarrow> bytes \<Rightarrow> MailboxStore result" where
  "from_bytes X bs =
     (let legacy =
        (case from_bincode X ty_legacy un_legacy bs of
           Inl e \<Rightarrow> Inl (''malformed mailbox store: '' @ e)
         | Inr (self_id, queues, capacity) \<Rightarrow> Inr (rebuild X self_id queues capacity fmempty))
      in
      case from_bincode X ty_parts un_parts bs of
        Inr (magic, self_id, queues, capacity, receipts) \<Rightarrow>
          if magic = STORE_MAGIC then Inr (rebuild X self_id queues capacity receipts) else legacy
      | Inl _ \<Rightarrow> legacy)"

section \<open>The rebuilt indexes\<close>

lemma fold_insert_ids: "fold (\<lambda>x ids. insert (key x) ids) q ids = ids \<union> key ` set q"
  by (induction q arbitrary: ids) auto

lemma rebuild_index_lookup:
  assumes "distinct (map fst es)" and "fst ` set es \<inter> fset (fmdom m) = {}"
  shows "fmlookup (fold (\<lambda>(k, q) seen. fmupd k (fold (\<lambda>x ids. insert (key x) ids) q (fm_get {} seen k)) seen) es m) k =
    (case map_of es k of Some q \<Rightarrow> Some (key ` set q) | None \<Rightarrow> fmlookup m k)"
  using assms
proof (induction es arbitrary: m)
  case (Cons e es)
  obtain k' q where e: "e = (k', q)" by (cases e)
  have "fmlookup m k' = None" using Cons.prems(2) e by (auto simp: fmlookup_dom_iff)
  moreover have "map_of es k' = None" using Cons.prems(1) e by (simp add: map_of_eq_None_iff)
  moreover have "fst ` set es \<inter> fset (fmdom (fmupd k' (key ` set q) m)) = {}"
    using Cons.prems e by auto
  ultimately show ?case using Cons.IH [of "fmupd k' (key ` set q) m"] Cons.prems(1) e
    by (auto simp: fold_insert_ids split: option.splits)
qed simp

lemma rebuild_index_iteration:
  assumes "is_iteration m es"
  shows "rebuild_index key es = fmmap (\<lambda>q. set (map key q)) m"
proof (rule fmap_ext)
  fix k
  have "distinct (map fst es)" and m: "fmap_of_list es = m"
    using assms by (simp_all add: is_iteration_def)
  then show "fmlookup (rebuild_index key es) k = fmlookup (fmmap (\<lambda>q. set (map key q)) m) k"
    using rebuild_index_lookup [of es fmempty key k]
    by (auto simp: rebuild_index_def fmlookup_of_list m [symmetric] split: option.splits)
qed

lemma rebuild_parts [simp]:
  "mb_self_id (rebuild X i q c r) = i" "mb_queues (rebuild X i q c r) = q"
  "mb_capacity (rebuild X i q c r) = max c 1" "mb_receipts (rebuild X i q c r) = r"
  by (simp_all add: rebuild_def)

lemma rebuild_seen: "seen_of k (rebuild X i q c r) = stored_id X ` set (fm_get [] q k)"
  by (auto simp: rebuild_def fm_get_def split: option.splits)

lemma rebuild_keys: "receipt_keys_of k (rebuild X i q c r) = dedup_key ` set (fm_get [] r k)"
  by (auto simp: rebuild_def fm_get_def split: option.splits)

text \<open>A store rebuilt from the parts of a well-formed one is well-formed.\<close>

lemma rebuild_ok:
  assumes "mailbox_ok X s"
  shows "mailbox_ok X (rebuild X (mb_self_id s) (mb_queues s) (mb_capacity s) (mb_receipts s))"
  using assms
  by (auto simp: mailbox_ok_def inbox_ok_def receipt_box_ok_def rebuild_seen rebuild_keys max_def)

text \<open>What must hold of a store for its bytes to exist: Rust's own type invariants.\<close>

definition storable :: "StoredEnvelope table_order \<Rightarrow> Receipt table_order \<Rightarrow> MailboxStore \<Rightarrow> bool" where
  "storable oq ors s \<longleftrightarrow>
     ok_parts oq ors (STORE_MAGIC, mb_self_id s, mb_queues s, mb_capacity s, mb_receipts s)"

lemma to_bytes_serialize:
  "to_bytes X oq ors s =
     unwrap_or [] (bincode_serialize X
       (sv_parts oq ors (STORE_MAGIC, mb_self_id s, mb_queues s, mb_capacity s, mb_receipts s)))"
  by (cases "bincode_serialize X
       (sv_parts oq ors (STORE_MAGIC, mb_self_id s, mb_queues s, mb_capacity s, mb_receipts s))")
    (simp_all add: to_bytes_def try_to_bytes_def)

lemma load_saved:
  assumes "bincode_ok X" and "storable oq ors s"
  shows "from_bytes X (to_bytes X oq ors s) =
    Inr (rebuild X (mb_self_id s) (mb_queues s) (mb_capacity s) (mb_receipts s))"
  using parts_serde.serde_decode [OF assms(1) assms(2) [unfolded storable_def]]
  by (simp only: to_bytes_serialize from_bytes_def Let_def) simp

end
