(* ===== verification/Sample_Crates.thy ===== *)
theory Sample_Crates
  imports Crates
begin

unbundle bit_operations_syntax

text \<open>
  A small concrete instance of the external crates, on which the laws of theory \<open>Crates\<close> are proved:
  hexadecimal, a length-prefixed codec in the style of bincode, signatures that bind signer and
  message, single-step capabilities, and a commutative key agreement. It shows that the laws can hold
  together and is what the concrete examples of the development evaluate on; it models none of the
  crate's code.
\<close>

section \<open>Hexadecimal\<close>

definition hex_values :: "(char \<times> nat) list" where
  "hex_values = zip (hex_digits @ ''ABCDEF'') ([0..<16] @ [10..<16])"

definition s_hex_encode :: "bytes \<Rightarrow> string" where
  "s_hex_encode bs = concat (map (\<lambda>b. [hex_digits ! (unat b div 16), hex_digits ! (unat b mod 16)]) bs)"

fun s_hex_decode :: "string \<Rightarrow> bytes option" where
  "s_hex_decode [] = Some []"
| "s_hex_decode [_] = None"
| "s_hex_decode (a # b # s) =
     (case (map_of hex_values a, map_of hex_values b, s_hex_decode s) of
        (Some x, Some y, Some bs) \<Rightarrow> Some (of_nat (16 * x + y) # bs)
      | _ \<Rightarrow> None)"

lemma hex_digits_length: "length hex_digits = 16"
  by (simp add: hex_digits_def)

lemma hex_values_digits: "\<forall>n \<in> set [0..<16]. map_of hex_values (hex_digits ! n) = Some n"
  by code_simp

lemma hex_value: "n < 16 \<Longrightarrow> map_of hex_values (hex_digits ! n) = Some n"
  using hex_values_digits by simp

lemma byte_nibbles: "unat (b :: u8) div 16 < 16" "unat b mod 16 < 16"
proof -
  have "unat b < 2 ^ LENGTH(8)" by (rule unsigned_less)
  then show "unat b div 16 < 16" "unat b mod 16 < 16" by auto
qed

lemma s_hex_roundtrip: "s_hex_decode (s_hex_encode bs) = Some bs"
proof (induction bs)
  case (Cons b bs)
  have "of_nat (16 * (unat b div 16) + unat b mod 16) = b" by simp
  with Cons show ?case by (simp add: s_hex_encode_def hex_value byte_nibbles)
qed (simp add: s_hex_encode_def)

lemma s_hex_length: "length (s_hex_encode bs) = 2 * length bs"
  by (induction bs) (simp_all add: s_hex_encode_def)

lemma s_hex_set: "set (s_hex_encode bs) \<subseteq> set hex_digits"
  using byte_nibbles by (fastforce simp: s_hex_encode_def hex_digits_length intro: nth_mem)

lemma hex_values_colon: "map_of hex_values CHR '':'' = None"
  by code_simp

lemma s_hex_no_colon: "s_hex_decode s = Some bs \<Longrightarrow> CHR '':'' \<notin> set s"
  by (induction s arbitrary: bs rule: s_hex_decode.induct)
    (auto simp: hex_values_colon split: option.splits)

section \<open>A codec\<close>

fun put_nat :: "nat \<Rightarrow> bytes" where
  "put_nat n = (if n < 128 then [of_nat n] else of_nat (128 + n mod 128) # put_nat (n div 128))"

declare put_nat.simps [simp del]

fun get_nat :: "bytes \<Rightarrow> (nat \<times> bytes) option" where
  "get_nat [] = None"
| "get_nat (b # bs) =
     (if unat b < 128 then Some (unat b, bs)
      else map_option (\<lambda>(n, r). (unat b - 128 + 128 * n, r)) (get_nat bs))"

lemma get_put_nat: "get_nat (put_nat n @ r) = Some (n, r)"
proof (induction n arbitrary: r rule: put_nat.induct)
  case (1 n)
  show ?case
  proof (cases "n < 128")
    case True
    then show ?thesis by (subst put_nat.simps) (simp add: unat_of_nat)
  next
    case False
    have "128 + n mod 128 < 256" by (simp add: order.strict_trans2 [of _ "128 + 128"])
    then have "unat (of_nat (128 + n mod 128) :: u8) = 128 + n mod 128"
      by (simp only: unat_of_nat) simp
    with False 1 show ?thesis by (subst put_nat.simps) simp
  qed
qed

primrec put :: "sval \<Rightarrow> bytes" where
  "put (VBool b) = [if b then 1 else 0]"
| "put (VU8 x) = [x]"
| "put (VU32 x) = put_nat (unat x)"
| "put (VU64 x) = put_nat (unat x)"
| "put (VStr s) = put_nat (length s) @ map of_char s"
| "put (VBytes bs) = put_nat (length bs) @ bs"
| "put (VSeq vs) = put_nat (length vs) @ concat (map put vs)"
| "put (VTup vs) = concat (map put vs)"
| "put (VMap es) = put_nat (length es) @ concat (map (\<lambda>(k, v). k @ v) (map (map_prod put put) es))"
| "put (VEnum i vs) = put_nat i @ concat (map put vs)"

type_synonym 'a getter = "bytes \<Rightarrow> ('a \<times> bytes) option"

definition get_map :: "('a \<Rightarrow> 'b) \<Rightarrow> 'a getter \<Rightarrow> 'b getter" where
  "get_map f g bs = map_option (map_prod f id) (g bs)"

fun get_rep :: "nat \<Rightarrow> 'a getter \<Rightarrow> 'a list getter" where
  "get_rep 0 g bs = Some ([], bs)"
| "get_rep (Suc n) g bs =
     Option.bind (g bs) (\<lambda>(x, r). map_option (map_prod (\<lambda>xs. x # xs) id) (get_rep n g r))"

fun get_all :: "'a getter list \<Rightarrow> 'a list getter" where
  "get_all [] bs = Some ([], bs)"
| "get_all (g # gs) bs =
     Option.bind (g bs) (\<lambda>(x, r). map_option (map_prod (\<lambda>xs. x # xs) id) (get_all gs r))"

definition get_pair :: "'a getter \<Rightarrow> 'b getter \<Rightarrow> ('a \<times> 'b) getter" where
  "get_pair f g bs = Option.bind (f bs) (\<lambda>(x, r). map_option (map_prod (Pair x) id) (g r))"

definition get_counted :: "'a getter \<Rightarrow> 'a list getter" where
  "get_counted g bs = Option.bind (get_nat bs) (\<lambda>(n, r). get_rep n g r)"

definition get_byte :: "u8 getter" where
  "get_byte bs = (case bs of [] \<Rightarrow> None | b # r \<Rightarrow> Some (b, r))"

primrec get :: "sty \<Rightarrow> sval getter" where
  "get TBool = get_map (\<lambda>b. VBool (b = 1)) get_byte"
| "get TU8 = get_map VU8 get_byte"
| "get TU32 = get_map (\<lambda>n. VU32 (of_nat n)) get_nat"
| "get TU64 = get_map (\<lambda>n. VU64 (of_nat n)) get_nat"
| "get TStr = get_map (\<lambda>bs. VStr (map (\<lambda>b. char_of (unat b)) bs)) (get_counted get_byte)"
| "get (TSeq t) = get_map VSeq (get_counted (get t))"
| "get (TTup ts) = get_map VTup (get_all (map get ts))"
| "get (TMap k v) = get_map VMap (get_counted (get_pair (get k) (get v)))"
| "get (TEnum tss) = (\<lambda>bs. Option.bind (get_nat bs) (\<lambda>(i, r).
     if i < length tss then get_map (VEnum i) (get_all (map (map get) tss ! i)) r else None))"

lemma put_canon: "put (canon v) = put v"
proof (induction v)
  case (VBytes bs)
  have "concat (map (put \<circ> VU8) bs) = bs" by (induction bs) auto
  then show ?case by simp
next
  case (VMap es)
  have "map (map_prod put put) (map (map_prod canon canon) es) = map (map_prod put put) es"
    unfolding map_map by (intro map_cong) (auto simp: VMap)
  then show ?case by (simp only: canon.simps put.simps length_map)
qed (auto cong: map_cong)

lemma get_rep_concat:
  assumes "\<And>x r. x \<in> set xs \<Longrightarrow> g (p x @ r) = Some (x, r)"
  shows "get_rep (length xs) g (concat (map p xs) @ r) = Some (xs, r)"
  using assms by (induction xs) auto

lemma get_all_concat:
  assumes "list_all2 (\<lambda>g x. \<forall>r. g (p x @ r) = Some (x, r)) gs xs"
  shows "get_all gs (concat (map p xs) @ r) = Some (xs, r)"
  using assms by (induction rule: list_all2_induct) auto

lemma char_byte: "char_of (unat (of_char c :: u8)) = c"
proof -
  have "of_char c < (256 :: nat)" by simp
  then have "unat (of_nat (of_char c) :: u8) = of_char c" by (simp only: unat_of_nat) simp
  then have "unat (of_char c :: u8) = of_char c" by (simp only: of_nat_of_char)
  then show ?thesis by simp
qed

lemma get_string:
  "get_counted get_byte (put_nat (length s) @ map of_char s @ r) = Some (map of_char s, r)"
proof -
  have "concat (map (\<lambda>b. [b]) bs) = (bs :: bytes)" for bs by (induction bs) auto
  with get_rep_concat [of "map of_char s" get_byte "\<lambda>b. [b]" r] show ?thesis
    by (simp add: get_counted_def get_put_nat get_byte_def del: map_map)
qed

lemma get_put: "fits t v \<Longrightarrow> get t (put v @ r) = Some (v, r)"
proof (induction t arbitrary: v r)
  case TStr
  then show ?case by (cases v) (auto simp: get_map_def get_string char_byte comp_def)
next
  case (TSeq t)
  then show ?case
    by (cases v) (auto simp: get_map_def get_counted_def get_put_nat list_all_iff get_rep_concat)
next
  case (TTup ts)
  show ?case
  proof (cases v)
    case (VTup vs)
    have "list_all2 (\<lambda>g x. \<forall>r. g (put x @ r) = Some (x, r)) (map get ts) vs"
      using TTup VTup by (auto simp: list_all2_conv_all_nth)
    with VTup show ?thesis by (simp add: get_map_def get_all_concat)
  qed (use TTup.prems in auto)
next
  case (TMap a b)
  show ?case
  proof (cases v)
    case (VMap es)
    have "get_rep (length es) (get_pair (get a) (get b))
        (concat (map ((\<lambda>(k, v). k @ v) \<circ> map_prod put put) es) @ r) = Some (es, r)"
      by (rule get_rep_concat) (use TMap VMap in \<open>auto simp: list_all_iff get_pair_def\<close>)
    with VMap show ?thesis by (simp add: get_map_def get_counted_def get_put_nat)
  qed (use TMap.prems in auto)
next
  case (TEnum tss)
  show ?case
  proof (cases v)
    case (VEnum i vs)
    then have i: "i < length tss" using TEnum.prems by simp
    have "tss ! i \<in> set tss" using i by simp
    then have "list_all2 (\<lambda>g x. \<forall>r. g (put x @ r) = Some (x, r)) (map get (tss ! i)) vs"
      using TEnum.IH [of "tss ! i"] TEnum.prems VEnum i by (auto simp: list_all2_conv_all_nth)
    with VEnum i show ?thesis by (simp add: get_map_def get_all_concat get_put_nat)
  qed (use TEnum.prems in auto)
qed (auto simp: get_map_def get_byte_def get_put_nat split: sval.splits)

section \<open>Signatures, capabilities, key agreement\<close>

text \<open>The identity with seed \<open>i\<close> has the node id \<open>i, i, ...\<close>; a digest is the reversed end of the data.\<close>

definition tail32 :: "bytes \<Rightarrow> bytes" where
  "tail32 bs = take 32 (rev bs @ replicate 32 0)"

definition s_sign :: "u8 \<Rightarrow> bytes \<Rightarrow> bytes" where
  "s_sign i m = replicate 32 i @ tail32 m"

definition s_verify :: "node_id \<Rightarrow> bytes \<Rightarrow> bytes \<Rightarrow> bool" where
  "s_verify n m sig \<longleftrightarrow> sig = n @ tail32 m"

record sample_cap =
  cap_issuer :: u8
  cap_audience :: u8
  cap_accepts :: bool
  cap_expiry :: u64
  cap_nonce :: u64

definition s_authorize ::
  "node_id \<Rightarrow> node_id list \<Rightarrow> u64 \<Rightarrow> node_id \<Rightarrow> string \<Rightarrow> sample_cap list \<Rightarrow> (node_id \<Rightarrow> u64 \<Rightarrow> bool) \<Rightarrow> unit result" where
  "s_authorize node roots now audience ability chain is_revoked =
     (case chain of
        [c] \<Rightarrow>
          (if replicate 32 (cap_issuer c) \<in> set roots \<and> replicate 32 (cap_audience c) = audience \<and>
              cap_accepts c \<and> now \<le> cap_expiry c \<and>
              \<not> is_revoked (replicate 32 (cap_issuer c)) (cap_nonce c)
           then Inr () else Inl ''denied'')
      | _ \<Rightarrow> Inl ''denied'')"

definition s_cap_sv :: "sample_cap \<Rightarrow> sval" where
  "s_cap_sv c = VTup [VU8 (cap_issuer c), VU8 (cap_audience c), VBool (cap_accepts c),
     VU64 (cap_expiry c), VU64 (cap_nonce c)]"

fun s_cap_un :: "sval \<Rightarrow> sample_cap result" where
  "s_cap_un (VTup [i, a, b, e, n]) =
     try_bind (un_u8 i) (\<lambda>i. try_bind (un_u8 a) (\<lambda>a. try_bind (un_bool b) (\<lambda>b.
     try_bind (un_u64 e) (\<lambda>e. try_bind (un_u64 n) (\<lambda>n.
       Inr \<lparr>cap_issuer = i, cap_audience = a, cap_accepts = b, cap_expiry = e, cap_nonce = n\<rparr>)))))"
| "s_cap_un _ = Inl type_error"

text \<open>
  Key agreement in the multiplicative monoid of byte vectors; the public key of seed \<open>i\<close> is its
  secret scalar: the digest's first half with the bits of X25519 clamping set.
\<close>

definition s_scalar :: "bytes \<Rightarrow> bytes" where
  "s_scalar bs = bs[0 := bs ! 0 AND 248, 31 := (bs ! 31 AND 127) OR 64]"

definition s_decompress :: "bytes \<Rightarrow> bytes option" where
  "s_decompress n = (if length n = 32 then Some (s_scalar n) else None)"

definition s_mont_mul :: "bytes \<Rightarrow> bytes \<Rightarrow> bytes" where
  "s_mont_mul a p = map2 (*) a p"

definition s_aead_encrypt :: "bytes \<Rightarrow> bytes \<Rightarrow> bytes \<Rightarrow> bytes option" where
  "s_aead_encrypt key nonce pt =
     (if int (length pt) < 274877906880 then Some (pt @ take 8 key @ take 8 nonce) else None)"

definition s_aead_decrypt :: "bytes \<Rightarrow> bytes \<Rightarrow> bytes \<Rightarrow> bytes option" where
  "s_aead_decrypt key nonce ct =
     (let n = length ct - 16 in
      if 16 \<le> length ct \<and> drop n ct = take 8 key @ take 8 nonce then Some (take n ct) else None)"

definition s_size :: "sval \<Rightarrow> nat result" where
  "s_size v = (let n = length (put v) in if int n < 18446744073709551616 then Inr n else Inl ''size limit'')"

definition sample :: "(u8, sample_cap) crates" where
  "sample =
     \<lparr>hex_encode = s_hex_encode, hex_decode = s_hex_decode,
      sha256 = tail32, sha512 = (\<lambda>bs. take 32 (bs @ replicate 32 0) @ tail32 bs),
      node_id_of = replicate 32, node_id_hex = (\<lambda>i. s_hex_encode (replicate 32 i)),
      sign_with = s_sign, secret_bytes = replicate 32, verify_sig = s_verify,
      bincode_serialize = (\<lambda>v. Inr (put v)), bincode_size = s_size,
      bincode_deserialize = (\<lambda>t bs. case get t bs of Some (v, _) \<Rightarrow> Inr v | None \<Rightarrow> Inl ''unexpected end''),
      authorize = s_authorize, cap_sv = s_cap_sv, cap_ty = TTup [TU8, TU8, TBool, TU64, TU64],
      cap_un = s_cap_un,
      decompress_montgomery = s_decompress, mont_mul_base = id, mont_mul = s_mont_mul,
      aead_new = (\<lambda>k. if length k = 32 then Inr () else Inl ''Invalid Length''),
      aead_encrypt = s_aead_encrypt, aead_decrypt = s_aead_decrypt\<rparr>"

lemma sample_node_id [simp]: "node_id_of sample i = replicate 32 i"
  by (simp add: sample_def)

section \<open>The laws hold\<close>

lemma sample_hex_ok: "hex_ok sample"
  using s_hex_roundtrip s_hex_length s_hex_set by (simp add: hex_ok_def sample_def)

lemma sample_identity_ok: "identity_ok sample"
  by (simp add: identity_ok_def sample_def s_sign_def s_verify_def tail32_def min_def)

lemma sample_bincode_ok: "bincode_ok sample"
  unfolding bincode_ok_def
proof (intro allI impI)
  fix t v
  assume "fits t (canon v)"
  from get_put [OF this, of "[]"]
  show "\<exists>bs. bincode_serialize sample v = Inr bs \<and> bincode_deserialize sample t bs = Inr (canon v)"
    by (simp add: sample_def put_canon)
qed

lemma sample_caps_ok: "caps_ok sample"
  by (simp add: caps_ok_def sample_def s_cap_sv_def)

lemmas sample_laws = sample_hex_ok sample_identity_ok sample_bincode_ok sample_caps_ok

section \<open>Iteration orders\<close>

text \<open>An iteration order for concrete maps: sorted by key.\<close>

definition by_key :: "(string, 'v) fmap \<Rightarrow> (string \<times> 'v) list" where
  "by_key m = map (\<lambda>k. (k, the (fmlookup m k))) (sorted_list_of_fset (fmdom m))"

lemma by_key_iteration: "is_iteration m (by_key m)"
proof -
  have dom: "set (sorted_list_of_fset (fmdom m)) = dom (fmlookup m)" "distinct (sorted_list_of_fset (fmdom m))"
    by (simp_all add: sorted_list_of_fset.rep_eq fmdom.rep_eq)
  have "fmap_of_list (by_key m) = m"
    by (rule fmap_ext) (simp add: by_key_def fmlookup_of_list map_of_map_keys [OF dom(1)])
  moreover have "map fst (by_key m) = sorted_list_of_fset (fmdom m)"
    by (simp add: by_key_def comp_def)
  ultimately show ?thesis using dom(2) by (simp add: is_iteration_def)
qed

lemma by_key_single [simp]: "by_key (fmupd k v fmempty) = [(k, v)]"
  by (simp add: by_key_def sorted_list_of_fset.rep_eq)

lemma by_key_empty [simp]: "by_key fmempty = []"
  by (simp add: by_key_def sorted_list_of_fset.rep_eq)

lemma iteration_single [simp]: "is_iteration (fmupd k v fmempty) [(k, v)]"
  by (simp add: is_iteration_def)

lemma iteration_empty [simp]: "is_iteration fmempty []"
  by (simp add: is_iteration_def)

end
