(* ===== verification/Mailbox_Properties.thy ===== *)
theory Mailbox_Properties
  imports Mailbox_Format Sample_Crates
begin

text \<open>
  The properties of the mailbox store: what \<open>accept\<close> does to every recipient's inbox, idempotence,
  retention, paging, acknowledgement, the two index policies, and persistence. Each property with a
  hypothesis is applied at a concrete store of the sample crates.
\<close>

section \<open>Sample data\<close>

definition alice :: u8 where "alice = 3"
definition bob :: u8 where "bob = 7"
definition mailbox_seed :: u8 where "mailbox_seed = 9"

definition bob_hex :: string where
  "bob_hex = node_id_hex sample bob"

definition sample_body :: "u64 \<Rightarrow> EnvelopeBody" where
  "sample_body t =
     \<lparr>eb_from = [], eb_to = bob_hex, eb_subject = ''hi'', eb_body_cid = ''c1'', eb_attachment_cids = [],
      eb_in_reply_to = [], eb_sent_at = t, eb_postage_receipt = []\<rparr>"

definition sample_mail :: "u64 \<Rightarrow> Envelope" where
  "sample_mail t = seal_envelope sample alice (sample_body t)"

definition sample_store :: MailboxStore where
  "sample_store = new_store (node_id_of sample mailbox_seed) 2"

definition one_mail :: MailboxStore where
  "one_mail = snd (accept sample (sample_mail 5) 10 sample_store)"

lemmas sample_data =
  alice_def bob_def mailbox_seed_def bob_hex_def sample_body_def sample_mail_def sample_store_def
  one_mail_def

lemma sample_store_ok: "mailbox_ok sample sample_store"
  unfolding sample_store_def by (rule new_store_ok)

lemma one_mail_ok: "mailbox_ok sample one_mail"
  unfolding one_mail_def by (rule accept_ok [OF sample_store_ok])

lemma sample_mail_verifies: "verify_envelope sample (sample_mail t) = Inr ()"
  unfolding sample_mail_def by (rule seal_envelope_verifies [OF sample_hex_ok sample_identity_ok])

lemma sample_mail_to: "eb_to (en_body (sample_mail t)) = bob_hex"
  by (simp add: sample_mail_def seal_envelope_def Let_def sample_body_def)

lemma bob_hex_nonempty: "bob_hex \<noteq> []"
  by code_simp

lemma first_mail_stored: "fst (accept sample (sample_mail 5) 10 sample_store) = Inr Stored"
  by code_simp

lemma one_mail_queue: "queue_of bob_hex one_mail = [\<lparr>se_envelope = sample_mail 5, se_stored_at = 10\<rparr>]"
  by code_simp

section \<open>Delivery\<close>

text \<open>The abstract inbox: the entries in order and the ids it refuses.\<close>

type_synonym inbox_view = "string \<Rightarrow> StoredEnvelope list \<times> string set"

definition view_of :: "MailboxStore \<Rightarrow> inbox_view" where
  "view_of s = (\<lambda>r. (queue_of r s, seen_of r s))"

definition spec_store :: "nat \<Rightarrow> string \<Rightarrow> StoredEnvelope \<Rightarrow> (StoredEnvelope \<Rightarrow> string) \<Rightarrow>
    StoredEnvelope list \<times> string set \<Rightarrow> StoredEnvelope list \<times> string set" where
  "spec_store cap mid x ident = (\<lambda>(q, ids).
     if mid \<in> ids then (q, ids)
     else (keep_last cap (q @ [x]), insert mid ids - ident ` set (take (Suc (length q) - cap) (q @ [x]))))"

text \<open>C8: accepting an envelope refines the abstract inbox: an authentic envelope with a recipient is
  stored in that recipient's inbox, in order and keeping the most recent \<open>capacity\<close> entries, unless
  its id is known; the ids of evicted entries are forgotten; every other inbox, and on every error
  every inbox, stays as it is.\<close>

theorem accept_refines_inbox:
  "view_of (snd (accept X e now s)) =
     (let to = eb_to (en_body e) in
      if verify_envelope X e = Inr () \<and> to \<noteq> [] then
        (view_of s)(to := spec_store (mb_capacity s) (envelope_message_id X e)
                            \<lparr>se_envelope = e, se_stored_at = now\<rparr> (stored_id X) (view_of s to))
      else view_of s)"
proof (rule ext)
  fix r
  let ?x = "\<lparr>se_envelope = e, se_stored_at = now\<rparr>"
  show "view_of (snd (accept X e now s)) r =
     (let to = eb_to (en_body e) in
      if verify_envelope X e = Inr () \<and> to \<noteq> [] then
        (view_of s)(to := spec_store (mb_capacity s) (envelope_message_id X e) ?x (stored_id X) (view_of s to))
      else view_of s) r"
    using inbox.push_dup [where X = X and r = r and x = ?x and s = s]
      inbox.push_items [where X = X and r = r and x = ?x and s = s]
      inbox.push_known [where X = X and r = r and x = ?x and s = s]
      store_envelope_frame(1,2) [where r' = r and r = "eb_to (en_body e)" and X = X and x = ?x and s = s]
    by (auto simp: accept_cases view_of_def spec_store_def Let_def stored_id_def)
qed

text \<open>Delivery is idempotent: once an envelope has been accepted, delivering it again reports a
  duplicate and changes no inbox.\<close>

lemma accept_idempotent:
  assumes "mailbox_ok X s" and "fst (accept X e now s) = Inr first"
  shows "fst (accept X e later (snd (accept X e now s))) = Inr Duplicate \<and>
    view_of (snd (accept X e later (snd (accept X e now s)))) = view_of (snd (accept X e now s))"
proof -
  let ?to = "eb_to (en_body e)" and ?x = "\<lambda>t. \<lparr>se_envelope = e, se_stored_at = t\<rparr>"
  let ?t = "push_envelope X ?to (?x now) s"
  have ok: "verify_envelope X e = Inr ()" "?to \<noteq> []"
    using assms(2) by (auto simp: accept_cases split: if_splits)
  have known: "stored_id X (?x later) \<in> seen_of ?to ?t"
    using inbox.push_then_known [OF mailbox_ok_queue_inv(1) [OF assms(1)], where r = ?to and x = "?x now"]
    by (simp add: stored_id_def)
  have "view_of (push_envelope X ?to (?x later) ?t) r = view_of ?t r" for r
    using inbox.push_dup [OF known] store_envelope_frame(1,2) [where r' = r and r = ?to and X = X]
    by (cases "r = ?to") (simp_all add: view_of_def)
  with ok known show ?thesis
    by (auto simp: accept_cases store_envelope_outcome)
qed

lemma accept_idempotent_witness:
  "fst (accept sample (sample_mail 5) 20 (snd (accept sample (sample_mail 5) 10 sample_store))) = Inr Duplicate"
  using accept_idempotent [OF sample_store_ok first_mail_stored, of 20] by blast

text \<open>A run of new messages to one recipient leaves its inbox with the most recent \<open>capacity\<close>
  entries of the old inbox followed by the new messages, in delivery order.\<close>

lemma deliveries_keep_newest:
  assumes inv: "mailbox_ok X s"
    and mails: "\<forall>x \<in> set xs. verify_envelope X (se_envelope x) = Inr () \<and> eb_to (en_body (se_envelope x)) = r"
    and r: "r \<noteq> []"
    and new: "distinct (map (stored_id X) xs)" "stored_id X ` set xs \<inter> seen_of r s = {}"
  shows "queue_of r (fold (\<lambda>x s. snd (accept X (se_envelope x) (se_stored_at x) s)) xs s) =
    keep_last (mb_capacity s) (queue_of r s @ xs)"
proof -
  have "snd (accept X (se_envelope x) (se_stored_at x) t) = push_envelope X r x t" if "x \<in> set xs" for x t
    using mails r that by (simp add: accept_cases)
  then have "fold (\<lambda>x s. snd (accept X (se_envelope x) (se_stored_at x) s)) xs s =
      fold (push_envelope X r) xs s"
    by (intro fold_cong) auto
  with inbox.push_all_items [OF mailbox_ok_queue_inv(1) [OF inv] new] show ?thesis by simp
qed

definition three_mails :: "StoredEnvelope list" where
  "three_mails = map (\<lambda>t. \<lparr>se_envelope = sample_mail t, se_stored_at = 10\<rparr>) [1, 2, 3]"

lemma three_mails_new:
  "distinct (map (stored_id sample) three_mails)"
  "stored_id sample ` set three_mails \<inter> seen_of bob_hex sample_store = {}"
  by (code_simp, simp add: sample_store_def new_store_def)

lemma deliveries_keep_newest_witness:
  "queue_of bob_hex (fold (\<lambda>x s. snd (accept sample (se_envelope x) (se_stored_at x) s)) three_mails sample_store) =
     keep_last (mb_capacity sample_store) (queue_of bob_hex sample_store @ three_mails)"
  by (rule deliveries_keep_newest [OF sample_store_ok _ bob_hex_nonempty three_mails_new])
    (simp add: three_mails_def sample_mail_verifies sample_mail_to)

section \<open>Reading and acknowledging\<close>

text \<open>Reading page after page from the first cursor, with any page limit, returns the whole inbox,
  every envelope once and in order, without a panic and within one page per envelope.\<close>

lemma paging_complete:
  assumes "length (queue_of r s) < fuel" and "length (queue_of r s) + max limit 1 \<le> usize_limit"
  shows "read_pages fuel (\<lambda>c. read_page r c limit s) 0 = Some (Returned (queue_of r s))"
  using inbox_pages.read_pages_complete [where r = r and s = s and c = 0 and fuel = fuel and limit = limit] assms
  by simp

lemma paging_complete_witness:
  "read_pages 2 (\<lambda>c. read_page bob_hex c 0 one_mail) 0 = Some (Returned (queue_of bob_hex one_mail))"
  by (rule paging_complete) (simp_all add: one_mail_queue usize_limit_def)

text \<open>Acknowledging the cursor a page read returned removes exactly the page: what was read
  followed by what stays is the inbox before, and more was announced exactly when something
  stays.\<close>

lemma ack_frees_page:
  assumes "read_page r 0 limit s = Returned (page, cursor, further)"
  shows "page @ queue_of r (snd (ack r cursor s)) = queue_of r s \<and>
    fst (ack r cursor s) = length page \<and> (further \<longleftrightarrow> queue_of r (snd (ack r cursor s)) \<noteq> [])"
  using assms
  by (auto simp: read_page_result inbox.ack_items ack_count split: if_splits)

lemma ack_frees_page_witness:
  "queue_of bob_hex (snd (ack bob_hex 1 one_mail)) = []"
proof -
  have "read_page bob_hex 0 5 one_mail = Returned (queue_of bob_hex one_mail, 1, False)"
    by (simp add: read_page_result one_mail_queue usize_limit_def)
  from ack_frees_page [OF this] show ?thesis by simp
qed

text \<open>C32: a recipient that acknowledges every message as it arrives keeps an empty inbox, while the
  de-duplication index keeps every message id it ever received, past any capacity.\<close>

theorem acked_ids_accumulate:
  assumes mails: "\<forall>x \<in> set xs. verify_envelope X (se_envelope x) = Inr () \<and> eb_to (en_body (se_envelope x)) = r"
    and r: "r \<noteq> []" and new: "distinct (map (stored_id X) xs)"
  shows "let s = fold (\<lambda>x s. snd (ack r 1 (snd (accept X (se_envelope x) (se_stored_at x) s)))) xs
                   (new_store self_id cap)
    in queue_of r s = [] \<and> card (seen_of r s) = length xs"
proof -
  let ?s = "new_store self_id cap"
  have "snd (ack r 1 (snd (accept X (se_envelope x) (se_stored_at x) t))) =
      snd (ack r 1 (push_envelope X r x t))" if "x \<in> set xs" for x t
    using mails r that by (simp add: accept_cases)
  then have "fold (\<lambda>x s. snd (ack r 1 (snd (accept X (se_envelope x) (se_stored_at x) s)))) xs ?s =
      fold (\<lambda>x s. snd (ack r 1 (push_envelope X r x s))) xs ?s"
    by (intro fold_cong) auto
  moreover have "queue_of r ?s = []" "1 \<le> mb_capacity ?s" "seen_of r ?s = {}"
    by (simp_all add: new_store_def)
  ultimately show ?thesis
    using inbox.deliver_ack_rounds [where X = X and r = r and s = ?s and xs = xs] new
      distinct_card [of "map (stored_id X) xs"]
    by (simp add: Let_def)
qed

lemma acked_ids_accumulate_witness:
  "card (seen_of bob_hex (fold (\<lambda>x s. snd (ack bob_hex 1 (snd (accept sample (se_envelope x) (se_stored_at x) s))))
     three_mails (new_store [] 2))) = 3"
  using acked_ids_accumulate [of three_mails sample bob_hex "[]" 2, OF _ bob_hex_nonempty three_mails_new(1)]
  by (simp add: three_mails_def sample_mail_verifies sample_mail_to Let_def)

section \<open>Persistence\<close>

text \<open>C19: a saved store loads, whatever order the maps are written in: with the same queues, receipts
  and capacity, with indexes that hold exactly the ids of what is stored, and well-formed if the
  saved one was.\<close>

theorem save_load:
  assumes "bincode_ok X" and "storable oq ors s" and "mailbox_ok X s"
  shows "\<exists>s'. from_bytes X (to_bytes X oq ors s) = Inr s' \<and> mailbox_ok X s' \<and>
    mb_self_id s' = mb_self_id s \<and> mb_queues s' = mb_queues s \<and> mb_receipts s' = mb_receipts s \<and>
    mb_capacity s' = mb_capacity s \<and>
    (\<forall>r. seen_of r s' = stored_id X ` set (queue_of r s) \<and> receipt_keys_of r s' = receipt_keys_of r s)"
  using load_saved [OF assms(1,2)] rebuild_ok [OF assms(3)] mailbox_okD(1) [OF assms(3)]
    mailbox_okD(3) [OF assms(3)]
  by (simp add: rebuild_seen rebuild_keys receipt_box_ok_def max_def)

lemma push_first:
  "push_envelope X r x (new_store i cap) =
     (new_store i cap)\<lparr>mb_queues := fmupd r [x] fmempty, mb_seen := fmupd r {stored_id X x} fmempty\<rparr>"
  by (simp add: store_envelope_def new_store_def Let_def)

lemma one_mail_parts:
  "mb_queues one_mail = fmupd bob_hex [\<lparr>se_envelope = sample_mail 5, se_stored_at = 10\<rparr>] fmempty"
  "mb_receipts one_mail = fmempty" "mb_self_id one_mail = replicate 32 9" "mb_capacity one_mail = 2"
proof -
  have eq: "one_mail = push_envelope sample bob_hex \<lparr>se_envelope = sample_mail 5, se_stored_at = 10\<rparr>
      (new_store (replicate 32 9) 2)"
    using sample_mail_verifies sample_mail_to bob_hex_nonempty
    by (simp add: one_mail_def accept_cases sample_store_def mailbox_seed_def)
  show "mb_queues one_mail = fmupd bob_hex [\<lparr>se_envelope = sample_mail 5, se_stored_at = 10\<rparr>] fmempty"
    "mb_receipts one_mail = fmempty" "mb_self_id one_mail = replicate 32 9" "mb_capacity one_mail = 2"
    unfolding eq push_first by (simp_all add: new_store_def)
qed

lemma bob_hex_rust: "rust_string bob_hex"
  unfolding bob_hex_def by (rule node_hex_rust_string [OF sample_identity_ok sample_hex_ok])

lemma sample_mail_ok: "ok_envelope (sample_mail t)"
  unfolding sample_mail_def
  by (rule seal_envelope_ok [OF sample_identity_ok sample_hex_ok])
    (simp add: ok_body_def sample_body_def bob_hex_rust rust_string_ascii usize_limit_def)

lemma one_mail_storable: "storable by_key by_key one_mail"
  using sample_mail_ok bob_hex_rust
  by (simp add: storable_def one_mail_parts ok_table_def ok_stored_def usize_limit_def)

lemma save_load_witness:
  "\<exists>s'. from_bytes sample (to_bytes sample by_key by_key one_mail) = Inr s' \<and>
     pending_count bob_hex s' = 1"
  using save_load [OF sample_bincode_ok one_mail_storable one_mail_ok]
  by (auto simp: pending_count_def one_mail_parts)

text \<open>Bytes of the older format, which knows no receipts, load into the same queues with an empty
  receipt table, as long as they are not also bytes of the current format.\<close>

lemma load_legacy:
  assumes "bincode_ok X" and "ok_legacy oq (self_id, queues, cap)"
    and bs: "bincode_serialize X (sv_legacy oq (self_id, queues, cap)) = Inr bs"
    and "\<And>parts. from_bincode X ty_parts un_parts bs = Inr parts \<Longrightarrow> fst parts \<noteq> STORE_MAGIC"
  shows "from_bytes X bs = Inr (rebuild X self_id queues cap fmempty)"
proof -
  have legacy: "from_bincode X ty_legacy un_legacy bs = Inr (self_id, queues, cap)"
    using legacy_serde.serde_decode [OF assms(1,2)] bs by simp
  show ?thesis
  proof (cases "from_bincode X ty_parts un_parts bs")
    case (Inr parts)
    with assms(4) legacy show ?thesis by (cases parts) (simp add: from_bytes_def)
  qed (simp add: from_bytes_def legacy)
qed

definition legacy_bytes :: bytes where
  "legacy_bytes = put (sv_legacy by_key (replicate 32 9, fmempty, 2))"

lemma legacy_bytes_eq: "legacy_bytes = replicate 32 9 @ [0, 2]"
  by (simp add: legacy_bytes_def sv_table_def sv_usize_def put_nat.simps)

lemma load_legacy_witness:
  "from_bytes sample legacy_bytes = Inr (rebuild sample (replicate 32 9) fmempty 2 fmempty)"
proof (rule load_legacy [where oq = by_key, OF sample_bincode_ok])
  show "ok_legacy by_key (replicate 32 9, fmempty, 2)"
    by (simp add: ok_table_def usize_limit_def)
  show "bincode_serialize sample (sv_legacy by_key (replicate 32 9, fmempty, 2)) = Inr legacy_bytes"
    by (simp only: sample_def legacy_bytes_def crates.simps)
  have "from_bincode sample ty_parts un_parts legacy_bytes = Inl ''unexpected end''"
    unfolding legacy_bytes_eq by code_simp
  then show "fst parts \<noteq> STORE_MAGIC"
    if "from_bincode sample ty_parts un_parts legacy_bytes = Inr parts" for parts
    using that by simp
qed

text \<open>C33: an acknowledged message is still refused as a duplicate by the running mailbox, but a restart
  forgets it: the store loaded from disk accepts and stores the same message again.\<close>

theorem restart_forgets_acked:
  assumes "bincode_ok X" and inv: "mailbox_ok X s" and first: "fst (accept X e now s) = Inr Stored"
    and "storable oq ors (snd (ack (eb_to (en_body e)) n (snd (accept X e now s))))"
    and all: "length (queue_of (eb_to (en_body e)) (snd (accept X e now s))) \<le> n"
  defines "acked \<equiv> snd (ack (eb_to (en_body e)) n (snd (accept X e now s)))"
  shows "fst (accept X e later acked) = Inr Duplicate \<and>
    (\<exists>s'. from_bytes X (to_bytes X oq ors acked) = Inr s' \<and> fst (accept X e later s') = Inr Stored)"
proof -
  let ?to = "eb_to (en_body e)" and ?x = "\<lambda>t. \<lparr>se_envelope = e, se_stored_at = t\<rparr>"
  have ok: "verify_envelope X e = Inr ()" "?to \<noteq> []"
    using first by (auto simp: accept_cases split: if_splits)
  then have "stored_id X (?x later) \<in> seen_of ?to acked"
    using inbox.push_then_known [OF mailbox_ok_queue_inv(1) [OF inv], where r = ?to and x = "?x now"]
    by (simp add: acked_def ack_frame accept_cases stored_id_def)
  then have dup: "fst (accept X e later acked) = Inr Duplicate"
    using ok by (simp add: accept_cases store_envelope_outcome)
  have "queue_of ?to acked = []" using all by (simp add: acked_def inbox.ack_items)
  then have "fst (accept X e later
      (rebuild X (mb_self_id acked) (mb_queues acked) (mb_capacity acked) (mb_receipts acked))) = Inr Stored"
    using ok by (simp add: accept_cases store_envelope_outcome rebuild_seen)
  with dup load_saved [OF assms(1) assms(4)] show ?thesis by (simp add: acked_def)
qed

lemma restart_forgets_acked_witness:
  "\<exists>s'. from_bytes sample (to_bytes sample by_key by_key (snd (ack bob_hex 1 one_mail))) = Inr s' \<and>
     fst (accept sample (sample_mail 5) 20 s') = Inr Stored"
proof -
  have "storable by_key by_key (snd (ack bob_hex 1 one_mail))"
    using one_mail_storable
    by (simp add: storable_def ack_def one_mail_parts ok_table_def fmupd_idem)
  moreover have "length (queue_of bob_hex one_mail) \<le> 1" by (simp add: one_mail_queue)
  ultimately show ?thesis
    using restart_forgets_acked [OF sample_bincode_ok sample_store_ok first_mail_stored,
        of by_key by_key 1 20]
    by (simp add: sample_mail_to one_mail_def [symmetric])
qed

section \<open>Receipts\<close>

text \<open>After a valid receipt is deposited, collecting returns a receipt with its key, no key twice and
  at most \<open>capacity\<close> receipts; collecting again returns nothing; and the receipt can then be deposited
  anew.\<close>

lemma receipt_deposit_collect:
  assumes inv: "mailbox_ok X s" and r: "verify_receipt X r = Inr ()" "sender \<noteq> []"
  defines "after \<equiv> snd (put_receipt X sender r s)"
  shows "(let (rs, s') = collect_receipts sender after in
      dedup_key r \<in> dedup_key ` set rs \<and> distinct (map dedup_key rs) \<and> length rs \<le> mb_capacity s \<and>
      fst (collect_receipts sender s') = [] \<and> fst (put_receipt X sender r s') = Inr Stored)"
proof -
  have "mailbox_ok X after" unfolding after_def by (rule put_receipt_ok [OF inv])
  then have box: "receipt_box_ok X after sender" by (rule mailbox_okD(3))
  have after: "after = push_receipt sender r s" using r by (simp add: after_def put_receipt_cases)
  have "dedup_key r \<in> receipt_keys_of sender after"
    unfolding after by (rule receipt_box.push_then_known [OF mailbox_ok_queue_inv(2) [OF inv]])
  with box r show ?thesis
    by (simp add: receipt_box_ok_def collect_receipts_def put_receipt_cases store_receipt_outcome Let_def
        receipt_box.push_cap after)
qed

definition sample_receipt :: Receipt where
  "sample_receipt = issue_receipt sample bob ''m1'' KRead 7"

lemma receipt_deposit_collect_witness:
  "length (fst (collect_receipts ''aa'' (snd (put_receipt sample ''aa'' sample_receipt sample_store)))) \<le> 2"
  using receipt_deposit_collect [OF sample_store_ok issue_receipt_verifies [OF sample_hex_ok sample_identity_ok],
      of "''aa''" bob "''m1''" KRead 7]
  by (simp add: sample_receipt_def sample_store_def new_store_def Let_def split: prod.splits)

end
