(* ===== verification/Protocol.thy ===== *)
theory Protocol
  imports Receipts
begin

text \<open>
  The mesh request and reply protocol (src/src/proto.rs): the two enums, their derived serde form
  with the variant order of the source, and encode/decode. The lemmas give the wire round trip for
  every variant.
\<close>

section \<open>Messages\<close>

datatype 'c MailRequest =
    Deliver Envelope "'c list"
  | Drain string nat "'c list"
  | Ack string nat "'c list"
  | DrainPage string nat nat "'c list"
  | PutReceipt string Receipt "'c list"
  | CollectReceipts string "'c list"

datatype MailReply =
    Delivered bool
  | Drained "Envelope list" nat
  | Page "Envelope list" nat bool
  | Acked nat
  | ReceiptAccepted bool
  | Receipts "Receipt list"
  | Error string

definition MAIL_TOPIC :: string where
  "MAIL_TOPIC = ''ce-mail/v1''"

fun is_error :: "MailReply \<Rightarrow> bool" where
  "is_error (Error _) = True"
| "is_error _ = False"

section \<open>Wire form\<close>

definition sv_grant :: "('i, 'c) crates \<Rightarrow> 'c list \<Rightarrow> sval" where
  "sv_grant X g = VSeq (map (cap_sv X) g)"

definition un_grant :: "('i, 'c) crates \<Rightarrow> sval \<Rightarrow> 'c list result" where
  "un_grant X = un_seq (cap_un X)"

fun sv_request :: "('i, 'c) crates \<Rightarrow> 'c MailRequest \<Rightarrow> sval" where
  "sv_request X (Deliver e g) = VEnum 0 [sv_envelope e, sv_grant X g]"
| "sv_request X (Drain r n g) = VEnum 1 [VStr r, sv_usize n, sv_grant X g]"
| "sv_request X (Ack r n g) = VEnum 2 [VStr r, sv_usize n, sv_grant X g]"
| "sv_request X (DrainPage r n m g) = VEnum 3 [VStr r, sv_usize n, sv_usize m, sv_grant X g]"
| "sv_request X (PutReceipt s r g) = VEnum 4 [VStr s, sv_receipt r, sv_grant X g]"
| "sv_request X (CollectReceipts s g) = VEnum 5 [VStr s, sv_grant X g]"

definition ty_request :: "('i, 'c) crates \<Rightarrow> sty" where
  "ty_request X = (let g = TSeq (cap_ty X) in TEnum
     [[ty_envelope, g], [TStr, TU64, g], [TStr, TU64, g], [TStr, TU64, TU64, g],
      [TStr, ty_receipt, g], [TStr, g]])"

definition un_request :: "('i, 'c) crates \<Rightarrow> sval \<Rightarrow> 'c MailRequest result" where
  "un_request X v =
     (case v of
        VEnum i vs \<Rightarrow>
          (case (i, vs) of
             (0, [e, g]) \<Rightarrow> try_bind (un_envelope e) (\<lambda>e. try_bind (un_grant X g) (\<lambda>g. Inr (Deliver e g)))
           | (Suc 0, [r, n, g]) \<Rightarrow> try_bind (un_str r) (\<lambda>r. try_bind (un_usize n) (\<lambda>n.
               try_bind (un_grant X g) (\<lambda>g. Inr (Drain r n g))))
           | (Suc (Suc 0), [r, n, g]) \<Rightarrow> try_bind (un_str r) (\<lambda>r. try_bind (un_usize n) (\<lambda>n.
               try_bind (un_grant X g) (\<lambda>g. Inr (Ack r n g))))
           | (Suc (Suc (Suc 0)), [r, n, m, g]) \<Rightarrow> try_bind (un_str r) (\<lambda>r. try_bind (un_usize n) (\<lambda>n.
               try_bind (un_usize m) (\<lambda>m. try_bind (un_grant X g) (\<lambda>g. Inr (DrainPage r n m g)))))
           | (Suc (Suc (Suc (Suc 0))), [s, r, g]) \<Rightarrow> try_bind (un_str s) (\<lambda>s. try_bind (un_receipt r) (\<lambda>r.
               try_bind (un_grant X g) (\<lambda>g. Inr (PutReceipt s r g))))
           | (Suc (Suc (Suc (Suc (Suc 0)))), [s, g]) \<Rightarrow> try_bind (un_str s) (\<lambda>s.
               try_bind (un_grant X g) (\<lambda>g. Inr (CollectReceipts s g)))
           | _ \<Rightarrow> Inl type_error)
      | _ \<Rightarrow> Inl type_error)"

fun sv_reply :: "MailReply \<Rightarrow> sval" where
  "sv_reply (Delivered d) = VEnum 0 [VBool d]"
| "sv_reply (Drained es n) = VEnum 1 [VSeq (map sv_envelope es), sv_usize n]"
| "sv_reply (Page es n m) = VEnum 2 [VSeq (map sv_envelope es), sv_usize n, VBool m]"
| "sv_reply (Acked n) = VEnum 3 [sv_usize n]"
| "sv_reply (ReceiptAccepted d) = VEnum 4 [VBool d]"
| "sv_reply (Receipts rs) = VEnum 5 [VSeq (map sv_receipt rs)]"
| "sv_reply (Error m) = VEnum 6 [VStr m]"

definition ty_reply :: sty where
  "ty_reply = TEnum
     [[TBool], [TSeq ty_envelope, TU64], [TSeq ty_envelope, TU64, TBool], [TU64], [TBool],
      [TSeq ty_receipt], [TStr]]"

definition un_reply :: "sval \<Rightarrow> MailReply result" where
  "un_reply v =
     (case v of
        VEnum i vs \<Rightarrow>
          (case (i, vs) of
             (0, [d]) \<Rightarrow> try_bind (un_bool d) (\<lambda>d. Inr (Delivered d))
           | (Suc 0, [es, n]) \<Rightarrow> try_bind (un_seq un_envelope es) (\<lambda>es. try_bind (un_usize n) (\<lambda>n. Inr (Drained es n)))
           | (Suc (Suc 0), [es, n, m]) \<Rightarrow> try_bind (un_seq un_envelope es) (\<lambda>es. try_bind (un_usize n) (\<lambda>n.
               try_bind (un_bool m) (\<lambda>m. Inr (Page es n m))))
           | (Suc (Suc (Suc 0)), [n]) \<Rightarrow> try_bind (un_usize n) (\<lambda>n. Inr (Acked n))
           | (Suc (Suc (Suc (Suc 0))), [d]) \<Rightarrow> try_bind (un_bool d) (\<lambda>d. Inr (ReceiptAccepted d))
           | (Suc (Suc (Suc (Suc (Suc 0)))), [rs]) \<Rightarrow> try_bind (un_seq un_receipt rs) (\<lambda>rs. Inr (Receipts rs))
           | (Suc (Suc (Suc (Suc (Suc (Suc 0))))), [m]) \<Rightarrow> try_bind (un_str m) (\<lambda>m. Inr (Error m))
           | _ \<Rightarrow> Inl type_error)
      | _ \<Rightarrow> Inl type_error)"

definition try_encode_request :: "('i, 'c) crates \<Rightarrow> 'c MailRequest \<Rightarrow> bytes result" where
  "try_encode_request X r =
     map_err (\<lambda>e. ''failed to encode mail request: '' @ e) (bincode_serialize X (sv_request X r))"

definition encode_request :: "('i, 'c) crates \<Rightarrow> 'c MailRequest \<Rightarrow> bytes" where
  "encode_request X r = unwrap_or [] (try_encode_request X r)"

definition decode_request :: "('i, 'c) crates \<Rightarrow> bytes \<Rightarrow> 'c MailRequest result" where
  "decode_request X bs =
     map_err (\<lambda>e. ''malformed mail request: '' @ e) (from_bincode X (ty_request X) (un_request X) bs)"

definition try_encode_reply :: "('i, 'c) crates \<Rightarrow> MailReply \<Rightarrow> bytes result" where
  "try_encode_reply X r =
     map_err (\<lambda>e. ''failed to encode mail reply: '' @ e) (bincode_serialize X (sv_reply r))"

definition encode_reply :: "('i, 'c) crates \<Rightarrow> MailReply \<Rightarrow> bytes" where
  "encode_reply X r = unwrap_or [] (try_encode_reply X r)"

definition decode_reply :: "('i, 'c) crates \<Rightarrow> bytes \<Rightarrow> MailReply result" where
  "decode_reply X bs =
     map_err (\<lambda>e. ''malformed mail reply: '' @ e) (from_bincode X ty_reply un_reply bs)"

section \<open>Round trips\<close>

definition ok_grant :: "'c list \<Rightarrow> bool" where
  "ok_grant g \<longleftrightarrow> length g < usize_limit"

fun ok_request :: "'c MailRequest \<Rightarrow> bool" where
  "ok_request (Deliver e g) = (ok_envelope e \<and> ok_grant g)"
| "ok_request (Drain r n g) = (rust_string r \<and> n < usize_limit \<and> ok_grant g)"
| "ok_request (Ack r n g) = (rust_string r \<and> n < usize_limit \<and> ok_grant g)"
| "ok_request (DrainPage r n m g) = (rust_string r \<and> n < usize_limit \<and> m < usize_limit \<and> ok_grant g)"
| "ok_request (PutReceipt s r g) = (rust_string s \<and> ok_receipt r \<and> ok_grant g)"
| "ok_request (CollectReceipts s g) = (rust_string s \<and> ok_grant g)"

fun ok_reply :: "MailReply \<Rightarrow> bool" where
  "ok_reply (Delivered _) = True"
| "ok_reply (Drained es n) = (list_all ok_envelope es \<and> length es < usize_limit \<and> n < usize_limit)"
| "ok_reply (Page es n _) = (list_all ok_envelope es \<and> length es < usize_limit \<and> n < usize_limit)"
| "ok_reply (Acked n) = (n < usize_limit)"
| "ok_reply (ReceiptAccepted _) = True"
| "ok_reply (Receipts rs) = (list_all ok_receipt rs \<and> length rs < usize_limit)"
| "ok_reply (Error m) = rust_string m"

lemma caps_okD:
  assumes "caps_ok X"
  shows "fits (cap_ty X) (canon (cap_sv X c))" and "cap_un X (canon (cap_sv X c)) = Inr c"
  using assms [unfolded caps_ok_def, THEN spec, of c] by auto

lemma fits_grant: "caps_ok X \<Longrightarrow> ok_grant g \<Longrightarrow> is_VSeq (fits (cap_ty X)) (canon (sv_grant X g))"
  by (auto simp: sv_grant_def ok_grant_def list_all_iff caps_okD(1))

lemma un_grant_sv: "caps_ok X \<Longrightarrow> un_grant X (canon (sv_grant X g)) = Inr g"
  by (simp add: sv_grant_def un_grant_def un_all_map caps_okD(2))

lemma fits_envelopes:
  "list_all ok_envelope es \<Longrightarrow> list_all (fits ty_envelope) (map (canon \<circ> sv_envelope) es)"
  by (auto simp: list_all_iff envelope_serde.fits_sv)

lemma un_envelopes:
  "list_all ok_envelope es \<Longrightarrow> un_all un_envelope (map (canon \<circ> sv_envelope) es) = Inr es"
  by (rule un_all_map) (auto simp: list_all_iff envelope_serde.un_sv)

lemma fits_receipts:
  "list_all ok_receipt rs \<Longrightarrow> list_all (fits ty_receipt) (map (canon \<circ> sv_receipt) rs)"
  by (auto simp: list_all_iff receipt_serde.fits_sv)

lemma un_receipts:
  "list_all ok_receipt rs \<Longrightarrow> un_all un_receipt (map (canon \<circ> sv_receipt) rs) = Inr rs"
  by (rule un_all_map) (auto simp: list_all_iff receipt_serde.un_sv)

lemmas protocol_parts =
  envelope_serde.fits_sv envelope_serde.un_sv receipt_serde.fits_sv receipt_serde.un_sv
  fits_grant un_grant_sv fits_envelopes un_envelopes fits_receipts un_receipts

interpretation request_serde:
  serde_type "sv_request X" "ty_request X" "un_request X" "\<lambda>r. caps_ok X \<and> ok_request r"
  for X :: "('i, 'c) crates"
proof
  fix r :: "'c MailRequest"
  assume "caps_ok X \<and> ok_request r"
  then show "fits (ty_request X) (canon (sv_request X r))"
    and "un_request X (canon (sv_request X r)) = Inr r"
    by (cases r; simp add: ty_request_def un_request_def Let_def protocol_parts)+
qed

interpretation reply_serde: serde_type sv_reply ty_reply un_reply ok_reply
proof
  fix r
  assume "ok_reply r"
  then show "fits ty_reply (canon (sv_reply r))" and "un_reply (canon (sv_reply r)) = Inr r"
    by (cases r; simp add: ty_reply_def un_reply_def protocol_parts)+
qed

lemma encode_decode_request:
  assumes "bincode_ok X" and "caps_ok X" and "ok_request r"
  shows "decode_request X (encode_request X r) = Inr r"
proof -
  have "encode_request X r = unwrap_or [] (bincode_serialize X (sv_request X r))"
    by (cases "bincode_serialize X (sv_request X r)") (simp_all add: encode_request_def try_encode_request_def)
  then show ?thesis
    using request_serde.serde_decode [of X X r] assms by (simp add: decode_request_def)
qed

lemma encode_decode_reply:
  assumes "bincode_ok X" and "ok_reply r"
  shows "decode_reply X (encode_reply X r) = Inr r"
proof -
  have "encode_reply X r = unwrap_or [] (bincode_serialize X (sv_reply r))"
    by (cases "bincode_serialize X (sv_reply r)") (simp_all add: encode_reply_def try_encode_reply_def)
  then show ?thesis
    using reply_serde.serde_decode [OF assms] by (simp add: decode_reply_def)
qed

end
