(* ===== verification/Size_Limits.thy ===== *)
theory Size_Limits
  imports Envelopes
begin

text \<open>
  The resource bounds a mailbox enforces (src/src/limits.rs): the default limits, the envelope check
  with its error texts in the code's order, and the page clamp, which panics for an empty range as
  \<open>Ord::clamp\<close> does. The lemmas characterise exactly which envelopes pass.
\<close>

record Limits =
  max_subject_bytes :: nat
  max_cid_bytes :: nat
  max_attachments :: nat
  max_postage_bytes :: nat
  max_envelope_bytes :: nat
  max_page :: nat
  max_attachment_bytes :: nat
  max_body_bytes :: nat

definition default_limits :: Limits where
  "default_limits =
     \<lparr>max_subject_bytes = 4 * 1024,
      max_cid_bytes = 256,
      max_attachments = 64,
      max_postage_bytes = 1024,
      max_envelope_bytes = 256 * 1024,
      max_page = 500,
      max_attachment_bytes = 40 * 1024 * 1024,
      max_body_bytes = 25 * 1024 * 1024\<rparr>"

text \<open>The text of a failed \<open>ensure!\<close>: what is too large, the size, the limit.\<close>

definition too_large :: "string \<Rightarrow> nat \<Rightarrow> nat \<Rightarrow> string \<Rightarrow> string" where
  "too_large what n limit unit_text = what @ show_nat n @ '' > '' @ show_nat limit @ unit_text"

definition ensure :: "bool \<Rightarrow> string \<Rightarrow> unit result" where
  "ensure b msg = (if b then Inr () else Inl msg)"

text \<open>The loop over the attachment CIDs, from index \<open>i\<close>.\<close>

fun check_cids :: "Limits \<Rightarrow> nat \<Rightarrow> string list \<Rightarrow> unit result" where
  "check_cids l i [] = Inr ()"
| "check_cids l i (cid # cids) =
     try_bind
       (ensure (length cid \<le> max_cid_bytes l)
          (too_large (''attachment_cid['' @ show_nat i @ ''] too large: '') (length cid)
             (max_cid_bytes l) '' bytes''))
       (\<lambda>_. check_cids l (Suc i) cids)"

definition check_envelope :: "('i, 'c) crates \<Rightarrow> Limits \<Rightarrow> Envelope \<Rightarrow> unit result" where
  "check_envelope X l e =
     (let b = en_body e in
      try_bind (ensure (length (eb_subject b) \<le> max_subject_bytes l)
        (too_large ''subject too large: '' (length (eb_subject b)) (max_subject_bytes l) '' bytes'')) (\<lambda>_.
      try_bind (ensure (length (eb_body_cid b) \<le> max_cid_bytes l)
        (too_large ''body_cid too large: '' (length (eb_body_cid b)) (max_cid_bytes l) '' bytes'')) (\<lambda>_.
      try_bind (ensure (length (eb_in_reply_to b) \<le> max_cid_bytes l)
        (too_large ''in_reply_to too large: '' (length (eb_in_reply_to b)) (max_cid_bytes l) '' bytes'')) (\<lambda>_.
      try_bind (ensure (length (eb_postage_receipt b) \<le> max_postage_bytes l)
        (too_large ''postage_receipt too large: '' (length (eb_postage_receipt b)) (max_postage_bytes l) '' bytes'')) (\<lambda>_.
      try_bind (ensure (length (eb_attachment_cids b) \<le> max_attachments l)
        (too_large ''too many attachments: '' (length (eb_attachment_cids b)) (max_attachments l) [])) (\<lambda>_.
      try_bind (check_cids l 0 (eb_attachment_cids b)) (\<lambda>_.
        (let total = encoded_len X e in
         ensure (total \<le> max_envelope_bytes l)
           (too_large ''envelope too large: '' total (max_envelope_bytes l) '' bytes'')))))))))"

text \<open>\<open>usize::clamp(1, max)\<close> asserts \<open>1 <= max\<close>.\<close>

definition clamp_page :: "Limits \<Rightarrow> nat \<Rightarrow> nat outcome" where
  "clamp_page l limit =
     (if 1 \<le> max_page l then
        Returned (if limit < 1 then 1 else if max_page l < limit then max_page l else limit)
      else Panicked)"

section \<open>What the checks decide\<close>

lemma ensure_Inr [simp]: "ensure b msg = Inr u \<longleftrightarrow> b"
  by (simp add: ensure_def)

lemma check_cids_iff: "check_cids l i cids = Inr () \<longleftrightarrow> (\<forall>cid \<in> set cids. length cid \<le> max_cid_bytes l)"
  by (induction cids arbitrary: i) auto

text \<open>The bounds as one predicate.\<close>

definition within_limits :: "('i, 'c) crates \<Rightarrow> Limits \<Rightarrow> Envelope \<Rightarrow> bool" where
  "within_limits X l e \<longleftrightarrow>
     length (eb_subject (en_body e)) \<le> max_subject_bytes l \<and>
     length (eb_body_cid (en_body e)) \<le> max_cid_bytes l \<and>
     length (eb_in_reply_to (en_body e)) \<le> max_cid_bytes l \<and>
     length (eb_postage_receipt (en_body e)) \<le> max_postage_bytes l \<and>
     attachment_count e \<le> max_attachments l \<and>
     (\<forall>cid \<in> set (eb_attachment_cids (en_body e)). length cid \<le> max_cid_bytes l) \<and>
     encoded_len X e \<le> max_envelope_bytes l"

lemma check_envelope_iff: "check_envelope X l e = Inr () \<longleftrightarrow> within_limits X l e"
  by (simp add: check_envelope_def within_limits_def Let_def check_cids_iff attachment_count_def)

lemma clamp_page_bounds:
  "clamp_page l limit = Returned n \<Longrightarrow> 1 \<le> n \<and> n \<le> max_page l"
  by (auto simp: clamp_page_def split: if_splits)

lemma clamp_page_returns: "1 \<le> max_page l \<Longrightarrow> \<exists>n. clamp_page l limit = Returned n"
  by (simp add: clamp_page_def)

end
