(* ===== verification/Mail_Service.thy ===== *)
theory Mail_Service
  imports Mailbox Protocol Size_Limits
begin

text \<open>
  The mailbox service (src/src/service.rs): every request variant's handler, with its guards in the
  code's order, over the store and the limits. A handler returns the reply and the service after it;
  \<open>DrainPage\<close> can panic, so \<open>handle\<close> returns an \<open>outcome\<close>. The lemmas give the authorization
  behind every effect, the exact replies on the success branches, and the invariant of the service.
\<close>

section \<open>The service\<close>

record MailService =
  ms_store :: MailboxStore
  ms_limits :: Limits

definition new_service :: "MailboxStore \<Rightarrow> MailService" where
  "new_service s = \<lparr>ms_store = s, ms_limits = default_limits\<rparr>"

definition with_limits :: "MailboxStore \<Rightarrow> Limits \<Rightarrow> MailService" where
  "with_limits s l = \<lparr>ms_store = s, ms_limits = l\<rparr>"

definition gate_delegate ::
  "('i, 'c) crates \<Rightarrow> node_id \<Rightarrow> node_id \<Rightarrow> 'c list \<Rightarrow> u64 \<Rightarrow> (node_id \<Rightarrow> u64 \<Rightarrow> bool) \<Rightarrow> unit result" where
  "gate_delegate X recipient requester grant now is_revoked =
     authorize X recipient [recipient] now requester ABILITY_ACCEPT grant is_revoked"

text \<open>The shared guard of the reading handlers: the node itself passes, a delegate shows a grant.\<close>

definition refused_delegate ::
  "('i, 'c) crates \<Rightarrow> node_id \<Rightarrow> node_id \<Rightarrow> 'c list \<Rightarrow> u64 \<Rightarrow> (node_id \<Rightarrow> u64 \<Rightarrow> bool) \<Rightarrow> string option" where
  "refused_delegate X requester recip grant now is_revoked =
     (if requester \<noteq> recip then
        (case gate_delegate X recip requester grant now is_revoked of
           Inl e \<Rightarrow> Some e
         | Inr _ \<Rightarrow> None)
      else None)"

section \<open>Handlers\<close>

definition handle_deliver ::
  "('i, 'c) crates \<Rightarrow> Envelope \<Rightarrow> 'c list \<Rightarrow> u64 \<Rightarrow> (node_id \<Rightarrow> u64 \<Rightarrow> bool) \<Rightarrow> MailService \<Rightarrow> MailReply \<times> MailService" where
  "handle_deliver X envelope grant now is_revoked svc =
     (case parse_node_id X (eb_to (en_body envelope)) of
        Inl e \<Rightarrow> (Error (''bad recipient: '' @ e), svc)
      | Inr recipient \<Rightarrow>
        (case check_envelope X (ms_limits svc) envelope of
           Inl e \<Rightarrow> (Error e, svc)
         | Inr _ \<Rightarrow>
           (case check_accept_grant X (ms_store svc) recipient grant now is_revoked of
              Inl e \<Rightarrow> (Error e, svc)
            | Inr _ \<Rightarrow>
              (let (result, store) = accept X envelope now (ms_store svc);
                   svc = svc\<lparr>ms_store := store\<rparr>
               in case result of
                    Inr Stored \<Rightarrow> (Delivered False, svc)
                  | Inr Duplicate \<Rightarrow> (Delivered True, svc)
                  | Inl e \<Rightarrow> (Error e, svc)))))"

definition handle_drain ::
  "('i, 'c) crates \<Rightarrow> node_id \<Rightarrow> string \<Rightarrow> nat \<Rightarrow> 'c list \<Rightarrow> u64 \<Rightarrow> (node_id \<Rightarrow> u64 \<Rightarrow> bool) \<Rightarrow> MailService \<Rightarrow> MailReply \<times> MailService" where
  "handle_drain X requester recipient since grant now is_revoked svc =
     (case parse_node_id X recipient of
        Inl e \<Rightarrow> (Error (''bad recipient: '' @ e), svc)
      | Inr recip \<Rightarrow>
        (case refused_delegate X requester recip grant now is_revoked of
           Some e \<Rightarrow> (Error e, svc)
         | None \<Rightarrow>
           (let (stored, cursor) = read_from recipient since (ms_store svc)
            in (Drained (map se_envelope stored) cursor, svc))))"

definition handle_ack ::
  "('i, 'c) crates \<Rightarrow> node_id \<Rightarrow> string \<Rightarrow> nat \<Rightarrow> 'c list \<Rightarrow> u64 \<Rightarrow> (node_id \<Rightarrow> u64 \<Rightarrow> bool) \<Rightarrow> MailService \<Rightarrow> MailReply \<times> MailService" where
  "handle_ack X requester recipient cursor grant now is_revoked svc =
     (case parse_node_id X recipient of
        Inl e \<Rightarrow> (Error (''bad recipient: '' @ e), svc)
      | Inr recip \<Rightarrow>
        (case refused_delegate X requester recip grant now is_revoked of
           Some e \<Rightarrow> (Error e, svc)
         | None \<Rightarrow>
           (let (removed, store) = ack recipient cursor (ms_store svc)
            in (Acked removed, svc\<lparr>ms_store := store\<rparr>))))"

definition handle_drain_page ::
  "('i, 'c) crates \<Rightarrow> node_id \<Rightarrow> string \<Rightarrow> nat \<Rightarrow> nat \<Rightarrow> 'c list \<Rightarrow> u64 \<Rightarrow> (node_id \<Rightarrow> u64 \<Rightarrow> bool) \<Rightarrow> MailService \<Rightarrow>
   (MailReply \<times> MailService) outcome" where
  "handle_drain_page X requester recipient since limit grant now is_revoked svc =
     (case parse_node_id X recipient of
        Inl e \<Rightarrow> Returned (Error (''bad recipient: '' @ e), svc)
      | Inr recip \<Rightarrow>
        (case refused_delegate X requester recip grant now is_revoked of
           Some e \<Rightarrow> Returned (Error e, svc)
         | None \<Rightarrow>
           and_then (clamp_page (ms_limits svc) limit) (\<lambda>limit.
           map_outcome_to (\<lambda>(stored, cursor, more). (Page (map se_envelope stored) cursor more, svc))
             (read_page recipient since limit (ms_store svc)))))"

definition handle_put_receipt ::
  "('i, 'c) crates \<Rightarrow> string \<Rightarrow> Receipt \<Rightarrow> 'c list \<Rightarrow> u64 \<Rightarrow> (node_id \<Rightarrow> u64 \<Rightarrow> bool) \<Rightarrow> MailService \<Rightarrow> MailReply \<times> MailService" where
  "handle_put_receipt X for_sender receipt grant now is_revoked svc =
     (case parse_node_id X for_sender of
        Inl e \<Rightarrow> (Error (''bad sender: '' @ e), svc)
      | Inr sender \<Rightarrow>
        (case check_accept_grant X (ms_store svc) sender grant now is_revoked of
           Inl e \<Rightarrow> (Error e, svc)
         | Inr _ \<Rightarrow>
           (let (result, store) = put_receipt X for_sender receipt (ms_store svc);
                svc = svc\<lparr>ms_store := store\<rparr>
            in case result of
                 Inr Stored \<Rightarrow> (ReceiptAccepted False, svc)
               | Inr Duplicate \<Rightarrow> (ReceiptAccepted True, svc)
               | Inl e \<Rightarrow> (Error e, svc))))"

definition handle_collect_receipts ::
  "('i, 'c) crates \<Rightarrow> node_id \<Rightarrow> string \<Rightarrow> 'c list \<Rightarrow> u64 \<Rightarrow> (node_id \<Rightarrow> u64 \<Rightarrow> bool) \<Rightarrow> MailService \<Rightarrow> MailReply \<times> MailService" where
  "handle_collect_receipts X requester sender grant now is_revoked svc =
     (case parse_node_id X sender of
        Inl e \<Rightarrow> (Error (''bad sender: '' @ e), svc)
      | Inr snd_id \<Rightarrow>
        (case refused_delegate X requester snd_id grant now is_revoked of
           Some e \<Rightarrow> (Error e, svc)
         | None \<Rightarrow>
           (let (receipts, store) = collect_receipts sender (ms_store svc)
            in (Receipts receipts, svc\<lparr>ms_store := store\<rparr>))))"

fun handle ::
  "('i, 'c) crates \<Rightarrow> node_id \<Rightarrow> 'c MailRequest \<Rightarrow> u64 \<Rightarrow> (node_id \<Rightarrow> u64 \<Rightarrow> bool) \<Rightarrow> MailService \<Rightarrow> (MailReply \<times> MailService) outcome" where
  "handle X requester (Deliver envelope grant) now revoked svc =
     Returned (handle_deliver X envelope grant now revoked svc)"
| "handle X requester (Drain recipient since grant) now revoked svc =
     Returned (handle_drain X requester recipient since grant now revoked svc)"
| "handle X requester (Ack recipient cursor grant) now revoked svc =
     Returned (handle_ack X requester recipient cursor grant now revoked svc)"
| "handle X requester (DrainPage recipient since limit grant) now revoked svc =
     handle_drain_page X requester recipient since limit grant now revoked svc"
| "handle X requester (PutReceipt for_sender receipt grant) now revoked svc =
     Returned (handle_put_receipt X for_sender receipt grant now revoked svc)"
| "handle X requester (CollectReceipts sender grant) now revoked svc =
     Returned (handle_collect_receipts X requester sender grant now revoked svc)"

lemmas handler_defs =
  handle_deliver_def handle_drain_def handle_ack_def handle_drain_page_def handle_put_receipt_def
  handle_collect_receipts_def

section \<open>Authorization\<close>

text \<open>Acting for a recipient: being it, or holding a chain from it to oneself.\<close>

definition acts_for ::
  "('i, 'c) crates \<Rightarrow> node_id \<Rightarrow> string \<Rightarrow> 'c list \<Rightarrow> u64 \<Rightarrow> (node_id \<Rightarrow> u64 \<Rightarrow> bool) \<Rightarrow> bool" where
  "acts_for X requester name grant now revoked \<longleftrightarrow>
     (\<exists>n. parse_node_id X name = Inr n \<and>
        (requester = n \<or> authorize X n [n] now requester ABILITY_ACCEPT grant revoked = Inr ()))"

text \<open>Storing for a recipient: this mailbox holds a chain from it.\<close>

definition accepts_for ::
  "('i, 'c) crates \<Rightarrow> MailboxStore \<Rightarrow> string \<Rightarrow> 'c list \<Rightarrow> u64 \<Rightarrow> (node_id \<Rightarrow> u64 \<Rightarrow> bool) \<Rightarrow> bool" where
  "accepts_for X s name grant now revoked \<longleftrightarrow>
     (\<exists>n. parse_node_id X name = Inr n \<and>
        authorize X n [n] now (mb_self_id s) ABILITY_ACCEPT grant revoked = Inr ())"

lemma refused_delegate_None:
  "refused_delegate X requester n grant now revoked = None \<longleftrightarrow>
     requester = n \<or> authorize X n [n] now requester ABILITY_ACCEPT grant revoked = Inr ()"
  by (auto simp: refused_delegate_def gate_delegate_def split: sum.splits)

lemma acts_for_guard:
  "acts_for X requester name grant now revoked \<longleftrightarrow>
     (\<exists>n. parse_node_id X name = Inr n \<and> refused_delegate X requester n grant now revoked = None)"
  by (simp add: acts_for_def refused_delegate_None)

lemma check_accept_grant_Inr:
  "check_accept_grant X s n grant now revoked = Inr () \<longleftrightarrow>
     authorize X n [n] now (mb_self_id s) ABILITY_ACCEPT grant revoked = Inr ()"
  by (simp add: check_accept_grant_def)

section \<open>What each handler does\<close>

text \<open>Delivery: the four conditions of a stored message, and nothing but an error otherwise.\<close>

definition deliverable ::
  "('i, 'c) crates \<Rightarrow> MailService \<Rightarrow> Envelope \<Rightarrow> 'c list \<Rightarrow> u64 \<Rightarrow> (node_id \<Rightarrow> u64 \<Rightarrow> bool) \<Rightarrow> bool" where
  "deliverable X svc e grant now revoked \<longleftrightarrow>
     within_limits X (ms_limits svc) e \<and>
     accepts_for X (ms_store svc) (eb_to (en_body e)) grant now revoked \<and>
     verify_envelope X e = Inr () \<and> eb_to (en_body e) \<noteq> []"

lemma handle_deliver_ok:
  assumes "deliverable X svc e grant now revoked"
  shows "handle_deliver X e grant now revoked svc =
    (Delivered (envelope_message_id X e \<in> seen_of (eb_to (en_body e)) (ms_store svc)),
     svc\<lparr>ms_store := push_envelope X (eb_to (en_body e)) \<lparr>se_envelope = e, se_stored_at = now\<rparr> (ms_store svc)\<rparr>)"
proof -
  let ?to = "eb_to (en_body e)" and ?x = "\<lparr>se_envelope = e, se_stored_at = now\<rparr>"
  obtain n where "parse_node_id X ?to = Inr n"
    and "check_accept_grant X (ms_store svc) n grant now revoked = Inr ()"
    using assms by (auto simp: deliverable_def accepts_for_def check_accept_grant_Inr)
  moreover have "check_envelope X (ms_limits svc) e = Inr ()"
    using assms by (simp add: deliverable_def check_envelope_iff)
  moreover obtain o' s' where "store_envelope X ?to ?x (ms_store svc) = (o', s')" by (rule prod.exhaust)
  ultimately show ?thesis
    using assms store_envelope_outcome [of X ?to ?x "ms_store svc"]
    by (auto simp: handle_deliver_def accept_cases deliverable_def stored_id_def split: if_splits)
qed

lemma handle_deliver_refused:
  assumes "\<not> deliverable X svc e grant now revoked"
  shows "\<exists>m. handle_deliver X e grant now revoked svc = (Error m, svc)"
  using assms
  by (auto simp: deliverable_def accepts_for_def handle_deliver_def accept_cases
      check_accept_grant_Inr [symmetric] check_envelope_iff [symmetric] split: sum.splits)

text \<open>The reading handlers: refused, or answered from the queue as it is named in the request.\<close>

lemma handle_drain_cases:
  "(acts_for X requester r grant now revoked \<and>
     handle_drain X requester r since grant now revoked svc =
       (let (xs, c) = read_from r since (ms_store svc) in (Drained (map se_envelope xs) c, svc))) \<or>
   (\<not> acts_for X requester r grant now revoked \<and>
     (\<exists>m. handle_drain X requester r since grant now revoked svc = (Error m, svc)))"
  by (auto simp: handle_drain_def acts_for_guard
      split: sum.splits option.splits prod.splits)

lemma handle_ack_cases:
  "(acts_for X requester r grant now revoked \<and>
     handle_ack X requester r n grant now revoked svc =
       (Acked (fst (ack r n (ms_store svc))), svc\<lparr>ms_store := snd (ack r n (ms_store svc))\<rparr>)) \<or>
   (\<not> acts_for X requester r grant now revoked \<and>
     (\<exists>m. handle_ack X requester r n grant now revoked svc = (Error m, svc)))"
  by (auto simp: handle_ack_def acts_for_guard
      split: sum.splits option.splits prod.splits)

lemma handle_drain_page_cases:
  "(acts_for X requester r grant now revoked \<and>
     handle_drain_page X requester r since limit grant now revoked svc =
       and_then (clamp_page (ms_limits svc) limit) (\<lambda>limit.
         map_outcome_to (\<lambda>(xs, c, more). (Page (map se_envelope xs) c more, svc))
           (read_page r since limit (ms_store svc)))) \<or>
   (\<not> acts_for X requester r grant now revoked \<and>
     (\<exists>m. handle_drain_page X requester r since limit grant now revoked svc = Returned (Error m, svc)))"
  by (auto simp: handle_drain_page_def acts_for_guard
      split: sum.splits option.splits)

lemma handle_collect_cases:
  "(acts_for X requester r grant now revoked \<and>
     handle_collect_receipts X requester r grant now revoked svc =
       (Receipts (receipts_of r (ms_store svc)),
        svc\<lparr>ms_store := snd (collect_receipts r (ms_store svc))\<rparr>)) \<or>
   (\<not> acts_for X requester r grant now revoked \<and>
     (\<exists>m. handle_collect_receipts X requester r grant now revoked svc = (Error m, svc)))"
  by (auto simp: handle_collect_receipts_def acts_for_guard collect_receipts_def
      split: sum.splits option.splits)

text \<open>Depositing a receipt.\<close>

definition depositable ::
  "('i, 'c) crates \<Rightarrow> MailService \<Rightarrow> string \<Rightarrow> Receipt \<Rightarrow> 'c list \<Rightarrow> u64 \<Rightarrow> (node_id \<Rightarrow> u64 \<Rightarrow> bool) \<Rightarrow> bool" where
  "depositable X svc sender r grant now revoked \<longleftrightarrow>
     accepts_for X (ms_store svc) sender grant now revoked \<and> verify_receipt X r = Inr () \<and> sender \<noteq> []"

lemma handle_put_receipt_ok:
  assumes "depositable X svc sender r grant now revoked"
  shows "handle_put_receipt X sender r grant now revoked svc =
    (ReceiptAccepted (dedup_key r \<in> receipt_keys_of sender (ms_store svc)),
     svc\<lparr>ms_store := push_receipt sender r (ms_store svc)\<rparr>)"
proof -
  obtain n where "parse_node_id X sender = Inr n"
    and "check_accept_grant X (ms_store svc) n grant now revoked = Inr ()"
    using assms by (auto simp: depositable_def accepts_for_def check_accept_grant_Inr)
  moreover obtain o' s' where "store_receipt sender r (ms_store svc) = (o', s')" by (rule prod.exhaust)
  ultimately show ?thesis
    using assms store_receipt_outcome [of sender r "ms_store svc"]
    by (auto simp: handle_put_receipt_def put_receipt_cases depositable_def split: if_splits)
qed

lemma handle_put_receipt_refused:
  assumes "\<not> depositable X svc sender r grant now revoked"
  shows "\<exists>m. handle_put_receipt X sender r grant now revoked svc = (Error m, svc)"
  using assms
  by (auto simp: depositable_def accepts_for_def handle_put_receipt_def put_receipt_cases
      check_accept_grant_Inr [symmetric] split: sum.splits)

section \<open>The service's invariant\<close>

definition service_ok :: "('i, 'c) crates \<Rightarrow> MailService \<Rightarrow> bool" where
  "service_ok X svc \<longleftrightarrow> mailbox_ok X (ms_store svc)"

lemma handle_deliver_service_ok:
  "service_ok X svc \<Longrightarrow> service_ok X (snd (handle_deliver X e grant now revoked svc))"
  using handle_deliver_ok [of X svc e grant now revoked] handle_deliver_refused [of X svc e grant now revoked]
  by (cases "deliverable X svc e grant now revoked")
    (auto simp: service_ok_def deliverable_def intro!: push_envelope_ok)

lemma handle_put_receipt_service_ok:
  "service_ok X svc \<Longrightarrow> service_ok X (snd (handle_put_receipt X sender r grant now revoked svc))"
  using handle_put_receipt_ok [of X svc sender r grant now revoked]
    handle_put_receipt_refused [of X svc sender r grant now revoked]
  by (cases "depositable X svc sender r grant now revoked")
    (auto simp: service_ok_def depositable_def intro!: push_receipt_ok)

lemma handle_ack_service_ok:
  "service_ok X svc \<Longrightarrow> service_ok X (snd (handle_ack X requester r n grant now revoked svc))"
  using handle_ack_cases [of X requester r grant now revoked n svc] ack_ok [of X "ms_store svc" r n]
  by (auto simp: service_ok_def)

lemma handle_collect_service_ok:
  "service_ok X svc \<Longrightarrow> service_ok X (snd (handle_collect_receipts X requester r grant now revoked svc))"
  using handle_collect_cases [of X requester r grant now revoked svc] collect_ok [of X "ms_store svc" r]
  by (auto simp: service_ok_def)

text \<open>Reads change nothing.\<close>

lemma handle_drain_unchanged: "snd (handle_drain X requester r since grant now revoked svc) = svc"
  using handle_drain_cases [of X requester r grant now revoked since svc] by (auto split: prod.splits)

lemma handle_drain_page_unchanged:
  "handle_drain_page X requester r since limit grant now revoked svc = Returned (reply, svc') \<Longrightarrow> svc' = svc"
  using handle_drain_page_cases [of X requester r grant now revoked since limit svc]
  by (auto split: prod.splits)

lemma handle_service_ok:
  assumes "service_ok X svc" and "handle X requester req now revoked svc = Returned (reply, svc')"
  shows "service_ok X svc'"
proof (cases req)
  case (Deliver e g)
  with assms handle_deliver_service_ok [of X svc e g now revoked] show ?thesis by simp
next
  case (Drain r n g)
  with assms handle_drain_unchanged [of X requester r n g now revoked svc] show ?thesis by simp
next
  case (Ack r n g)
  with assms handle_ack_service_ok [of X svc requester r n g now revoked] show ?thesis by simp
next
  case (DrainPage r n m g)
  with assms handle_drain_page_unchanged [of X requester r n m g now revoked svc reply svc']
  show ?thesis by simp
next
  case (PutReceipt r x g)
  with assms handle_put_receipt_service_ok [of X svc r x g now revoked] show ?thesis by simp
next
  case (CollectReceipts r g)
  with assms handle_collect_service_ok [of X svc requester r g now revoked] show ?thesis by simp
qed

text \<open>An error reply means that nothing changed.\<close>

lemma handle_error_unchanged:
  assumes "handle X requester req now revoked svc = Returned (Error m, svc')"
  shows "svc' = svc"
proof (cases req)
  case (Deliver e g)
  with assms handle_deliver_ok [of X svc e g now revoked] handle_deliver_refused [of X svc e g now revoked]
  show ?thesis by (cases "deliverable X svc e g now revoked") auto
next
  case (Drain r n g)
  with assms handle_drain_unchanged [of X requester r n g now revoked svc] show ?thesis by simp
next
  case (Ack r n g)
  with assms handle_ack_cases [of X requester r g now revoked n svc] show ?thesis by auto
next
  case (DrainPage r n m' g)
  with assms handle_drain_page_unchanged [of X requester r n m' g now revoked svc "Error m" svc']
  show ?thesis by simp
next
  case (PutReceipt r x g)
  with assms handle_put_receipt_ok [of X svc r x g now revoked] handle_put_receipt_refused [of X svc r x g now revoked]
  show ?thesis by (cases "depositable X svc r x g now revoked") auto
next
  case (CollectReceipts r g)
  with assms handle_collect_cases [of X requester r g now revoked svc] show ?thesis by auto
qed

text \<open>Only a page request can panic, and with a positive page limit only past the address space.\<close>

lemma handle_returns:
  assumes "1 \<le> max_page (ms_limits svc)"
    and "\<And>r. length (queue_of r (ms_store svc)) + max_page (ms_limits svc) \<le> usize_limit"
  shows "\<exists>reply svc'. handle X requester req now revoked svc = Returned (reply, svc')"
proof (cases req)
  case (DrainPage r since limit g)
  obtain n where n: "clamp_page (ms_limits svc) limit = Returned n"
    using clamp_page_returns [OF assms(1)] by blast
  then have "n \<le> max_page (ms_limits svc)" "1 \<le> n" using clamp_page_bounds by blast+
  then have "\<exists>p. read_page r since n (ms_store svc) = Returned p"
    using assms(2) [of r] by (auto simp: read_page_def Let_def fm_get_def split: option.splits)
  with n DrainPage handle_drain_page_cases [of X requester r g now revoked since limit svc]
  show ?thesis by (auto split: prod.splits)
qed auto

section \<open>Running the service\<close>

text \<open>The services a start leads to: any requests, from anyone, at any times.\<close>

inductive service_run :: "('i, 'c) crates \<Rightarrow> MailService \<Rightarrow> MailService \<Rightarrow> bool" for X and svc0 where
  idle: "service_run X svc0 svc0"
| request: "service_run X svc0 svc \<Longrightarrow> handle X requester req now revoked svc = Returned (reply, svc') \<Longrightarrow>
    service_run X svc0 svc'"

lemma handle_keeps:
  assumes "handle X requester req now revoked svc = Returned (reply, svc')"
  shows "ms_limits svc' = ms_limits svc" and "mb_self_id (ms_store svc') = mb_self_id (ms_store svc)"
    and "mb_capacity (ms_store svc') = mb_capacity (ms_store svc)"
proof -
  have "ms_limits svc' = ms_limits svc \<and> mb_self_id (ms_store svc') = mb_self_id (ms_store svc) \<and>
    mb_capacity (ms_store svc') = mb_capacity (ms_store svc)"
  proof (cases req)
    case (Deliver e g)
    with assms handle_deliver_ok [of X svc e g now revoked] handle_deliver_refused [of X svc e g now revoked]
    show ?thesis
      by (cases "deliverable X svc e g now revoked") (auto simp: mailbox_frames inbox.push_cap)
  next
    case (Drain r n g)
    with assms handle_drain_unchanged [of X requester r n g now revoked svc] show ?thesis by simp
  next
    case (Ack r n g)
    with assms handle_ack_cases [of X requester r g now revoked n svc] show ?thesis
      by (auto simp: mailbox_frames inbox.ack_cap)
  next
    case (DrainPage r n m g)
    with assms handle_drain_page_unchanged [of X requester r n m g now revoked svc reply svc']
    show ?thesis by simp
  next
    case (PutReceipt r x g)
    with assms handle_put_receipt_ok [of X svc r x g now revoked]
      handle_put_receipt_refused [of X svc r x g now revoked]
    show ?thesis
      by (cases "depositable X svc r x g now revoked") (auto simp: mailbox_frames receipt_box.push_cap)
  next
    case (CollectReceipts r g)
    with assms handle_collect_cases [of X requester r g now revoked svc] show ?thesis
      by (auto simp: mailbox_frames receipt_box.collect_cap)
  qed
  then show "ms_limits svc' = ms_limits svc" and "mb_self_id (ms_store svc') = mb_self_id (ms_store svc)"
    and "mb_capacity (ms_store svc') = mb_capacity (ms_store svc)" by simp_all
qed

lemma service_run_ok:
  "service_run X svc0 svc \<Longrightarrow> service_ok X svc0 \<Longrightarrow>
     service_ok X svc \<and> ms_limits svc = ms_limits svc0 \<and>
     mb_self_id (ms_store svc) = mb_self_id (ms_store svc0) \<and>
     mb_capacity (ms_store svc) = mb_capacity (ms_store svc0)"
  by (induction rule: service_run.induct) (auto dest: handle_service_ok simp: handle_keeps)

text \<open>The name whose inbox or receipt box a request is about.\<close>

fun request_name :: "'c MailRequest \<Rightarrow> string" where
  "request_name (Deliver e _) = eb_to (en_body e)"
| "request_name (Drain r _ _) = r"
| "request_name (Ack r _ _) = r"
| "request_name (DrainPage r _ _ _) = r"
| "request_name (PutReceipt r _ _) = r"
| "request_name (CollectReceipts r _) = r"

lemma handle_frame:
  assumes "handle X requester req now revoked svc = Returned (reply, svc')" and "r \<noteq> request_name req"
  shows "queue_of r (ms_store svc') = queue_of r (ms_store svc) \<and>
    receipts_of r (ms_store svc') = receipts_of r (ms_store svc)"
proof (cases req)
  case (Deliver e g)
  with assms handle_deliver_ok [of X svc e g now revoked] handle_deliver_refused [of X svc e g now revoked]
  show ?thesis
    by (cases "deliverable X svc e g now revoked") (auto simp: mailbox_frames)
next
  case (Drain r n g)
  with assms handle_drain_unchanged [of X requester r n g now revoked svc] show ?thesis by simp
next
  case (Ack r n g)
  with assms handle_ack_cases [of X requester r g now revoked n svc] show ?thesis
    by (auto simp: mailbox_frames)
next
  case (DrainPage r n m g)
  with assms handle_drain_page_unchanged [of X requester r n m g now revoked svc reply svc']
  show ?thesis by simp
next
  case (PutReceipt r x g)
  with assms handle_put_receipt_ok [of X svc r x g now revoked]
    handle_put_receipt_refused [of X svc r x g now revoked]
  show ?thesis
    by (cases "depositable X svc r x g now revoked") (auto simp: mailbox_frames)
next
  case (CollectReceipts r g)
  with assms handle_collect_cases [of X requester r g now revoked svc] show ?thesis
    by (auto simp: mailbox_frames)
qed

text \<open>How a request changes the queue it is about.\<close>

lemma handle_queue_change:
  assumes "handle X requester req now revoked svc = Returned (reply, svc')"
    and "queue_of r (ms_store svc') \<noteq> queue_of r (ms_store svc)"
  shows "(\<exists>e g. req = Deliver e g \<and> eb_to (en_body e) = r \<and> deliverable X svc e g now revoked \<and>
      reply = Delivered False \<and>
      queue_of r (ms_store svc') = keep_last (mb_capacity (ms_store svc))
        (queue_of r (ms_store svc) @ [\<lparr>se_envelope = e, se_stored_at = now\<rparr>])) \<or>
    (\<exists>n g. req = Ack r n g \<and> acts_for X requester r g now revoked \<and>
      queue_of r (ms_store svc') = drop n (queue_of r (ms_store svc)))"
proof -
  have r: "r = request_name req" using handle_frame [OF assms(1)] assms(2) by blast
  show ?thesis
  proof (cases req)
    case (Deliver e g)
    let ?x = "\<lparr>se_envelope = e, se_stored_at = now\<rparr>" and ?s = "ms_store svc"
    have d: "deliverable X svc e g now revoked"
      using handle_deliver_refused [of X svc e g now revoked] assms Deliver by fastforce
    from Deliver r have to: "eb_to (en_body e) = r" by simp
    have svc': "ms_store svc' = push_envelope X r ?x ?s"
      and reply: "reply = Delivered (stored_id X ?x \<in> seen_of r ?s)"
      using handle_deliver_ok [OF d] assms(1) Deliver to by (auto simp: stored_id_def)
    then have "stored_id X ?x \<notin> seen_of r ?s" using assms(2) inbox.push_dup by metis
    with d Deliver reply svc' to show ?thesis by (simp add: inbox.push_items)
  next
    case (Drain r n g)
    with assms handle_drain_unchanged [of X requester r n g now revoked svc] show ?thesis by simp
  next
    case (Ack r' n g)
    with assms r handle_ack_cases [of X requester r g now revoked n svc] show ?thesis
      by (auto simp: inbox.ack_items)
  next
    case (DrainPage r n m g)
    with assms handle_drain_page_unchanged [of X requester r n m g now revoked svc reply svc']
    show ?thesis by simp
  next
    case (PutReceipt r' x g)
    with assms handle_put_receipt_ok [of X svc r' x g now revoked]
      handle_put_receipt_refused [of X svc r' x g now revoked]
    show ?thesis
      by (cases "depositable X svc r' x g now revoked") (auto simp: mailbox_frames)
  next
    case (CollectReceipts r' g)
    with assms handle_collect_cases [of X requester r' g now revoked svc] show ?thesis
      by (auto simp: mailbox_frames)
  qed
qed

end
