(* ===== verification/Service_Properties.thy ===== *)
theory Service_Properties
  imports Mail_Service Mailbox_Properties
begin

text \<open>
  The properties of the mailbox service: the invariant of every run, the exact decision on a
  delivery, who may make a queue grow or shrink or read it, isolation between recipients, error
  replies, panics, page sizes, and the identity of an inbox.
\<close>

section \<open>Sample service\<close>

text \<open>Bob's grant to the mailbox, valid until second 100.\<close>

definition bob_grant :: "sample_cap list" where
  "bob_grant =
     [\<lparr>cap_issuer = bob, cap_audience = mailbox_seed, cap_accepts = True, cap_expiry = 100, cap_nonce = 1\<rparr>]"

definition sample_service :: MailService where
  "sample_service = with_limits sample_store (default_limits\<lparr>max_page := 3\<rparr>)"

abbreviation none_revoked :: "node_id \<Rightarrow> u64 \<Rightarrow> bool" where
  "none_revoked \<equiv> \<lambda>_ _. False"

definition served :: MailService where
  "served = snd (handle_deliver sample (sample_mail 5) bob_grant 10 none_revoked sample_service)"

lemma bob_grant_accepts: "accepts_for sample sample_store bob_hex bob_grant 10 none_revoked"
proof -
  have "parse_node_id sample bob_hex = Inr (node_id_of sample bob)"
    unfolding bob_hex_def by (rule parse_node_id_hex [OF sample_hex_ok sample_identity_ok])
  then show ?thesis
    by (simp add: accepts_for_def bob_grant_def sample_store_def new_store_def)
      (simp add: sample_def s_authorize_def mailbox_seed_def bob_def)
qed

lemma encoded_len_sample: "encoded_len sample e = min (length (put (sv_envelope e))) usize_max"
  by (simp add: encoded_len_def sample_def s_size_def Let_def min_def usize_max_def usize_limit_def)

lemma sample_mail_size: "length (put (sv_envelope (sample_mail 5))) \<le> 1000"
  by code_simp

lemma sample_mail_fields:
  "eb_subject (en_body (sample_mail t)) = ''hi''" "eb_body_cid (en_body (sample_mail t)) = ''c1''"
  "eb_attachment_cids (en_body (sample_mail t)) = []" "eb_in_reply_to (en_body (sample_mail t)) = []"
  "eb_postage_receipt (en_body (sample_mail t)) = []"
  by (simp_all add: sample_mail_def seal_envelope_def Let_def sample_body_def)

lemma sample_deliverable: "deliverable sample sample_service (sample_mail 5) bob_grant 10 none_revoked"
  using sample_mail_verifies bob_grant_accepts bob_hex_nonempty
    order_trans [OF sample_mail_size, of 262144]
  by (simp add: deliverable_def within_limits_def encoded_len_sample sample_mail_size sample_service_def
      with_limits_def sample_mail_to sample_mail_fields attachment_count_def default_limits_def)

lemma sample_delivery:
  "handle sample (node_id_of sample alice) (Deliver (sample_mail 5) bob_grant) 10 none_revoked sample_service =
     Returned (Delivered False, sample_service\<lparr>ms_store := one_mail\<rparr>)"
  using handle_deliver_ok [OF sample_deliverable] sample_mail_verifies bob_hex_nonempty
  by (simp add: sample_service_def with_limits_def sample_mail_to one_mail_def accept_cases)
    (simp add: sample_store_def new_store_def)

lemma sample_run: "service_run sample sample_service (sample_service\<lparr>ms_store := one_mail\<rparr>)"
  by (rule service_run.request [OF service_run.idle sample_delivery])

lemma sample_run_from_new:
  "service_run sample (with_limits (new_store (node_id_of sample mailbox_seed) 2) (default_limits\<lparr>max_page := 3\<rparr>))
     (sample_service\<lparr>ms_store := one_mail\<rparr>)"
  using sample_run by (simp only: sample_service_def sample_store_def)

section \<open>Properties\<close>

text \<open>C3: whatever requests a mailbox serves, from a fresh store on: every queue holds only authentic
  envelopes addressed to it, none twice, and no queue of envelopes or receipts and no receipt index
  exceeds the capacity.\<close>

theorem service_invariant:
  assumes "service_run X (with_limits (new_store self_id cap) l) svc"
  shows "mailbox_ok X (ms_store svc) \<and> ms_limits svc = l \<and>
    (\<forall>r. pending_count r (ms_store svc) \<le> max cap 1 \<and> receipt_count r (ms_store svc) \<le> max cap 1 \<and>
      card (receipt_keys_of r (ms_store svc)) \<le> max cap 1)"
proof -
  let ?s = "ms_store svc"
  have "service_ok X (with_limits (new_store self_id cap) l)"
    by (simp add: service_ok_def with_limits_def new_store_ok)
  from service_run_ok [OF assms this]
  have ok: "mailbox_ok X ?s" and l: "ms_limits svc = l" and c: "mb_capacity ?s = max cap 1"
    by (simp_all add: service_ok_def with_limits_def new_store_def)
  have "pending_count r ?s = length (queue_of r ?s)" "receipt_count r ?s = length (receipts_of r ?s)" for r
    by (simp_all add: pending_count_def receipt_count_def fm_get_def split: option.splits)
  moreover have "card (receipt_keys_of r ?s) \<le> mb_capacity ?s" for r
    by (rule receipt_box.exact_bounded(2) [OF mailbox_ok_queue_inv(2,3) [OF ok]])
  ultimately show ?thesis
    using ok l c mailbox_okD(2,3) [OF ok] by (simp add: inbox_ok_def receipt_box_ok_def)
qed

lemma service_invariant_witness:
  "mailbox_ok sample (ms_store (sample_service\<lparr>ms_store := one_mail\<rparr>))"
  using service_invariant [OF sample_run_from_new] by simp

text \<open>C31: a delivery is decided exactly: it is stored (or recognised as a duplicate) when the envelope is
  within the limits, the mailbox holds a valid grant of the recipient, the signature verifies and the
  recipient is named; in every other case the reply is an error and nothing changes.\<close>

theorem deliver_decision:
  "(deliverable X svc e grant now revoked \<longrightarrow>
      handle X requester (Deliver e grant) now revoked svc =
        Returned (Delivered (envelope_message_id X e \<in> seen_of (eb_to (en_body e)) (ms_store svc)),
          svc\<lparr>ms_store := snd (accept X e now (ms_store svc))\<rparr>)) \<and>
   (\<not> deliverable X svc e grant now revoked \<longrightarrow>
      (\<exists>m. handle X requester (Deliver e grant) now revoked svc = Returned (Error m, svc)))"
  using handle_deliver_ok [of X svc e grant now revoked] handle_deliver_refused [of X svc e grant now revoked]
  by (auto simp: accept_cases deliverable_def)

lemma deliver_decision_witness:
  "handle sample (node_id_of sample alice) (Deliver (sample_mail 5) bob_grant) 10 none_revoked sample_service =
     Returned (Delivered False, sample_service\<lparr>ms_store := one_mail\<rparr>) \<and>
   (\<exists>m. handle sample (node_id_of sample alice) (Deliver (sample_mail 5) []) 10 none_revoked sample_service =
     Returned (Error m, sample_service))"
proof
  have fresh: "seen_of bob_hex (ms_store sample_service) = {}"
    by (simp add: sample_service_def with_limits_def sample_store_def new_store_def)
  show "handle sample (node_id_of sample alice) (Deliver (sample_mail 5) bob_grant) 10 none_revoked sample_service =
      Returned (Delivered False, sample_service\<lparr>ms_store := one_mail\<rparr>)"
    using deliver_decision [of sample sample_service "sample_mail 5" bob_grant 10 none_revoked
        "node_id_of sample alice"] sample_deliverable fresh
    by (simp add: sample_mail_to one_mail_def) (simp add: sample_service_def with_limits_def)
  have "\<not> deliverable sample sample_service (sample_mail 5) [] 10 none_revoked"
    by (simp add: deliverable_def accepts_for_def sample_def s_authorize_def)
  with deliver_decision [of sample sample_service "sample_mail 5" "[]" 10 none_revoked
        "node_id_of sample alice"]
  show "\<exists>m. handle sample (node_id_of sample alice) (Deliver (sample_mail 5) []) 10 none_revoked sample_service =
     Returned (Error m, sample_service)" by blast
qed

text \<open>C4: mail appears in an inbox only with the recipient's consent: an envelope that a request adds to
  the queue of \<open>r\<close> was delivered by that request, is addressed to \<open>r\<close>, authentic and within the limits,
  and came with a valid grant from \<open>r\<close> to this mailbox.\<close>

theorem mail_needs_consent:
  assumes "handle X requester req now revoked svc = Returned (reply, svc')"
    and "x \<in> set (queue_of r (ms_store svc'))" and "x \<notin> set (queue_of r (ms_store svc))"
  shows "\<exists>grant. req = Deliver (se_envelope x) grant \<and> se_stored_at x = now \<and>
    eb_to (en_body (se_envelope x)) = r \<and> accepts_for X (ms_store svc) r grant now revoked \<and>
    verify_envelope X (se_envelope x) = Inr () \<and> within_limits X (ms_limits svc) (se_envelope x)"
proof -
  have "queue_of r (ms_store svc') \<noteq> queue_of r (ms_store svc)" using assms(2,3) by auto
  from handle_queue_change [OF assms(1) this] show ?thesis
  proof
    assume "\<exists>n g. req = Ack r n g \<and> acts_for X requester r g now revoked \<and>
      queue_of r (ms_store svc') = drop n (queue_of r (ms_store svc))"
    then obtain n where "queue_of r (ms_store svc') = drop n (queue_of r (ms_store svc))" by blast
    with assms(2,3) show ?thesis using set_drop_subset [of n "queue_of r (ms_store svc)"] by auto
  next
    assume "\<exists>e g. req = Deliver e g \<and> eb_to (en_body e) = r \<and> deliverable X svc e g now revoked \<and>
      reply = Delivered False \<and> queue_of r (ms_store svc') = keep_last (mb_capacity (ms_store svc))
        (queue_of r (ms_store svc) @ [\<lparr>se_envelope = e, se_stored_at = now\<rparr>])"
    then obtain e g where d: "req = Deliver e g" "eb_to (en_body e) = r" "deliverable X svc e g now revoked"
      and q: "queue_of r (ms_store svc') = keep_last (mb_capacity (ms_store svc))
        (queue_of r (ms_store svc) @ [\<lparr>se_envelope = e, se_stored_at = now\<rparr>])" by blast
    have "x = \<lparr>se_envelope = e, se_stored_at = now\<rparr>"
      using assms(2,3) q set_keep_last [of "mb_capacity (ms_store svc)"
        "queue_of r (ms_store svc) @ [\<lparr>se_envelope = e, se_stored_at = now\<rparr>]"] by auto
    with d show ?thesis by (simp add: deliverable_def)
  qed
qed

lemma mail_needs_consent_witness:
  "accepts_for sample (ms_store sample_service) bob_hex bob_grant 10 none_revoked"
proof -
  have after: "\<lparr>se_envelope = sample_mail 5, se_stored_at = 10\<rparr> \<in>
      set (queue_of bob_hex (ms_store (sample_service\<lparr>ms_store := one_mail\<rparr>)))"
    by (simp add: one_mail_queue)
  have before: "\<lparr>se_envelope = sample_mail 5, se_stored_at = 10\<rparr> \<notin> set (queue_of bob_hex (ms_store sample_service))"
    by (simp add: sample_service_def with_limits_def sample_store_def new_store_def)
  from mail_needs_consent [OF sample_delivery after before] show ?thesis by simp
qed

text \<open>C5: mail leaves an inbox in two ways only: an acknowledgement by the recipient itself or by its
  delegate, of a prefix that contains the message; or the eviction of the oldest entry by a delivery
  to a full inbox.\<close>

theorem mail_removed_only_by:
  assumes "mailbox_ok X (ms_store svc)"
    and "handle X requester req now revoked svc = Returned (reply, svc')"
    and "x \<in> set (queue_of r (ms_store svc))" and "x \<notin> set (queue_of r (ms_store svc'))"
  shows "(\<exists>n grant. req = Ack r n grant \<and> acts_for X requester r grant now revoked \<and>
      x \<in> set (take n (queue_of r (ms_store svc)))) \<or>
    (\<exists>e grant. req = Deliver e grant \<and> eb_to (en_body e) = r \<and>
      pending_count r (ms_store svc) = mb_capacity (ms_store svc) \<and> x = hd (queue_of r (ms_store svc)))"
proof -
  let ?q = "queue_of r (ms_store svc)" and ?c = "mb_capacity (ms_store svc)"
  have "queue_of r (ms_store svc') \<noteq> ?q" using assms(3,4) by auto
  from handle_queue_change [OF assms(2) this] show ?thesis
  proof
    assume "\<exists>n g. req = Ack r n g \<and> acts_for X requester r g now revoked \<and>
      queue_of r (ms_store svc') = drop n ?q"
    then obtain n g where a: "req = Ack r n g" "acts_for X requester r g now revoked"
      and q: "queue_of r (ms_store svc') = drop n ?q" by blast
    have "x \<in> set (take n ?q) \<union> set (drop n ?q)" using assms(3) by (metis append_take_drop_id set_append)
    with a q assms(4) show ?thesis by auto
  next
    assume "\<exists>e g. req = Deliver e g \<and> eb_to (en_body e) = r \<and> deliverable X svc e g now revoked \<and>
      reply = Delivered False \<and> queue_of r (ms_store svc') =
        keep_last ?c (?q @ [\<lparr>se_envelope = e, se_stored_at = now\<rparr>])"
    then obtain e g where d: "req = Deliver e g" "eb_to (en_body e) = r"
      and q: "queue_of r (ms_store svc') = keep_last ?c (?q @ [\<lparr>se_envelope = e, se_stored_at = now\<rparr>])" by blast
    have bound: "length ?q \<le> ?c" using mailbox_okD(2) [OF assms(1), of r] by (simp add: inbox_ok_def)
    have full: "length ?q = ?c"
    proof (rule ccontr)
      assume "length ?q \<noteq> ?c"
      with bound q assms(3,4) show False by (simp add: keep_last_all)
    qed
    obtain y ys where ys: "?q = y # ys" using assms(3) by (cases "queue_of r (ms_store svc)") auto
    have "set ys \<subseteq> set (queue_of r (ms_store svc'))"
      unfolding q keep_last_def using full ys by (auto simp: Suc_diff_le)
    then have "x = hd ?q" using assms(3,4) ys by auto
    moreover have "pending_count r (ms_store svc) = length ?q"
      by (simp add: pending_count_def fm_get_def split: option.splits)
    ultimately have "pending_count r (ms_store svc) = ?c \<and> x = hd ?q" using full by simp
    with d show ?thesis by blast
  qed
qed

lemma sample_ack:
  "handle sample (node_id_of sample bob) (Ack bob_hex 1 []) 20 none_revoked (sample_service\<lparr>ms_store := one_mail\<rparr>) =
     Returned (Acked 1, sample_service\<lparr>ms_store := snd (ack bob_hex 1 one_mail)\<rparr>)"
proof -
  have "parse_node_id sample bob_hex = Inr (node_id_of sample bob)"
    unfolding bob_hex_def by (rule parse_node_id_hex [OF sample_hex_ok sample_identity_ok])
  then have "acts_for sample (node_id_of sample bob) bob_hex [] 20 none_revoked" by (simp add: acts_for_def)
  with handle_ack_cases [of sample "node_id_of sample bob" bob_hex "[]" 20 none_revoked 1
      "sample_service\<lparr>ms_store := one_mail\<rparr>"]
  show ?thesis by (simp add: ack_count one_mail_queue)
qed

lemma mail_removed_only_by_witness:
  "\<exists>n grant. Ack bob_hex 1 [] = Ack bob_hex n grant \<and>
     acts_for sample (node_id_of sample bob) bob_hex grant 20 none_revoked"
proof -
  have before: "\<lparr>se_envelope = sample_mail 5, se_stored_at = 10\<rparr> \<in>
      set (queue_of bob_hex (ms_store (sample_service\<lparr>ms_store := one_mail\<rparr>)))"
    by (simp add: one_mail_queue)
  have after: "\<lparr>se_envelope = sample_mail 5, se_stored_at = 10\<rparr> \<notin>
      set (queue_of bob_hex (ms_store (sample_service\<lparr>ms_store := snd (ack bob_hex 1 one_mail)\<rparr>)))"
    by (simp add: inbox.ack_items one_mail_queue)
  have "mailbox_ok sample (ms_store (sample_service\<lparr>ms_store := one_mail\<rparr>))"
    by (simp add: one_mail_ok)
  from mail_removed_only_by [OF this sample_ack before after] show ?thesis by auto
qed

text \<open>C13: what a reply gives away, or an acknowledgement removes, belongs to a name the requester acts for
  (its own node id, or one that granted it the ability), and is exactly that name's stored mail or
  receipts; a page never exceeds the page limit.\<close>

theorem replies_need_authority:
  assumes "handle X requester req now revoked svc = Returned (reply, svc')"
  shows "case reply of
      Drained es c \<Rightarrow> \<exists>r since grant. req = Drain r since grant \<and> acts_for X requester r grant now revoked \<and>
        es = map se_envelope (drop since (queue_of r (ms_store svc)))
    | Page es c further \<Rightarrow> \<exists>r since limit grant. req = DrainPage r since limit grant \<and>
        acts_for X requester r grant now revoked \<and> length es \<le> max_page (ms_limits svc) \<and>
        es = map se_envelope (take (length es) (drop since (queue_of r (ms_store svc))))
    | Acked n \<Rightarrow> \<exists>r upto grant. req = Ack r upto grant \<and> acts_for X requester r grant now revoked \<and>
        n = min upto (length (queue_of r (ms_store svc)))
    | Receipts rs \<Rightarrow> \<exists>r grant. req = CollectReceipts r grant \<and> acts_for X requester r grant now revoked \<and>
        rs = receipts_of r (ms_store svc)
    | _ \<Rightarrow> True"
proof (cases req)
  case (Deliver e g)
  with assms handle_deliver_ok [of X svc e g now revoked] handle_deliver_refused [of X svc e g now revoked]
  show ?thesis by (cases "deliverable X svc e g now revoked") auto
next
  case (Drain r n g)
  have "fst (read_from r n (ms_store svc)) = drop n (queue_of r (ms_store svc))"
    by (simp add: read_from_def fm_get_def split: option.splits)
  with assms Drain handle_drain_cases [of X requester r g now revoked n svc] show ?thesis
    by (auto split: prod.splits)
next
  case (Ack r n g)
  with assms handle_ack_cases [of X requester r g now revoked n svc] show ?thesis
    by (auto simp: ack_count)
next
  case (DrainPage r n m g)
  show ?thesis
  proof (cases "acts_for X requester r g now revoked")
    case True
    then obtain k xs c further where k: "clamp_page (ms_limits svc) m = Returned k"
      and page: "read_page r n k (ms_store svc) = Returned (xs, c, further)"
      and reply: "reply = Page (map se_envelope xs) c further"
      using assms DrainPage handle_drain_page_cases [of X requester r g now revoked n m svc]
      by (auto split: prod.splits)
    have "length xs \<le> max_page (ms_limits svc) \<and> xs = take (length xs) (drop n (queue_of r (ms_store svc)))"
      using page clamp_page_bounds [OF k] by (auto simp: read_page_result split: if_splits)
    with True DrainPage reply show ?thesis by (simp add: take_map drop_map)
  next
    case False
    with assms DrainPage handle_drain_page_cases [of X requester r g now revoked n m svc]
    show ?thesis by auto
  qed
next
  case (PutReceipt r x g)
  with assms handle_put_receipt_ok [of X svc r x g now revoked]
    handle_put_receipt_refused [of X svc r x g now revoked]
  show ?thesis by (cases "depositable X svc r x g now revoked") auto
next
  case (CollectReceipts r g)
  with assms handle_collect_cases [of X requester r g now revoked svc] show ?thesis by auto
qed

lemma replies_need_authority_witness:
  "acts_for sample (node_id_of sample bob) bob_hex [] 20 none_revoked"
  using replies_need_authority [OF sample_ack] by simp

text \<open>A request touches the mail and receipts of the one name it carries; everyone else's stay as
  they are.\<close>

lemma requests_are_isolated:
  assumes "handle X requester req now revoked svc = Returned (reply, svc')" and "r \<noteq> request_name req"
  shows "queue_of r (ms_store svc') = queue_of r (ms_store svc) \<and>
    receipts_of r (ms_store svc') = receipts_of r (ms_store svc)"
  by (rule handle_frame [OF assms])

lemma requests_are_isolated_witness:
  "queue_of ''aa'' (ms_store (sample_service\<lparr>ms_store := one_mail\<rparr>)) = []"
proof -
  have "''aa'' \<noteq> request_name (Deliver (sample_mail 5) bob_grant)"
    by (simp add: sample_mail_to) code_simp
  from requests_are_isolated [OF sample_delivery this] show ?thesis
    by (simp add: sample_service_def with_limits_def sample_store_def new_store_def)
qed

text \<open>An error reply, and the reply to a read, leave the whole service as it was.\<close>

lemma errors_and_reads_change_nothing:
  assumes "handle X requester req now revoked svc = Returned (reply, svc')"
    and "is_error reply \<or> (\<exists>r n g. req = Drain r n g) \<or> (\<exists>r n m g. req = DrainPage r n m g)"
  shows "svc' = svc"
proof (cases "is_error reply")
  case True
  then obtain m where "reply = Error m" by (cases reply) auto
  with assms(1) show ?thesis using handle_error_unchanged by blast
next
  case False
  with assms(2) consider r n g where "req = Drain r n g" | r n m g where "req = DrainPage r n m g" by blast
  then show ?thesis
  proof cases
    case 1
    with assms(1) handle_drain_unchanged [of X requester] show ?thesis by (metis handle.simps(2) outcome.inject snd_conv)
  next
    case 2
    with assms(1) handle_drain_page_unchanged [of X requester] show ?thesis by simp
  qed
qed

lemma errors_and_reads_change_nothing_witness:
  "\<exists>m. handle sample (node_id_of sample alice) (Deliver (sample_mail 5) []) 10 none_revoked sample_service =
     Returned (Error m, sample_service)"
proof -
  have "\<not> deliverable sample sample_service (sample_mail 5) [] 10 none_revoked"
    by (simp add: deliverable_def accepts_for_def sample_def s_authorize_def)
  then obtain m svc' where r: "handle sample (node_id_of sample alice) (Deliver (sample_mail 5) []) 10
      none_revoked sample_service = Returned (Error m, svc')"
    using handle_deliver_refused [of sample sample_service "sample_mail 5" "[]" 10 none_revoked] by auto
  moreover have "svc' = sample_service"
    by (rule errors_and_reads_change_nothing [OF r]) simp
  ultimately show ?thesis by simp
qed

text \<open>C26: with a page limit of at least one, and a capacity that leaves room for a page in the address
  space, a mailbox that has served any requests answers the next one: it never panics.\<close>

theorem service_never_panics:
  assumes "service_run X (with_limits (new_store self_id cap) l) svc"
    and "1 \<le> max_page l" and "max cap 1 + max_page l \<le> usize_limit"
  shows "\<exists>reply svc'. handle X requester req now revoked svc = Returned (reply, svc')"
proof (rule handle_returns)
  have "service_ok X (with_limits (new_store self_id cap) l)"
    by (simp add: service_ok_def with_limits_def new_store_ok)
  from service_run_ok [OF assms(1) this]
  have ok: "mailbox_ok X (ms_store svc)" and l: "ms_limits svc = l"
    and c: "mb_capacity (ms_store svc) = max cap 1"
    by (simp_all add: service_ok_def with_limits_def new_store_def)
  show "1 \<le> max_page (ms_limits svc)" using assms(2) l by simp
  show "length (queue_of r (ms_store svc)) + max_page (ms_limits svc) \<le> usize_limit" for r
    using assms(3) l c mailbox_okD(2) [OF ok, of r] by (simp add: inbox_ok_def)
qed

lemma service_never_panics_witness:
  "\<exists>reply svc'. handle sample (node_id_of sample bob) (DrainPage bob_hex 0 7 []) 20 none_revoked
     (sample_service\<lparr>ms_store := one_mail\<rparr>) = Returned (reply, svc')"
  by (rule service_never_panics [OF sample_run_from_new])
    (simp_all add: default_limits_def usize_limit_def)

text \<open>A service configured with a page limit of zero panics on the first authorized page request.\<close>

lemma zero_page_limit_panics:
  assumes "max_page (ms_limits svc) = 0" and "acts_for X requester r grant now revoked"
  shows "handle X requester (DrainPage r since limit grant) now revoked svc = Panicked"
  using handle_drain_page_cases [of X requester r grant now revoked since limit svc] assms
  by (simp add: clamp_page_def)

lemma zero_page_limit_panics_witness:
  "handle sample (node_id_of sample bob) (DrainPage bob_hex 0 7 []) 20 none_revoked
     (with_limits one_mail (default_limits\<lparr>max_page := 0\<rparr>)) = Panicked"
proof (rule zero_page_limit_panics)
  have "parse_node_id sample bob_hex = Inr (node_id_of sample bob)"
    unfolding bob_hex_def by (rule parse_node_id_hex [OF sample_hex_ok sample_identity_ok])
  then show "acts_for sample (node_id_of sample bob) bob_hex [] 20 none_revoked" by (simp add: acts_for_def)
qed (simp add: with_limits_def)

text \<open>C34: an inbox is named by the spelling of its node id, not by the id: mail accepted under another
  spelling of the recipient's id is not in what the recipient reads under its own.\<close>

theorem spelling_splits_inbox:
  assumes "deliverable X svc e grant now revoked"
    and "parse_node_id X (eb_to (en_body e)) = Inr n" and "parse_node_id X r = Inr n"
    and "r \<noteq> eb_to (en_body e)"
  shows "\<exists>svc' duplicate. handle X requester (Deliver e grant) now revoked svc = Returned (Delivered duplicate, svc') \<and>
    handle X n (Drain r 0 []) later revoked svc' =
      Returned (Drained (map se_envelope (queue_of r (ms_store svc))) (pending_count r (ms_store svc)), svc')"
proof -
  obtain d svc' where h: "handle X requester (Deliver e grant) now revoked svc = Returned (Delivered d, svc')"
    using handle_deliver_ok [OF assms(1)] by simp
  have q: "queue_of r (ms_store svc') = queue_of r (ms_store svc)"
    using handle_frame [OF h] assms(4) by simp
  have "acts_for X n r [] later revoked" using assms(3) by (simp add: acts_for_def)
  moreover have "read_from r 0 (ms_store svc') =
      (queue_of r (ms_store svc'), length (queue_of r (ms_store svc')))"
    by (simp add: read_from_def fm_get_def split: option.splits)
  moreover have "pending_count r (ms_store svc) = length (queue_of r (ms_store svc))"
    by (simp add: pending_count_def fm_get_def split: option.splits)
  ultimately have "handle X n (Drain r 0 []) later revoked svc' =
      Returned (Drained (map se_envelope (queue_of r (ms_store svc))) (pending_count r (ms_store svc)), svc')"
    using handle_drain_cases [of X n r "[]" later revoked 0 svc'] q by simp
  with h show ?thesis by blast
qed

definition spaced_hex :: string where
  "spaced_hex = CHR '' '' # bob_hex"

definition spaced_mail :: Envelope where
  "spaced_mail = seal_envelope sample alice ((sample_body 5)\<lparr>eb_to := spaced_hex\<rparr>)"

lemma spaced_parse: "parse_node_id sample spaced_hex = Inr (node_id_of sample bob)"
  by code_simp

lemma spaced_deliverable: "deliverable sample sample_service spaced_mail bob_grant 10 none_revoked"
proof -
  have "accepts_for sample sample_store spaced_hex bob_grant 10 none_revoked"
    using spaced_parse
    by (simp add: accepts_for_def bob_grant_def sample_store_def new_store_def)
      (simp add: sample_def s_authorize_def mailbox_seed_def bob_def)
  moreover have "length (put (sv_envelope spaced_mail)) \<le> 1000" by code_simp
  moreover have "verify_envelope sample spaced_mail = Inr ()"
    unfolding spaced_mail_def by (rule seal_envelope_verifies [OF sample_hex_ok sample_identity_ok])
  ultimately show ?thesis
    by (simp add: deliverable_def within_limits_def encoded_len_sample sample_service_def with_limits_def
        spaced_mail_def seal_envelope_def Let_def sample_body_def attachment_count_def default_limits_def
        spaced_hex_def)
qed

lemma spelling_splits_inbox_witness:
  "\<exists>svc' duplicate. handle sample (node_id_of sample alice) (Deliver spaced_mail bob_grant) 10 none_revoked
       sample_service = Returned (Delivered duplicate, svc') \<and>
     handle sample (node_id_of sample bob) (Drain bob_hex 0 []) 20 none_revoked svc' =
       Returned (Drained (map se_envelope (queue_of bob_hex (ms_store sample_service)))
         (pending_count bob_hex (ms_store sample_service)), svc')"
proof (rule spelling_splits_inbox [OF spaced_deliverable])
  have to: "eb_to (en_body spaced_mail) = spaced_hex"
    by (simp add: spaced_mail_def seal_envelope_def Let_def)
  show "parse_node_id sample (eb_to (en_body spaced_mail)) = Inr (node_id_of sample bob)"
    unfolding to by (rule spaced_parse)
  show "parse_node_id sample bob_hex = Inr (node_id_of sample bob)"
    unfolding bob_hex_def by (rule parse_node_id_hex [OF sample_hex_ok sample_identity_ok])
  show "bob_hex \<noteq> eb_to (en_body spaced_mail)" unfolding to spaced_hex_def by simp
qed

end
