(* ===== verification/Rust_Ordering.thy ===== *)
theory Rust_Ordering
  imports Mail_Prelude "HOL-Library.Multiset"
begin

text \<open>
  \<open>std::cmp::Ordering\<close>, comparators composed with \<open>then_with\<close>, and the stable \<open>slice::sort_by\<close>. The
  locale \<open>comparator\<close> is what \<open>sort_by\<close> requires of its closure, a total preorder; from it follow that
  the result is a sorted permutation, and that it depends on the multiset of elements only when
  equal elements are the same.
\<close>

section \<open>Orderings\<close>

datatype ordering = Less | Equal | Greater

definition compare :: "'a :: linorder \<Rightarrow> 'a \<Rightarrow> ordering" where
  "compare a b = (if a < b then Less else if a = b then Equal else Greater)"

fun reversed :: "ordering \<Rightarrow> ordering" where
  "reversed Less = Greater"
| "reversed Equal = Equal"
| "reversed Greater = Less"

fun then_with :: "ordering \<Rightarrow> ordering \<Rightarrow> ordering" where
  "then_with Equal o2 = o2"
| "then_with o1 _ = o1"

lemma reversed_simps [simp]:
  "reversed o1 = Equal \<longleftrightarrow> o1 = Equal" "reversed (reversed o1) = o1"
  "reversed (then_with o1 o2) = then_with (reversed o1) (reversed o2)"
  by (cases o1; simp)+

lemma then_with_Equal [simp]: "then_with o1 o2 = Equal \<longleftrightarrow> o1 = Equal \<and> o2 = Equal"
  by (cases o1) auto

lemma compare_simps [simp]:
  "compare a b = Equal \<longleftrightarrow> a = b" "compare a b = Less \<longleftrightarrow> a < b" "compare a b = Greater \<longleftrightarrow> b < a"
  "compare a a = Equal"
  by (auto simp: compare_def)

lemma compare_swap: "compare b a = reversed (compare a b)"
  by (auto simp: compare_def)

section \<open>Sorting\<close>

fun insert_by :: "('a \<Rightarrow> 'a \<Rightarrow> ordering) \<Rightarrow> 'a \<Rightarrow> 'a list \<Rightarrow> 'a list" where
  "insert_by cmp x [] = [x]"
| "insert_by cmp x (y # ys) = (if cmp x y = Greater then y # insert_by cmp x ys else x # y # ys)"

definition sort_by :: "('a \<Rightarrow> 'a \<Rightarrow> ordering) \<Rightarrow> 'a list \<Rightarrow> 'a list" where
  "sort_by cmp xs = foldr (insert_by cmp) xs []"

lemma mset_insert_by [simp]: "mset (insert_by cmp x ys) = add_mset x (mset ys)"
  by (induction ys) auto

lemma mset_sort_by [simp]: "mset (sort_by cmp xs) = mset xs"
  by (induction xs) (auto simp: sort_by_def)

lemma set_sort_by [simp]: "set (sort_by cmp xs) = set xs"
  using mset_sort_by by (metis set_mset_mset)

lemma sort_by_Nil [simp]: "sort_by cmp xs = [] \<longleftrightarrow> xs = []"
  by (metis mset_sort_by mset_zero_iff)

lemma length_sort_by [simp]: "length (sort_by cmp xs) = length xs"
  by (metis mset_sort_by size_mset)

locale comparator =
  fixes cmp :: "'a \<Rightarrow> 'a \<Rightarrow> ordering"
  assumes swap: "cmp b a = reversed (cmp a b)"
    and trans: "cmp a b \<noteq> Greater \<Longrightarrow> cmp b c \<noteq> Greater \<Longrightarrow> cmp a c \<noteq> Greater"
begin

definition sorted_by :: "'a list \<Rightarrow> bool" where
  "sorted_by = sorted_wrt (\<lambda>a b. cmp a b \<noteq> Greater)"

lemma not_greater: "cmp a b = Greater \<Longrightarrow> cmp b a \<noteq> Greater"
  by (simp add: swap [of b a])

lemma insert_sorted: "sorted_by ys \<Longrightarrow> sorted_by (insert_by cmp x ys)"
proof (induction ys)
  case (Cons y ys)
  have members: "set (insert_by cmp x ys) = insert x (set ys)"
    by (metis mset_insert_by set_mset_add_mset_insert set_mset_mset)
  show ?case
  proof (cases "cmp x y = Greater")
    case True
    with Cons members not_greater [OF True] show ?thesis by (auto simp: sorted_by_def)
  next
    case False
    then have "cmp x z \<noteq> Greater" if "z \<in> set ys" for z
      using Cons.prems that trans [of x y z] by (auto simp: sorted_by_def)
    with False Cons.prems show ?thesis by (auto simp: sorted_by_def)
  qed
qed (simp add: sorted_by_def)

lemma sort_sorted: "sorted_by (sort_by cmp xs)"
  by (induction xs) (auto simp: sort_by_def insert_sorted, simp add: sorted_by_def)

text \<open>A sorted list is determined by its elements, if elements that compare equal are equal.\<close>

lemma sorted_unique:
  assumes "sorted_by xs" and "sorted_by ys" and "mset xs = mset ys"
    and "\<And>a b. a \<in> set xs \<Longrightarrow> b \<in> set xs \<Longrightarrow> cmp a b = Equal \<Longrightarrow> a = b"
  shows "xs = ys"
  using assms
proof (induction xs arbitrary: ys)
  case (Cons x xs)
  then obtain y ys' where ys: "ys = y # ys'" by (cases ys) auto
  have sets: "set (x # xs) = set (y # ys')" using Cons.prems(3) ys by (metis set_mset_mset)
  have "x = y"
  proof (rule ccontr)
    assume ne: "x \<noteq> y"
    with sets have x: "x \<in> set ys'" and y: "y \<in> set xs" by auto
    then have "cmp y x \<noteq> Greater" and "cmp x y \<noteq> Greater"
      using Cons.prems(1,2) ys by (auto simp: sorted_by_def)
    then have "cmp x y = Equal" using swap [of y x] by (cases "cmp x y") auto
    with Cons.prems(4) [of x y] y ne show False by auto
  qed
  moreover have "xs = ys'"
    using Cons.prems ys \<open>x = y\<close> by (intro Cons.IH) (auto simp: sorted_by_def)
  ultimately show ?case using ys by simp
qed simp

lemma sort_unique:
  assumes "mset xs = mset ys" and "\<And>a b. a \<in> set xs \<Longrightarrow> b \<in> set xs \<Longrightarrow> cmp a b = Equal \<Longrightarrow> a = b"
  shows "sort_by cmp xs = sort_by cmp ys"
  by (rule sorted_unique) (use assms in \<open>auto simp: sort_sorted\<close>)

end

text \<open>Comparators by key, reversed and lexicographic.\<close>

interpretation key_order: comparator "\<lambda>a b. compare (f a) (f b)" for f :: "'a \<Rightarrow> 'b :: linorder"
  by unfold_locales (simp_all add: compare_swap [symmetric] not_less)

lemma comparator_reversed: "comparator cmp \<Longrightarrow> comparator (\<lambda>a b. cmp b a)"
  unfolding comparator_def by blast

lemma comparator_then_with:
  assumes "comparator c" and "comparator d"
  shows "comparator (\<lambda>a b. then_with (c a b) (d a b))"
proof
  note c = comparator.swap [OF assms(1)] comparator.trans [OF assms(1)]
  note d = comparator.swap [OF assms(2)] comparator.trans [OF assms(2)]
  show "then_with (c b a) (d b a) = reversed (then_with (c a b) (d a b))" for a b
    by (simp add: c(1) [of b a] d(1) [of b a])
  show "then_with (c x z) (d x z) \<noteq> Greater"
    if xy: "then_with (c x y) (d x y) \<noteq> Greater" and yz: "then_with (c y z) (d y z) \<noteq> Greater" for x y z
  proof -
    have "c x y \<noteq> Greater" "c y z \<noteq> Greater" using xy yz by auto
    then have xz: "c x z \<noteq> Greater" by (rule c(2))
    have "d x z \<noteq> Greater" if eq: "c x z = Equal"
    proof -
      have zx: "c z x \<noteq> Greater" using c(1) [of z x] eq by simp
      have "c y x \<noteq> Greater" using c(2) [OF \<open>c y z \<noteq> Greater\<close> zx] .
      then have "c x y = Equal" using c(1) [of y x] \<open>c x y \<noteq> Greater\<close> by (cases "c x y") auto
      moreover have "c z y \<noteq> Greater" using c(2) [OF zx \<open>c x y \<noteq> Greater\<close>] .
      then have "c y z = Equal" using c(1) [of z y] \<open>c y z \<noteq> Greater\<close> by (cases "c y z") auto
      ultimately show ?thesis using xy yz d(2) [of x y z] by simp
    qed
    with xz show ?thesis by (cases "c x z") auto
  qed
qed

end
