(* ===== verification/Threads.thy ===== *)
theory Threads
  imports Envelopes Rust_Ordering "HOL-Library.Product_Lexorder"
begin

text \<open>
  Conversations (src/src/thread.rs): subject normalisation, the walk to a thread's root, and the
  partition of an inbox into ordered conversations. The lemmas describe the reply markers a subject
  loses, the root as the end of the reply chain, and the grouping as a sorted partition that does not
  depend on the order in which the intermediate \<open>HashMap\<close> is iterated.
\<close>

section \<open>Subjects\<close>

definition REPLY_PREFIXES :: "string list" where
  "REPLY_PREFIXES = [''re'', ''fwd'', ''fw'', ''aw'', ''sv'', ''vs'']"

definition strip_prefix_token :: "string \<Rightarrow> string \<Rightarrow> string \<Rightarrow> string option" where
  "strip_prefix_token lower orig p =
     (case strip_prefix p lower of
        None \<Rightarrow> None
      | Some rest \<Rightarrow>
        let counted =
          (case strip_prefix ''['' rest of
             Some after \<Rightarrow>
               (case find_char CHR '']'' after of
                  None \<Rightarrow> None
                | Some close \<Rightarrow>
                    if list_all is_ascii_digit (take close after) then Some (drop (close + 1) after)
                    else None)
           | None \<Rightarrow> Some rest)
        in case counted of
             None \<Rightarrow> None
           | Some rest \<Rightarrow>
             (case strip_prefix '':'' rest of
                None \<Rightarrow> None
              | Some rest \<Rightarrow>
                  let consumed = length orig - length rest
                  in Some (trim_start (drop consumed orig))))"

text \<open>The inner \<open>for\<close> loop: the first prefix that strips.\<close>

fun strip_first :: "string list \<Rightarrow> string \<Rightarrow> string \<Rightarrow> string option" where
  "strip_first [] lower s = None"
| "strip_first (p # ps) lower s =
     (case strip_prefix_token lower s p of
        Some rest \<Rightarrow> Some rest
      | None \<Rightarrow> strip_first ps lower s)"

text \<open>
  A reply marker, lower-case: a prefix, a count in brackets or none, a colon. Stripping succeeds
  exactly on a text that starts with one, and takes it off.
\<close>

definition marker_of :: "string \<Rightarrow> string \<Rightarrow> bool" where
  "marker_of p tok \<longleftrightarrow>
     tok = p @ '':'' \<or> (\<exists>ds. list_all is_ascii_digit ds \<and> tok = p @ ''['' @ ds @ '']:'')"

definition reply_marker :: "string \<Rightarrow> bool" where
  "reply_marker tok \<longleftrightarrow> (\<exists>p \<in> set REPLY_PREFIXES. marker_of p tok)"

lemma digit_not_bracket: "list_all is_ascii_digit ds \<Longrightarrow> CHR '']'' \<notin> set ds"
  by (auto simp: list_all_iff is_ascii_digit_def)

lemma strip_prefix_single: "strip_prefix [c] s = (case s of [] \<Rightarrow> None | d # r \<Rightarrow> if d = c then Some r else None)"
  by (cases s) (auto simp: strip_prefix_def)

lemma strip_prefix_append [simp]: "strip_prefix p (p @ s) = Some s"
  by (simp add: strip_prefix_def)

lemma strip_token_sound:
  assumes "strip_prefix_token lower orig p = Some r" and "length lower = length orig"
  obtains tok u where "marker_of p tok" and "lower = tok @ u" and "r = trim_start (drop (length tok) orig)"
proof -
  obtain rest where rest: "lower = p @ rest"
    using assms(1) by (auto simp: strip_prefix_token_def strip_prefix_Some_iff split: option.splits)
  show thesis
  proof (cases "strip_prefix ''['' rest")
    case None
    with assms(1) rest obtain u where u: "rest = '':'' @ u"
      by (auto simp: strip_prefix_token_def Let_def strip_prefix_Some_iff split: option.splits)
    with None rest assms have "r = trim_start (drop (length orig - length u) orig)"
      by (simp add: strip_prefix_token_def Let_def strip_prefix_def)
    moreover have "length orig - length u = length (p @ '':'')" using assms(2) rest u by simp
    ultimately have "r = trim_start (drop (length (p @ '':'')) orig)" by simp
    with rest u show thesis by (intro that [of "p @ '':''" u]) (auto simp: marker_of_def)
  next
    case (Some after)
    with assms(1) rest obtain i where i: "find_char CHR '']'' after = Some i"
      and ds: "list_all is_ascii_digit (take i after)"
      by (auto simp: strip_prefix_token_def Let_def split: option.splits if_splits)
    with assms(1) rest Some obtain u where u: "drop (Suc i) after = '':'' @ u"
      by (auto simp: strip_prefix_token_def Let_def strip_prefix_Some_iff split: option.splits)
    let ?tok = "p @ ''['' @ take i after @ '']:''"
    have "after = take i after @ '']'' @ '':'' @ u"
      using find_char_split(1) [OF i] u by simp
    then have lower: "lower = ?tok @ u" using rest Some by (simp add: strip_prefix_Some_iff)
    have "r = trim_start (drop (length orig - length u) orig)"
      using assms(1) rest Some i ds u by (simp add: strip_prefix_token_def Let_def strip_prefix_def)
    moreover have "length orig - length u = length ?tok"
      using assms(2) lower by (metis add_diff_cancel_right' length_append)
    ultimately have "r = trim_start (drop (length ?tok) orig)" by simp
    with ds lower show thesis by (intro that [of ?tok u]) (auto simp: marker_of_def)
  qed
qed

lemma strip_token_complete:
  assumes "marker_of p tok" and "lower = tok @ u" and "length lower = length orig"
  shows "strip_prefix_token lower orig p = Some (trim_start (drop (length tok) orig))"
proof -
  have len: "length orig - length u = length tok" using assms(2,3) by simp
  from assms(1) consider "tok = p @ '':''"
    | ds where "list_all is_ascii_digit ds" "tok = p @ ''['' @ ds @ '']:''"
    by (auto simp: marker_of_def)
  then show ?thesis
  proof cases
    case 1
    with assms(2) len show ?thesis
      by (simp add: strip_prefix_token_def Let_def strip_prefix_single)
  next
    case 2
    have "find_char CHR '']'' (ds @ CHR '']'' # CHR '':'' # u) = Some (length ds)"
      by (rule find_char_append [OF digit_not_bracket [OF 2(1)]])
    with 2 assms(2) len show ?thesis
      by (simp add: strip_prefix_token_def Let_def strip_prefix_single)
  qed
qed

lemma marker_nonempty: "marker_of p tok \<Longrightarrow> 0 < length tok"
  by (auto simp: marker_of_def)

lemma strip_first_sound:
  assumes "strip_first ps lower orig = Some r" and "length lower = length orig"
  shows "\<exists>p \<in> set ps. \<exists>tok u. marker_of p tok \<and> lower = tok @ u \<and> r = trim_start (drop (length tok) orig)"
  using assms(1)
proof (induction ps)
  case (Cons p ps)
  show ?case
  proof (cases "strip_prefix_token lower orig p")
    case None
    with Cons show ?thesis by auto
  next
    case (Some r')
    obtain tok u where "marker_of p tok" "lower = tok @ u" "r' = trim_start (drop (length tok) orig)"
      using strip_token_sound [OF Some assms(2)] by metis
    with Some Cons.prems show ?thesis by auto
  qed
qed simp

lemma strip_first_None:
  assumes "length lower = length orig"
  shows "strip_first ps lower orig = None \<longleftrightarrow>
    \<not> (\<exists>p \<in> set ps. \<exists>tok u. marker_of p tok \<and> lower = tok @ u)"
proof
  assume none: "strip_first ps lower orig = None"
  show "\<not> (\<exists>p \<in> set ps. \<exists>tok u. marker_of p tok \<and> lower = tok @ u)"
    using none
  proof (induction ps)
    case (Cons p ps)
    then have "strip_prefix_token lower orig p = None" by (cases "strip_prefix_token lower orig p") auto
    then have "\<not> (\<exists>tok u. marker_of p tok \<and> lower = tok @ u)"
      using strip_token_complete [OF _ _ assms] by fastforce
    with Cons show ?case by (auto split: option.splits)
  qed simp
next
  assume "\<not> (\<exists>p \<in> set ps. \<exists>tok u. marker_of p tok \<and> lower = tok @ u)"
  then show "strip_first ps lower orig = None"
    by (cases "strip_first ps lower orig") (use strip_first_sound [OF _ assms] in blast)+
qed

lemma strip_first_shorter:
  assumes "strip_first ps (to_ascii_lowercase s) s = Some r"
  shows "length r < length s"
proof -
  obtain p tok u where "marker_of p tok" and t: "to_ascii_lowercase s = tok @ u"
    and r: "r = trim_start (drop (length tok) s)"
    using strip_first_sound [OF assms] by auto
  then have pos: "0 < length tok" using marker_nonempty by blast
  have "length tok \<le> length s" using arg_cong [OF t, of length] by simp
  then have "length s - length tok < length s" using pos by linarith
  then show ?thesis using length_trim_start [of "drop (length tok) s"] r by simp
qed

text \<open>The outer loop, and the whole normalisation.\<close>

function strip_replies :: "string \<Rightarrow> string" where
  "strip_replies s =
     (case strip_first REPLY_PREFIXES (to_ascii_lowercase s) s of
        Some rest \<Rightarrow> strip_replies rest
      | None \<Rightarrow> s)"
  by pat_completeness auto
termination
  by (relation "measure length") (auto simp: strip_first_shorter)

declare strip_replies.simps [simp del]

definition normalize_subject :: "string \<Rightarrow> string" where
  "normalize_subject subject =
     to_ascii_lowercase (join_space (split_whitespace (strip_replies (trim subject))))"

lemma strip_replies_ws: "ws_len s = 0 \<Longrightarrow> ws_len (strip_replies s) = 0"
proof (induction s rule: strip_replies.induct)
  case (1 s)
  show ?case
  proof (cases "strip_first REPLY_PREFIXES (to_ascii_lowercase s) s")
    case None
    with "1.prems" show ?thesis by (simp add: strip_replies.simps [of s])
  next
    case (Some rest)
    then have "ws_len rest = 0" using strip_first_sound [OF Some] by auto
    with "1.IH" [OF Some] Some show ?thesis by (simp add: strip_replies.simps [of s])
  qed
qed

lemma strip_replies_no_marker:
  "\<not> (\<exists>tok u. reply_marker tok \<and> to_ascii_lowercase (strip_replies s) = tok @ u)"
proof (induction s rule: strip_replies.induct)
  case (1 s)
  show ?case
  proof (cases "strip_first REPLY_PREFIXES (to_ascii_lowercase s) s")
    case None
    then show ?thesis
      using strip_first_None [of "to_ascii_lowercase s" s REPLY_PREFIXES]
      by (auto simp: strip_replies.simps [of s] reply_marker_def)
  next
    case (Some rest)
    with "1.IH" [OF Some] show ?thesis by (simp add: strip_replies.simps [of s])
  qed
qed

lemma strip_replies_id:
  assumes "\<not> (\<exists>tok u. reply_marker tok \<and> to_ascii_lowercase s = tok @ u)"
  shows "strip_replies s = s"
proof -
  have "strip_first REPLY_PREFIXES (to_ascii_lowercase s) s = None"
    using assms strip_first_None [of "to_ascii_lowercase s" s REPLY_PREFIXES]
    by (auto simp: reply_marker_def)
  then show ?thesis by (simp add: strip_replies.simps [of s])
qed

text \<open>A text that does not start with white space starts with its first word.\<close>

lemma split_ws_aux_first:
  assumes "acc \<noteq> [] \<or> (s \<noteq> [] \<and> ws_len s = 0)"
  shows "\<exists>w ws r. split_ws_aux acc s = w # ws \<and> acc @ s = w @ r"
  using assms
proof (induction acc s rule: split_ws_aux.induct)
  case (1 acc s)
  show ?case
  proof (cases s)
    case Nil
    with "1.prems" show ?thesis by (simp add: flush_def)
  next
    case (Cons c cs)
    show ?thesis
    proof (cases "ws_len s = 0")
      case True
      with "1.IH"(1) [OF Cons True] Cons show ?thesis by (simp add: split_ws_aux_char)
    next
      case False
      with "1.prems" have "split_ws_aux acc s = acc # split_ws_aux [] (drop (ws_len s) s)"
        by (simp add: split_ws_aux_ws flush_def)
      then show ?thesis by blast
    qed
  qed
qed

lemma split_first_word:
  assumes "ws_len s = 0" and "split_whitespace s = w # ws"
  shows "\<exists>r. s = w @ r"
proof (cases "s = []")
  case True
  with assms show ?thesis by (simp add: split_whitespace_def)
next
  case False
  with assms split_ws_aux_first [of "[]" s] show ?thesis by (auto simp: split_whitespace_def)
qed

lemma prefix_no_space:
  assumes "tok @ u = w @ v" and "CHR '' '' \<notin> set tok" and "v = [] \<or> hd v = CHR '' ''"
  shows "\<exists>r. w = tok @ r"
proof -
  from assms(1) consider r where "w = tok @ r" | r where "tok = w @ r" "v = r @ u"
    by (auto simp: append_eq_append_conv2)
  then show ?thesis
  proof cases
    case 2
    have "r = []"
    proof (rule ccontr)
      assume "r \<noteq> []"
      with 2 have "hd v \<in> set tok" "v \<noteq> []" by auto
      with assms(2,3) show False by auto
    qed
    with 2 show ?thesis by simp
  qed blast
qed

lemma marker_chars:
  assumes "reply_marker tok"
  shows "CHR '' '' \<notin> set tok" and "\<exists>a. tok = a @ '':'' \<and> CHR '':'' \<notin> set a"
    and "\<exists>c r. tok = c # r \<and> \<not> ws_lead c"
proof -
  from assms obtain p where p: "p \<in> set REPLY_PREFIXES" and m: "marker_of p tok"
    by (auto simp: reply_marker_def)
  from p have chars: "CHR '' '' \<notin> set p" "CHR '':'' \<notin> set p" "\<exists>c r. p = c # r \<and> \<not> ws_lead c"
    by (auto simp: REPLY_PREFIXES_def ws_lead_def ascii_ws_def)
  have digits: "CHR '' '' \<notin> set ds \<and> CHR '':'' \<notin> set ds" if "list_all is_ascii_digit ds" for ds
    using that by (auto simp: list_all_iff is_ascii_digit_def)
  from m chars digits show "CHR '' '' \<notin> set tok" and "\<exists>a. tok = a @ '':'' \<and> CHR '':'' \<notin> set a"
    and "\<exists>c r. tok = c # r \<and> \<not> ws_lead c"
    by (fastforce simp: marker_of_def)+
qed

lemma marker_unique:
  assumes "reply_marker tok" and "reply_marker tok'" and "tok @ u = tok' @ u'"
  shows "tok = tok'"
proof -
  obtain a b where a: "tok = a @ '':''" "CHR '':'' \<notin> set a" and b: "tok' = b @ '':''" "CHR '':'' \<notin> set b"
    using marker_chars(2) [OF assms(1)] marker_chars(2) [OF assms(2)] by auto
  have "find_char CHR '':'' (a @ CHR '':'' # u) = find_char CHR '':'' (b @ CHR '':'' # u')"
    using assms(3) a(1) b(1) by simp
  then have "length a = length b" by (simp add: find_char_append a(2) b(2))
  with assms(3) a(1) b(1) show ?thesis by simp
qed

lemma normalize_idempotent: "normalize_subject (normalize_subject s) = normalize_subject s"
proof -
  let ?t = "strip_replies (trim s)"
  define ws where "ws = map to_ascii_lowercase (split_whitespace ?t)"
  have n: "normalize_subject s = join_space ws"
    by (simp add: normalize_subject_def ws_def lower_join)
  have words: "\<forall>w \<in> set ws. word w"
    using split_words word_lower by (auto simp: ws_def)
  have low: "to_ascii_lowercase (join_space ws) = join_space ws"
    by (simp add: ws_def lower_join comp_def)
  have "\<not> (\<exists>tok u. reply_marker tok \<and> join_space ws = tok @ u)"
  proof
    assume "\<exists>tok u. reply_marker tok \<and> join_space ws = tok @ u"
    then obtain tok u where tok: "reply_marker tok" and eq: "join_space ws = tok @ u" by blast
    have "ws \<noteq> []" using eq marker_chars(3) [OF tok] by auto
    then obtain w ws' where split: "split_whitespace ?t = w # ws'"
      by (cases "split_whitespace ?t") (auto simp: ws_def)
    define v where "v = (if ws' = [] then [] else CHR '' '' # join_space (map to_ascii_lowercase ws'))"
    have "join_space ws = to_ascii_lowercase w @ v"
      by (cases ws') (simp_all add: ws_def split v_def)
    with eq have "tok @ u = to_ascii_lowercase w @ v" by simp
    moreover have "v = [] \<or> hd v = CHR '' ''" by (simp add: v_def)
    ultimately have "\<exists>r. to_ascii_lowercase w = tok @ r"
      by (rule prefix_no_space [OF _ marker_chars(1) [OF tok]])
    moreover obtain r' where "?t = w @ r'"
      using split_first_word [OF strip_replies_ws split] by auto
    ultimately have "\<exists>u. to_ascii_lowercase ?t = tok @ u" by auto
    with tok strip_replies_no_marker [of "trim s"] show False by blast
  qed
  then have "strip_replies (join_space ws) = join_space ws"
    by (intro strip_replies_id) (simp add: low)
  then show ?thesis
    using words low by (simp add: n) (simp add: normalize_subject_def trim_join split_join)
qed

text \<open>A marker in front of a subject, in any letter case, does not change what it normalises to.\<close>

lemma trim_start_space [simp]: "trim_start (CHR '' '' # s) = trim_start s"
  by (subst trim_start.simps) simp

lemma normalize_spaces: "normalize_subject (replicate k CHR '' '' @ s) = normalize_subject s"
proof (induction k)
  case (Suc k)
  then show ?case by (simp add: normalize_subject_def trim_def)
qed simp

lemma normalize_marker:
  assumes "reply_marker (to_ascii_lowercase m)"
  shows "normalize_subject (m @ s) = normalize_subject s"
proof -
  let ?tok = "to_ascii_lowercase m" and ?s = "trim_end s"
  obtain a where a: "?tok = a @ '':''" using marker_chars(2) [OF assms] by blast
  then obtain b c where m: "m = b @ [c]" and c: "lower_char c = CHR '':''"
    by (cases m rule: rev_cases) auto
  then have colon: "c = CHR '':''" by (simp add: lower_char_eqI)
  have "inert c" unfolding colon by (simp add: inert_def ws_lead_def ws_cont_def ascii_ws_def)
  then have te: "trim_end (m @ s) = m @ ?s" using trim_end_after_inert m by simp
  obtain d r where d: "?tok = d # r" "\<not> ws_lead d" using marker_chars(3) [OF assms] by blast
  have ws0: "ws_len (m @ x) = 0" for x
    using ws_len_lower [of "m @ x"] d by simp
  have trim: "trim (m @ s) = m @ ?s" by (simp add: trim_def trim_start_id ws0 te)
  have low: "to_ascii_lowercase (m @ ?s) = ?tok @ to_ascii_lowercase ?s" by simp
  obtain p' where "p' \<in> set REPLY_PREFIXES" "marker_of p' ?tok" using assms by (auto simp: reply_marker_def)
  then obtain rest where rest: "strip_first REPLY_PREFIXES (to_ascii_lowercase (m @ ?s)) (m @ ?s) = Some rest"
    using strip_first_None [of "to_ascii_lowercase (m @ ?s)" "m @ ?s" REPLY_PREFIXES] low by force
  then obtain p tok u where tok: "p \<in> set REPLY_PREFIXES" "marker_of p tok" "to_ascii_lowercase (m @ ?s) = tok @ u"
    and r: "rest = trim_start (drop (length tok) (m @ ?s))"
    using strip_first_sound [OF rest] by auto
  have "reply_marker tok" using tok(1,2) by (auto simp: reply_marker_def)
  then have "tok = ?tok" using marker_unique [OF _ assms] tok(3) low by metis
  then have "length tok = length m" by simp
  then have "rest = trim s" using r by (simp add: trim_def trim_commute)
  then have "strip_replies (m @ ?s) = strip_replies (trim s)"
    using rest by (subst strip_replies.simps) simp
  then show ?thesis by (simp add: normalize_subject_def trim)
qed

section \<open>Roots\<close>

type_synonym parents = "(MessageId, MessageId) fmap"

fun parent_insert :: "('i, 'c) crates \<Rightarrow> Envelope \<Rightarrow> parents \<Rightarrow> parents" where
  "parent_insert X e m =
     (if eb_in_reply_to (en_body e) \<noteq> [] then
        fmupd (envelope_message_id X e) (eb_in_reply_to (en_body e)) m
      else m)"

definition parent_map :: "('i, 'c) crates \<Rightarrow> Envelope list \<Rightarrow> parents" where
  "parent_map X envelopes = fold (parent_insert X) envelopes fmempty"

text \<open>The loop of \<open>resolve_root\<close>: the current id and the ids seen so far.\<close>

function resolve_loop :: "parents \<Rightarrow> MessageId \<Rightarrow> MessageId set \<Rightarrow> MessageId" where
  "resolve_loop parents current seen =
     (case fmlookup parents current of
        Some parent \<Rightarrow>
          (if parent \<in> seen then current
           else if fmlookup parents parent \<noteq> None then resolve_loop parents parent (insert parent seen)
           else parent)
      | None \<Rightarrow> current)"
  by pat_completeness auto
termination
proof (relation "measure (\<lambda>(ps, _, seen). card (fset (fmdom ps) - seen))", simp)
  fix ps :: parents and current parent :: MessageId and seen :: "MessageId set"
  assume "parent \<notin> seen" and "fmlookup ps parent \<noteq> None"
  then have "parent \<in> fset (fmdom ps) - seen" by (auto intro: fmdomI)
  then have "fset (fmdom ps) - insert parent seen \<subset> fset (fmdom ps) - seen" by blast
  then have "card (fset (fmdom ps) - insert parent seen) < card (fset (fmdom ps) - seen)"
    by (intro psubset_card_mono) simp_all
  then show "((ps, parent, insert parent seen), ps, current, seen)
      \<in> measure (\<lambda>(ps, _, seen). card (fset (fmdom ps) - seen))" by simp
qed

declare resolve_loop.simps [simp del]

definition resolve_root :: "MessageId \<Rightarrow> parents \<Rightarrow> MessageId" where
  "resolve_root target parents = resolve_loop parents target {target}"

definition thread_root :: "('i, 'c) crates \<Rightarrow> Envelope \<Rightarrow> Envelope list \<Rightarrow> MessageId" where
  "thread_root X envelope envelopes =
     resolve_root (envelope_message_id X envelope) (parent_map X envelopes)"

text \<open>The reply relation: from a message id to the id it replies to.\<close>

definition replies :: "parents \<Rightarrow> (MessageId \<times> MessageId) set" where
  "replies ps = {(x, y). fmlookup ps x = Some y}"

lemma replies_functional: "(x, y) \<in> replies ps \<Longrightarrow> (x, z) \<in> replies ps \<Longrightarrow> y = z"
  by (simp add: replies_def)

lemma resolve_loop_spec:
  assumes "\<forall>s \<in> seen. (s, current) \<in> (replies ps)\<^sup>*" and "(target, current) \<in> (replies ps)\<^sup>*"
  shows "(target, resolve_loop ps current seen) \<in> (replies ps)\<^sup>* \<and>
    (fmlookup ps (resolve_loop ps current seen) = None \<or>
     (resolve_loop ps current seen, resolve_loop ps current seen) \<in> (replies ps)\<^sup>+)"
  using assms
proof (induction ps current seen rule: resolve_loop.induct)
  case (1 ps current seen)
  show ?case
  proof (cases "fmlookup ps current")
    case None
    with "1.prems" show ?thesis by (simp add: resolve_loop.simps [of ps current])
  next
    case (Some parent)
    then have step: "(current, parent) \<in> replies ps" by (simp add: replies_def)
    show ?thesis
    proof (cases "parent \<in> seen")
      case True
      then have "(current, current) \<in> (replies ps)\<^sup>+"
        using "1.prems"(1) step by (meson rtrancl_into_trancl2)
      with Some True "1.prems"(2) show ?thesis by (simp add: resolve_loop.simps [of ps current])
    next
      case False
      have up: "(x, parent) \<in> (replies ps)\<^sup>*" if "(x, current) \<in> (replies ps)\<^sup>*" for x
        using that step by (rule rtrancl_into_rtrancl)
      show ?thesis
      proof (cases "fmlookup ps parent")
        case None
        with Some False up "1.prems"(2) show ?thesis by (simp add: resolve_loop.simps [of ps current])
      next
        case (Some grand)
        then have "fmlookup ps parent \<noteq> None" by simp
        from "1.IH" [OF \<open>fmlookup ps current = Some parent\<close> False this] up "1.prems"
        show ?thesis
          using \<open>fmlookup ps current = Some parent\<close> False Some by (simp add: resolve_loop.simps [of ps current])
      qed
    qed
  qed
qed

lemma resolve_root_reached:
  "(target, resolve_root target ps) \<in> (replies ps)\<^sup>* \<and>
   (fmlookup ps (resolve_root target ps) = None \<or> (resolve_root target ps, resolve_root target ps) \<in> (replies ps)\<^sup>+)"
  unfolding resolve_root_def by (rule resolve_loop_spec) auto

text \<open>Without a cycle the root is the end of the chain, and there is one end only.\<close>

lemma chain_end_unique:
  assumes "(x, a) \<in> (replies ps)\<^sup>*" and "fmlookup ps a = None"
    and "(x, b) \<in> (replies ps)\<^sup>*" and "fmlookup ps b = None"
  shows "a = b"
  using assms(1,3)
proof (induction rule: converse_rtrancl_induct)
  case base
  then show ?case
    using assms(2) by (cases rule: converse_rtranclE) (auto simp: replies_def)
next
  case (step x y)
  from step.prems show ?case
  proof (cases rule: converse_rtranclE)
    case base
    with step.hyps(1) assms(4) show ?thesis by (simp add: replies_def)
  next
    case (step z)
    with \<open>(x, y) \<in> replies ps\<close> replies_functional have "z = y" by blast
    with step show ?thesis using step.IH by blast
  qed
qed

lemma chain_below_end:
  assumes "(x, b) \<in> (replies ps)\<^sup>*" and "(x, a) \<in> (replies ps)\<^sup>*" and "fmlookup ps a = None"
  shows "(b, a) \<in> (replies ps)\<^sup>*"
  using assms(1,2)
proof (induction rule: converse_rtrancl_induct)
  case (step x y)
  from step.prems show ?case
  proof (cases rule: converse_rtranclE)
    case base
    with step.hyps(1) assms(3) show ?thesis by (simp add: replies_def)
  next
    case (step z)
    with \<open>(x, y) \<in> replies ps\<close> replies_functional have "z = y" by blast
    with step show ?thesis using \<open>(y, a) \<in> (replies ps)\<^sup>* \<Longrightarrow> (b, a) \<in> (replies ps)\<^sup>*\<close> by blast
  qed
qed

lemma cycle_has_no_end:
  assumes "(b, y) \<in> (replies ps)\<^sup>*" and "(b, b) \<in> (replies ps)\<^sup>+"
  shows "fmlookup ps y \<noteq> None"
proof -
  from assms(1) have "(y, b) \<in> (replies ps)\<^sup>+"
  proof induction
    case (step y z)
    from step.IH obtain w where "(y, w) \<in> replies ps" "(w, b) \<in> (replies ps)\<^sup>*"
      by (blast dest: tranclD)
    with step.hyps(2) replies_functional have "(z, b) \<in> (replies ps)\<^sup>*" by blast
    then show ?case by (rule rtrancl_trancl_trancl [OF _ assms(2)])
  qed (rule assms(2))
  then obtain w where "(y, w) \<in> replies ps" by (blast dest: tranclD)
  then show ?thesis by (simp add: replies_def)
qed

text \<open>A message and the one it replies to have the same root, when the chain ends.\<close>

lemma reply_shares_root:
  assumes "fmlookup ps x = Some p" and "fmlookup ps (resolve_root x ps) = None"
  shows "resolve_root p ps = resolve_root x ps"
proof -
  let ?rx = "resolve_root x ps" and ?rp = "resolve_root p ps"
  have x: "(x, ?rx) \<in> (replies ps)\<^sup>*" by (rule resolve_root_reached [THEN conjunct1])
  have "(p, ?rp) \<in> (replies ps)\<^sup>*" by (rule resolve_root_reached [THEN conjunct1])
  moreover have "(x, p) \<in> replies ps" using assms(1) by (simp add: replies_def)
  ultimately have p: "(x, ?rp) \<in> (replies ps)\<^sup>*" by (rule converse_rtrancl_into_rtrancl [rotated])
  have "(?rp, ?rx) \<in> (replies ps)\<^sup>*" by (rule chain_below_end [OF p x assms(2)])
  then have "(?rp, ?rp) \<notin> (replies ps)\<^sup>+" using cycle_has_no_end [of ?rp ?rx ps] assms(2) by auto
  then have "fmlookup ps ?rp = None" using resolve_root_reached [of p ps] by auto
  then show ?thesis by (rule chain_end_unique [OF p _ x assms(2)])
qed

section \<open>Conversations\<close>

record Conversation =
  cv_root :: MessageId
  cv_messages :: "Envelope list"

definition conv_len :: "Conversation \<Rightarrow> nat" where
  "conv_len c = length (cv_messages c)"

definition conv_is_empty :: "Conversation \<Rightarrow> bool" where
  "conv_is_empty c \<longleftrightarrow> cv_messages c = []"

definition last_activity :: "Conversation \<Rightarrow> u64" where
  "last_activity c =
     (case map (\<lambda>e. eb_sent_at (en_body e)) (cv_messages c) of
        [] \<Rightarrow> 0
      | t # ts \<Rightarrow> fold max ts t)"

definition conv_subject :: "Conversation \<Rightarrow> string" where
  "conv_subject c =
     (case cv_messages c of
        [] \<Rightarrow> []
      | e # _ \<Rightarrow> normalize_subject (eb_subject (en_body e)))"

fun dedup_loop :: "('i, 'c) crates \<Rightarrow> MessageId set \<Rightarrow> Envelope list \<Rightarrow> Envelope list" where
  "dedup_loop X seen [] = []"
| "dedup_loop X seen (e # es) =
     (let mid = envelope_message_id X e in
      if mid \<in> seen then dedup_loop X seen es else e # dedup_loop X (insert mid seen) es)"

definition group_into :: "(Envelope \<Rightarrow> MessageId) \<Rightarrow> Envelope list \<Rightarrow> (MessageId, Envelope list) fmap" where
  "group_into root_of es = fold (\<lambda>e m. fmupd (root_of e) (fm_get [] m (root_of e) @ [e]) m) es fmempty"

definition message_order :: "('i, 'c) crates \<Rightarrow> Envelope \<Rightarrow> Envelope \<Rightarrow> ordering" where
  "message_order X a b =
     then_with (compare (eb_sent_at (en_body a)) (eb_sent_at (en_body b)))
       (compare (envelope_message_id X a) (envelope_message_id X b))"

definition conversation_order :: "Conversation \<Rightarrow> Conversation \<Rightarrow> ordering" where
  "conversation_order a b =
     then_with (compare (last_activity b) (last_activity a)) (compare (cv_root a) (cv_root b))"

definition conversation_of :: "('i, 'c) crates \<Rightarrow> MessageId \<times> Envelope list \<Rightarrow> Conversation" where
  "conversation_of X entry =
     \<lparr>cv_root = fst entry, cv_messages = sort_by (message_order X) (snd entry)\<rparr>"

definition group_threads ::
  "('i, 'c) crates \<Rightarrow> ((MessageId, Envelope list) fmap \<Rightarrow> (MessageId \<times> Envelope list) list) \<Rightarrow>
   Envelope list \<Rightarrow> Conversation list" where
  "group_threads X iteration envelopes =
     (let deduped = dedup_loop X {} envelopes;
          parents = parent_map X deduped;
          by_root = group_into (\<lambda>e. resolve_root (envelope_message_id X e) parents) deduped;
          convs = map (conversation_of X) (iteration by_root)
      in sort_by conversation_order convs)"

interpretation messages: comparator "message_order X" for X :: "('i, 'c) crates"
  unfolding message_order_def
  by (rule comparator_then_with) (rule key_order.comparator_axioms)+

interpretation conversations: comparator conversation_order
  unfolding conversation_order_def
  by (rule comparator_then_with [OF comparator_reversed [OF key_order.comparator_axioms]
      key_order.comparator_axioms])

lemma dedup_loop_ids:
  "distinct (map (envelope_message_id X) (dedup_loop X seen es)) \<and>
   envelope_message_id X ` set (dedup_loop X seen es) = envelope_message_id X ` set es - seen"
  by (induction es arbitrary: seen) (auto simp: Let_def)

lemma dedup_loop_subset: "set (dedup_loop X seen es) \<subseteq> set es"
  by (induction es arbitrary: seen) (auto simp: Let_def)

lemma group_into_lookup_gen:
  "fmlookup (fold (\<lambda>e m. fmupd (f e) (fm_get [] m (f e) @ [e]) m) es m) r =
     (if filter (\<lambda>e. f e = r) es = [] then fmlookup m r
      else Some (fm_get [] m r @ filter (\<lambda>e. f e = r) es))"
  by (induction es arbitrary: m) auto

lemma group_into_lookup:
  "fmlookup (group_into f es) r =
     (if filter (\<lambda>e. f e = r) es = [] then None else Some (filter (\<lambda>e. f e = r) es))"
  unfolding group_into_def by (simp add: group_into_lookup_gen)

lemma partition_by_key:
  assumes "distinct rs" and "\<forall>x \<in> set xs. f x \<in> set rs"
  shows "mset (concat (map (\<lambda>r. filter (\<lambda>x. f x = r) xs) rs)) = mset xs"
  using assms
proof (induction rs arbitrary: xs)
  case Nil
  then show ?case by auto
next
  case (Cons r rs)
  let ?rest = "filter (\<lambda>x. f x \<noteq> r) xs"
  have "filter (\<lambda>x. f x = r') xs = filter (\<lambda>x. f x = r') ?rest" if "r' \<in> set rs" for r'
    using that Cons.prems(1) by (auto intro!: filter_cong)
  then have "concat (map (\<lambda>r. filter (\<lambda>x. f x = r) xs) rs) = concat (map (\<lambda>r. filter (\<lambda>x. f x = r) ?rest) rs)"
    by (metis (no_types, lifting) map_cong)
  moreover have "mset (concat (map (\<lambda>r. filter (\<lambda>x. f x = r) ?rest) rs)) = mset ?rest"
    by (rule Cons.IH) (use Cons.prems in auto)
  ultimately show ?case by simp
qed

text \<open>The entries of the intermediate map: every root once, with its messages.\<close>

lemma iteration_entries:
  assumes "is_iteration (group_into f es) it"
  shows "distinct (map fst it)" and "fst ` set it = f ` set es"
    and "entry \<in> set it \<Longrightarrow> snd entry = filter (\<lambda>e. f e = fst entry) es \<and> snd entry \<noteq> []"
proof -
  show "distinct (map fst it)" using assms by (simp add: is_iteration_def)
  have look: "(r, ms) \<in> set it \<longleftrightarrow> filter (\<lambda>e. f e = r) es \<noteq> [] \<and> ms = filter (\<lambda>e. f e = r) es" for r ms
    using is_iteration_lookup [OF assms] by (auto simp: group_into_lookup)
  then show "entry \<in> set it \<Longrightarrow> snd entry = filter (\<lambda>e. f e = fst entry) es \<and> snd entry \<noteq> []"
    by (cases entry) auto
  show "fst ` set it = f ` set es"
  proof (intro set_eqI iffI)
    fix r
    assume "r \<in> fst ` set it"
    then obtain ms where "(r, ms) \<in> set it" by auto
    with look show "r \<in> f ` set es" by (auto simp: filter_empty_conv)
  next
    fix r
    assume "r \<in> f ` set es"
    then have "filter (\<lambda>e. f e = r) es \<noteq> []" by (auto simp: filter_empty_conv)
    with look have "(r, filter (\<lambda>e. f e = r) es) \<in> set it" by simp
    then show "r \<in> fst ` set it" by force
  qed
qed

text \<open>Any two iterations list the same entries.\<close>

lemma iterations_same_mset:
  assumes "is_iteration m a" and "is_iteration m b"
  shows "mset a = mset b"
proof -
  have "distinct a" "distinct b" using assms by (auto simp: is_iteration_def distinct_map)
  moreover have "set a = set b"
    using is_iteration_lookup [OF assms(1)] is_iteration_lookup [OF assms(2)] by auto
  ultimately show ?thesis by (simp add: set_eq_iff_mset_eq_distinct)
qed

abbreviation deduped :: "('i, 'c) crates \<Rightarrow> Envelope list \<Rightarrow> Envelope list" where
  "deduped X es \<equiv> dedup_loop X {} es"

definition conv_root_of :: "('i, 'c) crates \<Rightarrow> Envelope list \<Rightarrow> Envelope \<Rightarrow> MessageId" where
  "conv_root_of X es e = thread_root X e (deduped X es)"

lemma group_threads_conversations:
  assumes it: "\<And>m. is_iteration m (iteration m)"
  shows "distinct (map cv_root (group_threads X iteration es))"
    and "cv_root ` set (group_threads X iteration es) = conv_root_of X es ` set (deduped X es)"
    and "c \<in> set (group_threads X iteration es) \<Longrightarrow>
      cv_messages c = sort_by (message_order X) (filter (\<lambda>e. conv_root_of X es e = cv_root c) (deduped X es)) \<and>
      cv_messages c \<noteq> []"
proof -
  let ?m = "group_into (conv_root_of X es) (deduped X es)"
  have gt: "group_threads X iteration es = sort_by conversation_order (map (conversation_of X) (iteration ?m))"
    by (simp add: group_threads_def conv_root_of_def [abs_def] thread_root_def Let_def)
  note entries = iteration_entries [OF it [of ?m]]
  have "mset (map cv_root (group_threads X iteration es)) = mset (map fst (iteration ?m))"
    by (simp add: gt conversation_of_def image_mset.compositionality comp_def)
  with entries(1) show "distinct (map cv_root (group_threads X iteration es))"
    by (metis mset_eq_imp_distinct_iff)
  show "cv_root ` set (group_threads X iteration es) = conv_root_of X es ` set (deduped X es)"
    using entries(2) by (simp add: gt conversation_of_def image_image)
  assume "c \<in> set (group_threads X iteration es)"
  then obtain entry where "entry \<in> set (iteration ?m)" "c = conversation_of X entry" by (auto simp: gt)
  with entries(3) [of entry] show "cv_messages c = sort_by (message_order X)
      (filter (\<lambda>e. conv_root_of X es e = cv_root c) (deduped X es)) \<and> cv_messages c \<noteq> []"
    by (auto simp: conversation_of_def)
qed

end
