(* ===== verification/Thread_Properties.thy ===== *)
theory Thread_Properties
  imports Threads Mailbox_Properties
begin

text \<open>
  The properties of threading: subject normalisation is a projection that no reply marker changes,
  the root is the end of the reply chain and shared along it, and the conversations of an inbox are
  an ordered partition of its distinct messages.
\<close>

section \<open>Subjects\<close>

text \<open>Normalising a subject twice is normalising it once: the grouping key is stable.\<close>

lemma subject_key_stable: "normalize_subject (normalize_subject s) = normalize_subject s"
  by (rule normalize_idempotent)

text \<open>Any chain of reply and forward markers in front of a subject, in any letter case, counted or
  not, with spaces between, leaves its key unchanged: a reply has its parent's key.\<close>

lemma reply_markers_ignored:
  assumes "\<forall>(m, k) \<in> set ms. reply_marker (to_ascii_lowercase m)"
  shows "normalize_subject (concat (map (\<lambda>(m, k). m @ replicate k CHR '' '') ms) @ s) = normalize_subject s"
  using assms
proof (induction ms)
  case (Cons mk ms)
  obtain m k where mk: "mk = (m, k)" by (cases mk)
  with Cons.prems have "reply_marker (to_ascii_lowercase m)" by simp
  from normalize_marker [OF this] Cons mk show ?case by (simp add: normalize_spaces)
qed simp

lemma reply_markers_ignored_witness:
  "normalize_subject ''RE[2]: Fwd:  Hello'' = normalize_subject ''Hello''"
proof -
  have "to_ascii_lowercase ''RE[2]:'' = ''re[2]:''" "to_ascii_lowercase ''Fwd:'' = ''fwd:''"
    by code_simp+
  moreover have "reply_marker ''re[2]:''"
    unfolding reply_marker_def marker_of_def
    by (rule bexI [of _ "''re''"], rule disjI2, rule exI [of _ "''2''"])
      (simp_all add: REPLY_PREFIXES_def is_ascii_digit_def less_eq_char_def)
  moreover have "reply_marker ''fwd:''"
    unfolding reply_marker_def marker_of_def
    by (rule bexI [of _ "''fwd''"], rule disjI1) (simp_all add: REPLY_PREFIXES_def)
  ultimately have "\<forall>(m, k) \<in> set [(''RE[2]:'', 1), (''Fwd:'', 2)]. reply_marker (to_ascii_lowercase m)"
    by simp
  from reply_markers_ignored [OF this, of "''Hello''"] show ?thesis by (simp add: numeral_2_eq_2)
qed

section \<open>Roots\<close>

text \<open>C29: the walk to the root always ends, at an id on the message's reply chain that either has no
  known parent or lies on a cycle of the chain.\<close>

theorem root_of_chain:
  "(target, resolve_root target ps) \<in> {(x, y). fmlookup ps x = Some y}\<^sup>* \<and>
   (fmlookup ps (resolve_root target ps) = None \<or>
    (resolve_root target ps, resolve_root target ps) \<in> {(x, y). fmlookup ps x = Some y}\<^sup>+)"
  using resolve_root_reached [of target ps] by (simp add: replies_def)

text \<open>A reply is in the thread of the message it answers: both resolve to the same root, whenever
  the chain ends.\<close>

lemma reply_in_parents_thread:
  assumes "fmlookup ps reply = Some parent" and "fmlookup ps (resolve_root reply ps) = None"
  shows "resolve_root parent ps = resolve_root reply ps"
  by (rule reply_shares_root [OF assms])

lemma reply_in_parents_thread_witness:
  "resolve_root ''b'' (fmupd ''c'' ''b'' (fmupd ''b'' ''a'' fmempty)) = ''a''"
proof -
  let ?ps = "fmupd ''c'' ''b'' (fmupd ''b'' ''a'' fmempty)"
  have root: "resolve_root ''c'' ?ps = ''a''" by (simp add: resolve_root_def resolve_loop.simps)
  have "resolve_root ''b'' ?ps = resolve_root ''c'' ?ps"
    by (rule reply_in_parents_thread) (simp_all add: root)
  with root show ?thesis by simp
qed

section \<open>Conversations\<close>

text \<open>C23: grouping partitions the distinct messages of the inbox: every message id appears in exactly one
  conversation, once; conversations have distinct roots, are not empty, and hold exactly the
  messages of their root.\<close>

theorem conversations_partition:
  assumes "\<And>m. is_iteration m (iteration m)"
  shows "mset (concat (map cv_messages (group_threads X iteration es))) = mset (dedup_loop X {} es) \<and>
    distinct (map (envelope_message_id X) (dedup_loop X {} es)) \<and>
    envelope_message_id X ` set (dedup_loop X {} es) = envelope_message_id X ` set es \<and>
    distinct (map cv_root (group_threads X iteration es)) \<and>
    (\<forall>c \<in> set (group_threads X iteration es). cv_messages c \<noteq> [] \<and>
       set (cv_messages c) = {e \<in> set (dedup_loop X {} es). thread_root X e (dedup_loop X {} es) = cv_root c})"
proof -
  let ?cs = "group_threads X iteration es" and ?d = "dedup_loop X {} es"
  note c = group_threads_conversations [where X = X and es = es, OF assms]
  have msgs: "mset (cv_messages c) = mset (filter (\<lambda>e. conv_root_of X es e = cv_root c) ?d)"
    if "c \<in> set ?cs" for c using c(3) [OF that] by simp
  have "mset (concat (map cv_messages ?cs)) = (\<Sum>c \<leftarrow> ?cs. mset (cv_messages c))"
    by (simp add: mset_concat comp_def)
  also have "\<dots> = (\<Sum>c \<leftarrow> ?cs. mset (filter (\<lambda>e. conv_root_of X es e = cv_root c) ?d))"
    using msgs by (metis (no_types, lifting) map_cong)
  also have "\<dots> = mset (concat (map (\<lambda>r. filter (\<lambda>e. conv_root_of X es e = r) ?d) (map cv_root ?cs)))"
    by (simp add: mset_concat comp_def)
  also have "\<dots> = mset ?d" using c(1,2) by (intro partition_by_key) auto
  finally have parts: "mset (concat (map cv_messages ?cs)) = mset ?d" .
  have "cv_messages c \<noteq> [] \<and> set (cv_messages c) = {e \<in> set ?d. thread_root X e ?d = cv_root c}"
    if "c \<in> set ?cs" for c
    using c(3) [OF that] by (metis (no_types, lifting) conv_root_of_def set_filter set_sort_by Collect_cong)
  with parts c(1) dedup_loop_ids [of X "{}" es] show ?thesis by simp
qed

lemma conversations_partition_witness:
  "mset (concat (map cv_messages (group_threads sample by_key [sample_mail 5, sample_mail 5]))) =
     {# sample_mail 5 #}"
  by (simp add: conversations_partition [OF by_key_iteration])

text \<open>C35: conversations come newest activity first, and inside a conversation the messages come oldest
  first.\<close>

theorem conversations_sorted:
  assumes "\<And>m. is_iteration m (iteration m)"
  shows "sorted_wrt (\<lambda>a b. last_activity b \<le> last_activity a) (group_threads X iteration es) \<and>
    (\<forall>c \<in> set (group_threads X iteration es).
       sorted_wrt (\<lambda>a b. eb_sent_at (en_body a) \<le> eb_sent_at (en_body b)) (cv_messages c))"
proof -
  have newest: "last_activity b \<le> last_activity a" if "conversation_order a b \<noteq> Greater" for a b
    using that by (cases "compare (last_activity b) (last_activity a)") (auto simp: conversation_order_def)
  have oldest: "eb_sent_at (en_body a) \<le> eb_sent_at (en_body b)" if "message_order X a b \<noteq> Greater" for a b
    using that by (cases "compare (eb_sent_at (en_body a)) (eb_sent_at (en_body b))") (auto simp: message_order_def)
  have "sorted_wrt (\<lambda>a b. conversation_order a b \<noteq> Greater) (group_threads X iteration es)"
    using conversations.sort_sorted by (simp add: group_threads_def Let_def conversations.sorted_by_def)
  moreover have "sorted_wrt (\<lambda>a b. message_order X a b \<noteq> Greater) (cv_messages c)"
    if "c \<in> set (group_threads X iteration es)" for c
    using group_threads_conversations(3) [OF assms that] messages.sort_sorted
    by (simp add: messages.sorted_by_def)
  ultimately show ?thesis
    using sorted_wrt_mono_rel [where P = "\<lambda>a b. conversation_order a b \<noteq> Greater"
        and Q = "\<lambda>a b. last_activity b \<le> last_activity a"] newest
      sorted_wrt_mono_rel [where P = "\<lambda>a b. message_order X a b \<noteq> Greater"
        and Q = "\<lambda>a b. eb_sent_at (en_body a) \<le> eb_sent_at (en_body b)"] oldest
    by blast
qed

lemma conversations_sorted_witness:
  "sorted_wrt (\<lambda>a b. last_activity b \<le> last_activity a)
     (group_threads sample by_key [sample_mail 5, sample_mail 9])"
  by (simp add: conversations_sorted [OF by_key_iteration])

text \<open>C30: the conversations do not depend on the order in which the hash map of roots is iterated.\<close>

theorem conversations_deterministic:
  assumes "\<And>m. is_iteration m (iteration m)" and "\<And>m. is_iteration m (iteration' m)"
  shows "group_threads X iteration es = group_threads X iteration' es"
proof -
  let ?m = "group_into (\<lambda>e. resolve_root (envelope_message_id X e) (parent_map X (dedup_loop X {} es)))
    (dedup_loop X {} es)"
  have same: "mset (map (conversation_of X) (iteration ?m)) = mset (map (conversation_of X) (iteration' ?m))"
    using iterations_same_mset [OF assms] by simp
  have roots: "distinct (map fst (iteration ?m))" by (rule iteration_entries(1) [OF assms(1)])
  have "a = b"
    if a: "a \<in> set (map (conversation_of X) (iteration ?m))"
      and b: "b \<in> set (map (conversation_of X) (iteration ?m))" and eq: "conversation_order a b = Equal" for a b
  proof -
    obtain x y where x: "x \<in> set (iteration ?m)" "a = conversation_of X x"
      and y: "y \<in> set (iteration ?m)" "b = conversation_of X y" using a b by auto
    then have "fst x = fst y" using eq by (simp add: conversation_order_def conversation_of_def)
    then have "x = y" using roots x(1) y(1) by (auto simp: distinct_map inj_on_def)
    with x y show ?thesis by simp
  qed
  then have "sort_by conversation_order (map (conversation_of X) (iteration ?m)) =
      sort_by conversation_order (map (conversation_of X) (iteration' ?m))"
    by (rule conversations.sort_unique [OF same])
  then show ?thesis by (simp add: group_threads_def Let_def)
qed

lemma iteration_rev: "is_iteration m es \<Longrightarrow> is_iteration m (rev es)"
  using map_of_inject_set [of "rev es" es]
  by (auto simp: is_iteration_def rev_map [symmetric] fmlookup_of_list intro!: fmap_ext)

lemma conversations_deterministic_witness:
  "group_threads sample by_key [sample_mail 5, sample_mail 9] =
     group_threads sample (\<lambda>m. rev (by_key m)) [sample_mail 5, sample_mail 9]"
  by (rule conversations_deterministic [OF by_key_iteration iteration_rev [OF by_key_iteration]])

end
