(* ===== verification/Screening_Properties.thy ===== *)
theory Screening_Properties
  imports Screening Mailbox_Properties
begin

text \<open>The properties of screening: the exact decision, its monotonicity, and the block list.\<close>

text \<open>Screening is monotone: a better standing, more contacts, fewer blocks, a lower minimum, a
  verified amount at least as high or a lenient policy never treats a message worse.\<close>

lemma screening_monotone:
  fixes base :: "'a \<Rightarrow> 'b :: linorder"
  assumes "sp_me p = sp_me q" and "sp_allowlist p \<subseteq> sp_allowlist q" and "sp_blocklist q \<subseteq> sp_blocklist p"
    and "base (sp_min_postage q) \<le> base (sp_min_postage p)" and "sp_strict q \<longrightarrow> sp_strict p"
    and "sp_waive_postage_for_established p \<longrightarrow> sp_waive_postage_for_established q"
    and "standing \<le> standing'"
    and "\<And>r a. vp r = Some a \<Longrightarrow> \<exists>b. vp' r = Some b \<and> base a \<le> base b"
  shows "rank (screen base p env standing vp) \<le> rank (screen base q env standing' vp')"
proof -
  have adm: "admissible p env \<Longrightarrow> admissible q env" using assms(1,3) by (auto simp: admissible_def)
  have tr: "trusted p s standing \<Longrightarrow> trusted q s standing'" for s
    using assms(1,2,6,7) by (auto simp: trusted_def less_eq_SenderStanding_def)
  have "paid base q env vp'" if "paid base p env vp"
  proof -
    from that obtain a where a: "eb_postage_receipt (en_body env) \<noteq> []"
      "vp (eb_postage_receipt (en_body env)) = Some a" "base (sp_min_postage p) \<le> base a"
      by (auto simp: paid_def)
    with assms(8) obtain b where "vp' (eb_postage_receipt (en_body env)) = Some b" "base a \<le> base b" by blast
    with a assms(4) show ?thesis unfolding paid_def by (meson order_trans)
  qed
  with adm tr assms(5) show ?thesis by (simp add: screen_table)
qed

definition bobs_policy :: "nat ScreeningPolicy" where
  "bobs_policy = require_postage 5 (set_strict (new_policy 0 bob_hex))"

lemma screening_monotone_witness:
  "rank (screen id bobs_policy (sample_mail 5) Newcomer (\<lambda>_. None)) \<le>
     rank (screen id (allow (eb_from (en_body (sample_mail 5))) bobs_policy) (sample_mail 5) Established (\<lambda>_. Some 7))"
  by (rule screening_monotone)
    (auto simp: bobs_policy_def mail_defs less_eq_SenderStanding_def)

text \<open>A blocked sender is rejected by every policy the builder methods make, whatever else was
  configured before or after the block, and whatever it pays.\<close>

lemma blocked_stays_blocked:
  assumes "set fs \<subseteq> {allow n, require_postage a, set_strict, no_reputation_waiver, block m} \<union> range allow_all"
  shows "screen base (fold (\<lambda>f p. f p) fs (block (eb_from (en_body env)) p)) env standing vp = Rejected"
proof -
  have "eb_from (en_body env) \<in> sp_blocklist (fold (\<lambda>f p. f p) fs q)"
    if "eb_from (en_body env) \<in> sp_blocklist q" for q
    using assms that
  proof (induction fs arbitrary: q)
    case (Cons f fs)
    then have "eb_from (en_body env) \<in> sp_blocklist (f q)" by (auto simp: policy_defs)
    with Cons show ?case by simp
  qed simp
  then show ?thesis by (simp add: screen_table admissible_def policy_defs)
qed

lemma blocked_stays_blocked_witness:
  "screen id (fold (\<lambda>f p. f p) [allow (eb_from (en_body (sample_mail 5))), no_reputation_waiver]
     (block (eb_from (en_body (sample_mail 5))) bobs_policy)) (sample_mail 5) Established (\<lambda>_. Some 7) = Rejected"
  by (rule blocked_stays_blocked [where n = "eb_from (en_body (sample_mail 5))" and a = 0 and m = "[]"]) simp

end
