(* ===== verification/Service_Types.thy ===== *)
theory Service_Types
  imports Mail_Service
begin

text \<open>
  The type invariant of the service: Rust's own guarantees on texts, signatures and lengths hold of
  everything stored, every handler keeps them, and so every reply is a well-formed value of
  \<open>MailReply\<close>, which the wire format carries. The only texts from outside are the error texts of
  \<open>ce_iam_core::authorize\<close>.
\<close>

section \<open>Texts\<close>

definition ascii :: "string \<Rightarrow> bool" where
  "ascii s \<longleftrightarrow> (\<forall>c \<in> set s. of_char c \<le> (127 :: nat))"

lemma is_utf8_ascii_append: "ascii p \<Longrightarrow> is_utf8 s \<Longrightarrow> is_utf8 (p @ s)"
  by (induction p) (auto simp: ascii_def byte_in_def)

text \<open>A text short enough for a fixed prefix in front of it.\<close>

definition short_text :: "string \<Rightarrow> bool" where
  "short_text s \<longleftrightarrow> is_utf8 s \<and> length s < 2 ^ 60"

lemma short_text_rust: "short_text s \<Longrightarrow> rust_string s"
  by (simp add: short_text_def rust_string_def usize_limit_def)

lemma rust_string_prefix:
  "ascii p \<Longrightarrow> length p < 2 ^ 60 \<Longrightarrow> short_text s \<Longrightarrow> rust_string (p @ s)"
  by (simp add: short_text_def rust_string_def is_utf8_ascii_append usize_limit_def)

lemma rust_string_ascii_short: "ascii s \<Longrightarrow> length s < 2 ^ 60 \<Longrightarrow> rust_string s"
  using rust_string_ascii [of s] by (simp add: ascii_def usize_limit_def)

lemma ascii_append [simp]: "ascii (s @ t) \<longleftrightarrow> ascii s \<and> ascii t"
  by (auto simp: ascii_def)

lemma ascii_simps [simp]: "ascii []" "ascii (c # s) \<longleftrightarrow> of_char c \<le> (127 :: nat) \<and> ascii s"
  by (auto simp: ascii_def)

lemma ascii_show_nat [simp]: "ascii (show_nat n)"
proof (induction n rule: show_nat.induct)
  case (1 n)
  have "n mod 10 \<le> 79" using mod_less_divisor [of 10 n] by linarith
  with 1 show ?case by (subst show_nat.simps) simp
qed

lemma length_show_nat: "n < 10 ^ Suc k \<Longrightarrow> length (show_nat n) \<le> Suc k"
proof (induction k arbitrary: n)
  case 0
  then show ?case by (simp add: show_nat_small)
next
  case (Suc k)
  then have "n div 10 < 10 ^ Suc k" by (simp add: less_mult_imp_div_less)
  with Suc.IH [of "n div 10"] show ?case by (subst show_nat.simps) simp
qed

lemma length_show_usize: "n < usize_limit \<Longrightarrow> length (show_nat n) \<le> 20"
  using length_show_nat [of n 19] by (simp add: usize_limit_def)

lemma too_large_text:
  assumes "ascii what" "length what < 2 ^ 50" "ascii u" "length u < 2 ^ 50" "n < usize_limit" "l < usize_limit"
  shows "rust_string (too_large what n l u)"
proof (rule rust_string_ascii_short)
  from assms show "ascii (too_large what n l u)" by (simp add: too_large_def)
  show "length (too_large what n l u) < 2 ^ 60"
    using length_show_usize [OF assms(5)] length_show_usize [OF assms(6)] assms(2,4)
    by (simp add: too_large_def)
qed

section \<open>Typed limits and stores\<close>

text \<open>The error texts of \<open>authorize\<close> are texts of ordinary length.\<close>

definition texts_ok :: "('i, 'c) crates \<Rightarrow> bool" where
  "texts_ok X \<longleftrightarrow>
     (\<forall>n roots now aud ability chain rv e. authorize X n roots now aud ability chain rv = Inl e \<longrightarrow> short_text e) \<and>
     (\<forall>v n. bincode_size X v = Inr n \<longrightarrow> n < usize_limit)"

definition limits_typed :: "Limits \<Rightarrow> bool" where
  "limits_typed l \<longleftrightarrow>
     max_subject_bytes l < usize_limit \<and> max_cid_bytes l < usize_limit \<and> max_attachments l < usize_limit \<and>
     max_postage_bytes l < usize_limit \<and> max_envelope_bytes l < usize_limit"

definition service_typed :: "MailService \<Rightarrow> bool" where
  "service_typed svc \<longleftrightarrow>
     limits_typed (ms_limits svc) \<and> mb_capacity (ms_store svc) < usize_limit \<and>
     (\<forall>r. length (queue_of r (ms_store svc)) < usize_limit \<and>
          (\<forall>x \<in> set (queue_of r (ms_store svc)). ok_envelope (se_envelope x))) \<and>
     (\<forall>r. length (receipts_of r (ms_store svc)) < usize_limit \<and>
          (\<forall>x \<in> set (receipts_of r (ms_store svc)). ok_receipt x))"

lemma service_typedD:
  assumes "service_typed svc"
  shows "limits_typed (ms_limits svc)" and "mb_capacity (ms_store svc) < usize_limit"
    and "length (queue_of r (ms_store svc)) < usize_limit"
    and "x \<in> set (queue_of r (ms_store svc)) \<Longrightarrow> ok_envelope (se_envelope x)"
    and "length (receipts_of r (ms_store svc)) < usize_limit"
    and "y \<in> set (receipts_of r (ms_store svc)) \<Longrightarrow> ok_receipt y"
  using assms by (auto simp: service_typed_def)

section \<open>Error texts of the operations\<close>

lemma parse_error_text: "parse_node_id X s = Inl e \<Longrightarrow> short_text e"
  by (auto simp: parse_node_id_def short_text_def byte_in_def split: option.splits if_splits)

lemma verify_envelope_error_text: "verify_envelope X e = Inl m \<Longrightarrow> short_text m"
  unfolding verify_envelope_def
  by (cases "parse_node_id X (eb_from (en_body e))")
    (auto simp: short_text_def byte_in_def split: if_splits dest: parse_error_text)

lemma verify_receipt_error_text: "verify_receipt X r = Inl m \<Longrightarrow> short_text m"
  unfolding verify_receipt_def
  by (cases "parse_node_id X (rb_by (rc_body r))")
    (auto simp: short_text_def byte_in_def split: if_splits dest: parse_error_text)

lemma check_grant_error_text:
  assumes "texts_ok X" and "check_accept_grant X s n grant now rv = Inl m"
  shows "rust_string m"
proof -
  obtain e where "authorize X n [n] now (mb_self_id s) ABILITY_ACCEPT grant rv = Inl e"
    and m: "m = ''mailbox not authorized to accept mail for recipient: '' @ e"
    using assms(2) unfolding check_accept_grant_def
    by (cases "authorize X n [n] now (mb_self_id s) ABILITY_ACCEPT grant rv") auto
  with assms(1) have "short_text e" by (auto simp: texts_ok_def)
  then show ?thesis unfolding m by (rule rust_string_prefix [rotated 2]) simp_all
qed

lemma delegate_error_text:
  assumes "texts_ok X" and "refused_delegate X requester n grant now rv = Some m"
  shows "rust_string m"
proof -
  have "authorize X n [n] now requester ABILITY_ACCEPT grant rv = Inl m"
    using assms(2) by (auto simp: refused_delegate_def gate_delegate_def split: if_splits sum.splits)
  with assms(1) show ?thesis by (auto simp: texts_ok_def intro: short_text_rust)
qed

lemma ensure_Inl [simp]: "ensure b msg = Inl m \<longleftrightarrow> \<not> b \<and> m = msg"
  by (auto simp: ensure_def)

lemma try_bind_Inl_iff: "try_bind m f = Inl e \<longleftrightarrow> m = Inl e \<or> (\<exists>x. m = Inr x \<and> f x = Inl e)"
  by (cases m) auto

lemma check_cids_error_text:
  assumes "check_cids l i cids = Inl m" and "limits_typed l" and "i + length cids < usize_limit"
    and "\<forall>c \<in> set cids. length c < usize_limit"
  shows "rust_string m"
  using assms(1,3,4)
proof (induction cids arbitrary: i)
  case (Cons c cids)
  have "length (show_nat i) \<le> 20" by (rule length_show_usize) (use Cons.prems in simp)
  then have "rust_string (too_large (''attachment_cid['' @ show_nat i @ ''] too large: '') (length c)
      (max_cid_bytes l) '' bytes'')"
    using assms(2) Cons.prems by (intro too_large_text) (simp_all add: limits_typed_def)
  with Cons show ?case by (auto simp: try_bind_Inl_iff)
qed simp

lemma check_envelope_error_text:
  assumes "check_envelope X l e = Inl m" and "limits_typed l" and "texts_ok X" and "ok_envelope e"
  shows "rust_string m"
proof -
  let ?b = "en_body e"
  have "encoded_len X e < usize_limit"
  proof (cases "bincode_size X (sv_envelope e)")
    case (Inr n)
    with assms(3) show ?thesis by (auto simp: encoded_len_def texts_ok_def)
  qed (simp add: encoded_len_def usize_max_def usize_limit_def)
  moreover have "length (eb_subject ?b) < usize_limit" "length (eb_body_cid ?b) < usize_limit"
    "length (eb_in_reply_to ?b) < usize_limit" "length (eb_postage_receipt ?b) < usize_limit"
    "length (eb_attachment_cids ?b) < usize_limit" "\<forall>c \<in> set (eb_attachment_cids ?b). length c < usize_limit"
    using assms(4) by (auto simp: ok_envelope_def ok_body_def rust_string_def list_all_iff)
  ultimately show ?thesis
    using assms(1,2) check_cids_error_text [OF _ assms(2), of 0 "eb_attachment_cids ?b" m]
    by (auto simp: check_envelope_def Let_def try_bind_Inl_iff limits_typed_def intro!: too_large_text)
qed

section \<open>Every reply is well-formed\<close>

lemma push_envelope_typed:
  assumes "service_typed svc" and "ok_envelope (se_envelope x)"
  shows "service_typed (svc\<lparr>ms_store := push_envelope X r x (ms_store svc)\<rparr>)"
proof -
  let ?s = "ms_store svc" and ?t = "push_envelope X r x (ms_store svc)"
  have "length (queue_of r' ?t) < usize_limit" for r'
  proof (cases "r' = r \<and> stored_id X x \<notin> seen_of r ?s")
    case True
    then show ?thesis
      using length_keep_last [of "mb_capacity ?s" "queue_of r ?s @ [x]"] service_typedD(2) [OF assms(1)]
      by (simp add: inbox.push_items)
  next
    case False
    then have "queue_of r' ?t = queue_of r' ?s"
      using store_envelope_frame(1) [where r' = r' and r = r and X = X] inbox.push_dup [where X = X and r = r and x = x and s = ?s] by auto
    then show ?thesis using service_typedD(3) [OF assms(1)] by simp
  qed
  moreover have "ok_envelope (se_envelope y)" if "y \<in> set (queue_of r' ?t)" for r' y
    using that push_envelope_set [where r' = r' and X = X and r = r and x = x and s = ?s] service_typedD(4) [OF assms(1)] assms(2)
    by (auto split: if_splits)
  ultimately show ?thesis
    using assms(1) by (simp add: service_typed_def store_envelope_frame inbox.push_cap)
qed

lemma push_receipt_typed:
  assumes "service_typed svc" and "ok_receipt x"
  shows "service_typed (svc\<lparr>ms_store := push_receipt r x (ms_store svc)\<rparr>)"
proof -
  let ?s = "ms_store svc" and ?t = "push_receipt r x (ms_store svc)"
  have "length (receipts_of r' ?t) < usize_limit" for r'
  proof (cases "r' = r \<and> dedup_key x \<notin> receipt_keys_of r ?s")
    case True
    then show ?thesis
      using length_keep_last [of "mb_capacity ?s" "receipts_of r ?s @ [x]"] service_typedD(2) [OF assms(1)]
      by (simp add: receipt_box.push_items)
  next
    case False
    then have "receipts_of r' ?t = receipts_of r' ?s"
      using store_receipt_frame(1) [where r' = r' and r = r] receipt_box.push_dup [where r = r and x = x and s = ?s] by auto
    then show ?thesis using service_typedD(5) [OF assms(1)] by simp
  qed
  moreover have "ok_receipt y" if "y \<in> set (receipts_of r' ?t)" for r' y
    using that push_receipt_set [where r' = r' and r = r and x = x and s = ?s] service_typedD(6) [OF assms(1)] assms(2)
    by (auto split: if_splits)
  ultimately show ?thesis
    using assms(1) by (simp add: service_typed_def store_receipt_frame receipt_box.push_cap)
qed

lemma accept_error_text: "accept X e now s = (Inl m, s') \<Longrightarrow> rust_string m"
  using rust_string_prefix [OF _ _ verify_envelope_error_text,
      of "''refusing to store unverifiable envelope: ''"]
    rust_string_ascii_short [of "''envelope has no recipient''"]
  by (auto simp: accept_def Let_def simp del: append.simps split: sum.splits if_splits prod.splits)

lemma put_receipt_error_text: "put_receipt X sender r s = (Inl m, s') \<Longrightarrow> rust_string m"
  using rust_string_prefix [OF _ _ verify_receipt_error_text,
      of "''refusing to store unverifiable receipt: ''"]
    rust_string_ascii_short [of "''receipt has no target sender''"]
  by (auto simp: put_receipt_def Let_def simp del: append.simps split: sum.splits if_splits prod.splits)

lemma deliver_typed:
  assumes "service_typed svc" and "texts_ok X" and "ok_envelope e"
    and "handle_deliver X e g now rv svc = (reply, svc')"
  shows "ok_reply reply \<and> service_typed svc'"
proof (cases "deliverable X svc e g now rv")
  case True
  have "service_typed (svc\<lparr>ms_store := push_envelope X (eb_to (en_body e))
      \<lparr>se_envelope = e, se_stored_at = now\<rparr> (ms_store svc)\<rparr>)"
    by (rule push_envelope_typed [OF assms(1)]) (simp add: assms(3))
  with assms(4) handle_deliver_ok [OF True] show ?thesis by auto
next
  case False
  then obtain m where m: "reply = Error m" "svc' = svc"
    using assms(4) handle_deliver_refused [OF False] by auto
  have "rust_string m"
  proof (cases "parse_node_id X (eb_to (en_body e))")
    case (Inl err)
    then have "m = ''bad recipient: '' @ err" using assms(4) m by (simp add: handle_deliver_def Let_def)
    then show ?thesis using rust_string_prefix [OF _ _ parse_error_text [OF Inl], of "''bad recipient: ''"] by simp
  next
    case (Inr n)
    show ?thesis
    proof (cases "check_envelope X (ms_limits svc) e")
      case (Inl err)
      then have "m = err" using assms(4) m \<open>parse_node_id X (eb_to (en_body e)) = Inr n\<close>
        by (simp add: handle_deliver_def Let_def)
      then show ?thesis
        using check_envelope_error_text [OF Inl service_typedD(1) [OF assms(1)] assms(2,3)] by simp
    next
      case (Inr u)
      then show ?thesis
        using assms(4) m \<open>parse_node_id X (eb_to (en_body e)) = Inr n\<close>
          check_grant_error_text [OF assms(2)] accept_error_text
        by (auto simp: handle_deliver_def Let_def split: sum.splits prod.splits Accepted.splits)
    qed
  qed
  with m assms(1) show ?thesis by simp
qed

lemma put_receipt_typed:
  assumes "service_typed svc" and "texts_ok X" and "ok_receipt r"
    and "handle_put_receipt X sender r g now rv svc = (reply, svc')"
  shows "ok_reply reply \<and> service_typed svc'"
proof (cases "depositable X svc sender r g now rv")
  case True
  have "service_typed (svc\<lparr>ms_store := push_receipt sender r (ms_store svc)\<rparr>)"
    by (rule push_receipt_typed [OF assms(1,3)])
  with assms(4) handle_put_receipt_ok [OF True] show ?thesis by auto
next
  case False
  then obtain m where m: "reply = Error m" "svc' = svc"
    using assms(4) handle_put_receipt_refused [OF False] by auto
  have "rust_string m"
  proof (cases "parse_node_id X sender")
    case (Inl err)
    then have "m = ''bad sender: '' @ err" using assms(4) m by (simp add: handle_put_receipt_def Let_def)
    then show ?thesis using rust_string_prefix [OF _ _ parse_error_text [OF Inl], of "''bad sender: ''"] by simp
  next
    case (Inr n)
    then show ?thesis
      using assms(4) m check_grant_error_text [OF assms(2)] put_receipt_error_text
      by (auto simp: handle_put_receipt_def Let_def split: sum.splits prod.splits Accepted.splits)
  qed
  with m assms(1) show ?thesis by simp
qed

text \<open>The reading handlers refuse with the text of the guard.\<close>

lemma guarded_error_text:
  assumes "texts_ok X"
  shows "parse_node_id X r = Inl e \<Longrightarrow> rust_string (''bad recipient: '' @ e)"
    and "parse_node_id X r = Inl e \<Longrightarrow> rust_string (''bad sender: '' @ e)"
    and "refused_delegate X requester n grant now rv = Some m \<Longrightarrow> rust_string m"
  using rust_string_prefix [OF _ _ parse_error_text, of "''bad recipient: ''"]
    rust_string_prefix [OF _ _ parse_error_text, of "''bad sender: ''"] delegate_error_text [OF assms]
  by (auto simp del: append.simps)

lemma drain_typed:
  assumes "service_typed svc" and "texts_ok X"
  shows "ok_reply (fst (handle_drain X requester r since grant now rv svc))"
proof -
  have "ok_envelope (se_envelope x)" if "fmlookup (mb_queues (ms_store svc)) r = Some q" "x \<in> set (drop since q)" for q x
    using that service_typedD(4) [OF assms(1), of x r] by (auto dest: in_set_dropD)
  moreover have "length q < usize_limit" if "fmlookup (mb_queues (ms_store svc)) r = Some q" for q
    using that service_typedD(3) [OF assms(1), of r] by simp
  ultimately show ?thesis
    using guarded_error_text [OF assms(2)]
    by (auto simp: handle_drain_def read_from_def list_all_iff usize_limit_def less_imp_diff_less
        split: sum.splits option.splits)
qed

lemma ack_typed:
  assumes "service_typed svc" and "texts_ok X"
    and "handle_ack X requester r n grant now rv svc = (reply, svc')"
  shows "ok_reply reply \<and> service_typed svc'"
proof (cases "acts_for X requester r grant now rv")
  case True
  let ?t = "snd (ack r n (ms_store svc))"
  have reply: "reply = Acked (min n (length (queue_of r (ms_store svc))))" "svc' = svc\<lparr>ms_store := ?t\<rparr>"
    using assms(3) True handle_ack_cases [of X requester r grant now rv n svc] by (auto simp: ack_count)
  have "length (queue_of r' ?t) < usize_limit \<and> (\<forall>x \<in> set (queue_of r' ?t). ok_envelope (se_envelope x))" for r'
    using service_typedD(3,4) [OF assms(1), where r = r'] ack_frame(1) [of r' r n "ms_store svc"]
    by (cases "r' = r") (auto simp: inbox.ack_items less_imp_diff_less dest: in_set_dropD)
  then have "service_typed svc'"
    using assms(1) reply by (simp add: service_typed_def ack_frame inbox.ack_cap)
  with reply service_typedD(3) [OF assms(1), of r] show ?thesis by (simp add: min.strict_coboundedI2)
next
  case False
  then show ?thesis
    using assms(1,3) guarded_error_text [OF assms(2)]
    by (auto simp: handle_ack_def acts_for_guard split: sum.splits option.splits)
qed

lemma collect_typed:
  assumes "service_typed svc" and "texts_ok X"
    and "handle_collect_receipts X requester r grant now rv svc = (reply, svc')"
  shows "ok_reply reply \<and> service_typed svc'"
proof (cases "acts_for X requester r grant now rv")
  case True
  then have "reply = Receipts (receipts_of r (ms_store svc))"
    and "svc' = svc\<lparr>ms_store := snd (collect_receipts r (ms_store svc))\<rparr>"
    using assms(3) handle_collect_cases [of X requester r grant now rv svc] by auto
  with assms(1) show ?thesis
    by (auto simp: service_typed_def collect_receipts_def list_all_iff usize_limit_def)
next
  case False
  then show ?thesis
    using assms(1,3) guarded_error_text [OF assms(2)]
    by (auto simp: handle_collect_receipts_def acts_for_guard split: sum.splits option.splits)
qed

lemma drain_page_typed:
  assumes "service_typed svc" and "texts_ok X"
    and "handle_drain_page X requester r since limit grant now rv svc = Returned (reply, svc')"
  shows "ok_reply reply"
proof (cases "acts_for X requester r grant now rv")
  case True
  then obtain k xs c further where page: "read_page r since k (ms_store svc) = Returned (xs, c, further)"
    and reply: "reply = Page (map se_envelope xs) c further"
    using assms(3) handle_drain_page_cases [of X requester r grant now rv since limit svc]
    by (auto split: prod.splits)
  have "set xs \<subseteq> set (queue_of r (ms_store svc))" "length xs \<le> length (queue_of r (ms_store svc))"
    "c \<le> length (queue_of r (ms_store svc))"
    using page by (auto simp: read_page_result split: if_splits dest: in_set_takeD in_set_dropD)
  with reply service_typedD(3,4) [OF assms(1), where r = r] show ?thesis by (auto simp: list_all_iff)
next
  case False
  then show ?thesis
    using assms(3) guarded_error_text [OF assms(2)]
    by (auto simp: handle_drain_page_def acts_for_guard split: sum.splits option.splits)
qed

lemma handle_typed:
  assumes "service_typed svc" and "texts_ok X" and "ok_request req"
    and "handle X requester req now rv svc = Returned (reply, svc')"
  shows "ok_reply reply \<and> service_typed svc'"
proof (cases req)
  case (Deliver e g)
  with assms deliver_typed [OF assms(1,2), of e g now rv reply svc'] show ?thesis by simp
next
  case (Drain r n g)
  with assms drain_typed [OF assms(1,2), of requester r n g now rv]
    handle_drain_unchanged [of X requester r n g now rv svc] show ?thesis by simp
next
  case (Ack r n g)
  with assms ack_typed [OF assms(1,2), of requester r n g now rv reply svc'] show ?thesis by simp
next
  case (DrainPage r n m g)
  with assms drain_page_typed [OF assms(1,2), of requester r n m g now rv reply svc']
    handle_drain_page_unchanged [of X requester r n m g now rv svc reply svc'] show ?thesis by simp
next
  case (PutReceipt r x g)
  with assms put_receipt_typed [OF assms(1,2), of x r g now rv reply svc'] show ?thesis by simp
next
  case (CollectReceipts r g)
  with assms collect_typed [OF assms(1,2), of requester r g now rv reply svc'] show ?thesis by simp
qed

end
