(* ===== verification/Encoding_Properties.thy ===== *)
theory Encoding_Properties
  imports Service_Types Service_Properties
begin

text \<open>
  The properties of the wire: every reply of a running service is read back by the client as it was
  sent, for any run of decodable requests.
\<close>

section \<open>Runs of decodable requests\<close>

text \<open>The runs in which every request came off the wire: what \<open>MailRequest::decode\<close> returns.\<close>

inductive typed_run :: "('i, 'c) crates \<Rightarrow> MailService \<Rightarrow> MailService \<Rightarrow> bool" for X and svc0 where
  start: "typed_run X svc0 svc0"
| serve: "typed_run X svc0 svc \<Longrightarrow> ok_request req \<Longrightarrow>
    handle X requester req now revoked svc = Returned (reply, svc') \<Longrightarrow> typed_run X svc0 svc'"

lemma typed_run_typed:
  "typed_run X svc0 svc \<Longrightarrow> service_typed svc0 \<Longrightarrow> texts_ok X \<Longrightarrow> service_typed svc"
  by (induction rule: typed_run.induct) (auto dest: handle_typed)

lemma typed_run_run: "typed_run X svc0 svc \<Longrightarrow> service_run X svc0 svc"
  by (induction rule: typed_run.induct) (auto intro: service_run.intros)

lemma fresh_service_typed:
  assumes "limits_typed l" and "capacity < usize_limit"
  shows "service_typed (with_limits (new_store self capacity) l)"
  using assms by (simp add: service_typed_def with_limits_def new_store_def mail_defs usize_limit_def)

lemma sample_texts_ok: "texts_ok sample"
  by (auto simp: texts_ok_def sample_def s_size_def Let_def s_authorize_def short_text_def byte_in_def usize_limit_def
      split: list.splits if_splits)

text \<open>C24: whatever requests a service has answered, its reply to the next one is a well-formed reply
  whose encoding the client decodes to exactly that reply: no error text, envelope or count is lost
  on the wire.\<close>

theorem replies_survive_the_wire:
  assumes "bincode_ok X" and "texts_ok X" and "limits_typed l" and "capacity < usize_limit"
    and "typed_run X (with_limits (new_store self capacity) l) svc" and "ok_request req"
    and "handle X requester req now revoked svc = Returned (reply, svc')"
  shows "decode_reply X (encode_reply X reply) = Inr reply"
proof -
  have "service_typed svc"
    by (rule typed_run_typed [OF assms(5) fresh_service_typed [OF assms(3,4)] assms(2)])
  then have "ok_reply reply" using handle_typed [OF _ assms(2,6,7)] by simp
  then show ?thesis by (rule encode_decode_reply [OF assms(1)])
qed

lemma replies_survive_the_wire_witness:
  "decode_reply sample (encode_reply sample (Delivered False)) = Inr (Delivered False)"
proof (rule replies_survive_the_wire [OF sample_bincode_ok sample_texts_ok _ _ typed_run.start])
  show "handle sample (node_id_of sample alice) (Deliver (sample_mail 5) bob_grant) 10 none_revoked
      (with_limits (new_store (node_id_of sample mailbox_seed) 2) (default_limits\<lparr>max_page := 3\<rparr>)) =
    Returned (Delivered False, sample_service\<lparr>ms_store := one_mail\<rparr>)"
    using sample_delivery by (simp add: sample_service_def sample_store_def)
  show "limits_typed (default_limits\<lparr>max_page := 3\<rparr>)"
    by (simp add: limits_typed_def default_limits_def usize_limit_def)
  show "ok_request (Deliver (sample_mail 5) bob_grant)"
    using sample_mail_ok by (simp add: ok_grant_def bob_grant_def usize_limit_def)
qed (simp add: usize_limit_def)

end
