(* ===== verification/Mail_Effects.thy ===== *)
theory Mail_Effects
  imports Mail_Prelude
begin

text \<open>
  Fallible asynchronous code as state passing: a computation takes the world (the network, the blob
  store, the source of randomness), and returns a result and the world after it. \<open>?\<close> is \<open>io_bind\<close>.
\<close>

type_synonym ('w, 'a) io = "'w \<Rightarrow> 'a result \<times> 'w"

definition io_ok :: "'a \<Rightarrow> ('w, 'a) io" where
  "io_ok x = (\<lambda>w. (Inr x, w))"

definition io_err :: "string \<Rightarrow> ('w, 'a) io" where
  "io_err e = (\<lambda>w. (Inl e, w))"

definition io_lift :: "'a result \<Rightarrow> ('w, 'a) io" where
  "io_lift r = (\<lambda>w. (r, w))"

definition io_bind :: "('w, 'a) io \<Rightarrow> ('a \<Rightarrow> ('w, 'b) io) \<Rightarrow> ('w, 'b) io" where
  "io_bind m f = (\<lambda>w. case m w of (Inr x, w') \<Rightarrow> f x w' | (Inl e, w') \<Rightarrow> (Inl e, w'))"

lemma io_ok_apply [simp]: "io_ok x w = (Inr x, w)"
  by (simp add: io_ok_def)

lemma io_err_apply [simp]: "io_err e w = (Inl e, w)"
  by (simp add: io_err_def)

lemma io_lift_apply [simp]: "io_lift r w = (r, w)"
  by (simp add: io_lift_def)

lemma io_bind_Inr [simp]: "m w = (Inr x, w') \<Longrightarrow> io_bind m f w = f x w'"
  by (simp add: io_bind_def)

lemma io_bind_Inl [simp]: "m w = (Inl e, w') \<Longrightarrow> io_bind m f w = (Inl e, w')"
  by (simp add: io_bind_def)

lemma io_bind_InrE:
  assumes "io_bind m f w = (Inr y, w'')"
  obtains x w' where "m w = (Inr x, w')" and "f x w' = (Inr y, w'')"
proof (cases "m w")
  case (Pair r w')
  with assms that show thesis by (cases r) auto
qed

text \<open>The loop over a list that stops at the first error and collects the results.\<close>

fun io_map :: "('a \<Rightarrow> ('w, 'b) io) \<Rightarrow> 'a list \<Rightarrow> ('w, 'b list) io" where
  "io_map f [] = io_ok []"
| "io_map f (x # xs) = io_bind (f x) (\<lambda>y. io_bind (io_map f xs) (\<lambda>ys. io_ok (y # ys)))"

text \<open>An invariant of the world that one step keeps, the loop keeps.\<close>

lemma io_map_inv:
  assumes "io_map f xs w = (Inr ys, w')" and "P w"
    and "\<And>x y w w'. x \<in> set xs \<Longrightarrow> P w \<Longrightarrow> f x w = (Inr y, w') \<Longrightarrow> P w'"
  shows "P w'"
  using assms
proof (induction xs arbitrary: w ys)
  case (Cons x xs)
  from Cons.prems(1) obtain y w1 zs where "f x w = (Inr y, w1)" "io_map f xs w1 = (Inr zs, w')"
    by (auto elim!: io_bind_InrE)
  with Cons show ?case by (metis list.set_intros(1,2))
qed simp

lemma io_map_length: "io_map f xs w = (Inr ys, w') \<Longrightarrow> length ys = length xs"
  by (induction xs arbitrary: w ys) (auto elim!: io_bind_InrE)

end
