(* ===== verification/Sealed_Box.thy ===== *)
theory Sealed_Box
  imports Envelopes Sample_Crates
begin

unbundle bit_operations_syntax

text \<open>
  End-to-end encryption of bodies (src/src/crypto.rs): the X25519 scalar derived from an Ed25519 seed,
  the recipient's public point, the key derivation, sealing with an ephemeral key and opening. The
  random bytes \<open>seal\<close> draws are arguments. The lemmas give the clamping of scalars and, from the laws
  of the primitives, that the recipient opens what was sealed to its node id.
\<close>

section \<open>Keys\<close>

definition X25519_PUBLIC_LEN :: nat where
  "X25519_PUBLIC_LEN = 32"

definition NONCE_LEN :: nat where
  "NONCE_LEN = 12"

definition KDF_DOMAIN :: bytes where
  "KDF_DOMAIN = byte_string ''ce-mail-sealed-box-v1''"

record SealedBody =
  sb_epk :: bytes
  sb_nonce :: bytes
  sb_ciphertext :: bytes

text \<open>\<open>s[0] &= 248; s[31] &= 127; s[31] |= 64\<close>, as both key derivations write it.\<close>

definition clamp_scalar :: "bytes \<Rightarrow> bytes" where
  "clamp_scalar s =
     (let s = s[0 := s ! 0 AND 248];
          s = s[31 := s ! 31 AND 127]
      in s[31 := s ! 31 OR 64])"

definition x25519_secret_from_ed25519 :: "('i, 'c) crates \<Rightarrow> bytes \<Rightarrow> bytes" where
  "x25519_secret_from_ed25519 X ed_secret = clamp_scalar (take 32 (sha512 X ed_secret))"

definition x25519_public_from_node_id :: "('i, 'c) crates \<Rightarrow> node_id \<Rightarrow> bytes result" where
  "x25519_public_from_node_id X n =
     (case decompress_montgomery X n of
        None \<Rightarrow> Inl ''node id is not a valid Ed25519 public key''
      | Some p \<Rightarrow> Inr p)"

definition kdf :: "('i, 'c) crates \<Rightarrow> bytes \<Rightarrow> bytes \<Rightarrow> bytes" where
  "kdf X shared epk = sha256 X (KDF_DOMAIN @ shared @ epk)"

definition ecdh :: "('i, 'c) crates \<Rightarrow> bytes \<Rightarrow> bytes \<Rightarrow> bytes" where
  "ecdh X secret public = mont_mul X secret public"

section \<open>Sealing and opening\<close>

definition seal_body ::
  "('i, 'c) crates \<Rightarrow> bytes \<Rightarrow> bytes \<Rightarrow> node_id \<Rightarrow> bytes \<Rightarrow> SealedBody result" where
  "seal_body X eph_random nonce_random recipient plaintext =
     try_bind (x25519_public_from_node_id X recipient) (\<lambda>recipient_pk.
       let eph_secret = clamp_scalar eph_random;
           epk = mont_mul_base X eph_secret;
           shared = ecdh X eph_secret recipient_pk;
           key = kdf X shared epk
       in
       try_bind (map_err (\<lambda>e. ''bad key length: '' @ e) (aead_new X key)) (\<lambda>_.
         case aead_encrypt X key nonce_random plaintext of
           None \<Rightarrow> Inl ''AEAD seal failed''
         | Some ciphertext \<Rightarrow>
             Inr \<lparr>sb_epk = epk, sb_nonce = nonce_random, sb_ciphertext = ciphertext\<rparr>))"

definition open_body :: "('i, 'c) crates \<Rightarrow> bytes \<Rightarrow> SealedBody \<Rightarrow> bytes result" where
  "open_body X recipient_secret sealed =
     (if length (sb_epk sealed) \<noteq> X25519_PUBLIC_LEN then Inl ''sealed body has malformed ephemeral key''
      else if length (sb_nonce sealed) \<noteq> NONCE_LEN then Inl ''sealed body has malformed nonce''
      else
        let secret = x25519_secret_from_ed25519 X recipient_secret;
            shared = ecdh X secret (sb_epk sealed);
            key = kdf X shared (sb_epk sealed)
        in
        try_bind (map_err (\<lambda>e. ''bad key length: '' @ e) (aead_new X key)) (\<lambda>_.
          case aead_decrypt X key (sb_nonce sealed) (sb_ciphertext sealed) of
            None \<Rightarrow> Inl ''AEAD open failed: wrong recipient or tampered ciphertext''
          | Some plaintext \<Rightarrow> Inr plaintext))"

section \<open>Wire form\<close>

definition sv_sealed :: "SealedBody \<Rightarrow> sval" where
  "sv_sealed s = VTup
     [VSeq (map VU8 (sb_epk s)), VSeq (map VU8 (sb_nonce s)), VSeq (map VU8 (sb_ciphertext s))]"

definition ty_sealed :: sty where
  "ty_sealed = TTup [TSeq TU8, TSeq TU8, TSeq TU8]"

fun un_sealed :: "sval \<Rightarrow> SealedBody result" where
  "un_sealed (VTup [a, b, c]) =
     try_bind (un_bytes a) (\<lambda>a. try_bind (un_bytes b) (\<lambda>b. try_bind (un_bytes c) (\<lambda>c.
       Inr \<lparr>sb_epk = a, sb_nonce = b, sb_ciphertext = c\<rparr>)))"
| "un_sealed _ = Inl type_error"

definition ok_sealed :: "SealedBody \<Rightarrow> bool" where
  "ok_sealed s \<longleftrightarrow>
     length (sb_epk s) < usize_limit \<and> length (sb_nonce s) < usize_limit \<and> length (sb_ciphertext s) < usize_limit"

interpretation sealed_serde: serde_type sv_sealed ty_sealed un_sealed ok_sealed
  by unfold_locales (auto simp: sv_sealed_def ty_sealed_def ok_sealed_def)

definition try_encode_sealed :: "('i, 'c) crates \<Rightarrow> SealedBody \<Rightarrow> bytes result" where
  "try_encode_sealed X s =
     map_err (\<lambda>e. ''failed to encode sealed body: '' @ e) (bincode_serialize X (sv_sealed s))"

definition encode_sealed :: "('i, 'c) crates \<Rightarrow> SealedBody \<Rightarrow> bytes" where
  "encode_sealed X s = unwrap_or [] (try_encode_sealed X s)"

definition decode_sealed :: "('i, 'c) crates \<Rightarrow> bytes \<Rightarrow> SealedBody result" where
  "decode_sealed X bs =
     map_err (\<lambda>e. ''malformed sealed body: '' @ e) (from_bincode X ty_sealed un_sealed bs)"

section \<open>Laws of the primitives\<close>

text \<open>
  sha2: digest lengths. ed25519 / curve25519: the node id is a valid point, the Montgomery form of
  the signing scalar times the base point; scalar multiplication commutes on multiples of the base
  point; points have 32 bytes.
\<close>

definition keys_ok :: "('i, 'c) crates \<Rightarrow> bool" where
  "keys_ok X \<longleftrightarrow>
     (\<forall>bs. length (sha256 X bs) = 32 \<and> length (sha512 X bs) = 64) \<and>
     (\<forall>i. length (secret_bytes X i) = 32 \<and>
        decompress_montgomery X (node_id_of X i) =
          Some (mont_mul_base X (x25519_secret_from_ed25519 X (secret_bytes X i)))) \<and>
     (\<forall>a. length a = 32 \<longrightarrow> length (mont_mul_base X a) = 32) \<and>
     (\<forall>a b. length a = 32 \<and> length b = 32 \<longrightarrow>
        mont_mul X a (mont_mul_base X b) = mont_mul X b (mont_mul_base X a))"

text \<open>
  ChaCha20-Poly1305: keys have 32 bytes; exactly the plaintexts below the cipher's limit encrypt, to
  a ciphertext 16 bytes longer, which decrypts under the same key and nonce.
\<close>

definition AEAD_LIMIT :: nat where
  "AEAD_LIMIT = 2 ^ 38 - 64"

definition aead_ok :: "('i, 'c) crates \<Rightarrow> bool" where
  "aead_ok X \<longleftrightarrow>
     (\<forall>k. length k = 32 \<longrightarrow> aead_new X k = Inr ()) \<and>
     (\<forall>k n m. length k = 32 \<and> length n = 12 \<longrightarrow>
        (if length m < AEAD_LIMIT then
           \<exists>c. aead_encrypt X k n m = Some c \<and> length c = length m + 16 \<and> aead_decrypt X k n c = Some m
         else aead_encrypt X k n m = None))"

lemma keys_okD:
  assumes "keys_ok X"
  shows "length (sha256 X bs) = 32" and "length (sha512 X bs) = 64"
    and "decompress_montgomery X (node_id_of X i) =
      Some (mont_mul_base X (x25519_secret_from_ed25519 X (secret_bytes X i)))"
    and "length a = 32 \<Longrightarrow> length (mont_mul_base X a) = 32"
    and "length a = 32 \<Longrightarrow> length b = 32 \<Longrightarrow>
      mont_mul X a (mont_mul_base X b) = mont_mul X b (mont_mul_base X a)"
  using assms by (simp_all add: keys_ok_def)

lemma aead_okD:
  assumes "aead_ok X" and "length k = 32"
  shows "aead_new X k = Inr ()"
    and "length n = 12 \<Longrightarrow> length m < AEAD_LIMIT \<Longrightarrow>
      \<exists>c. aead_encrypt X k n m = Some c \<and> length c = length m + 16 \<and> aead_decrypt X k n c = Some m"
    and "length n = 12 \<Longrightarrow> \<not> length m < AEAD_LIMIT \<Longrightarrow> aead_encrypt X k n m = None"
proof -
  show "aead_new X k = Inr ()" using assms by (simp add: aead_ok_def)
  have law: "if length m < AEAD_LIMIT then
      \<exists>c. aead_encrypt X k n m = Some c \<and> length c = length m + 16 \<and> aead_decrypt X k n c = Some m
    else aead_encrypt X k n m = None" if "length n = 12" for n
    using assms that unfolding aead_ok_def by blast
  show "length n = 12 \<Longrightarrow> length m < AEAD_LIMIT \<Longrightarrow>
      \<exists>c. aead_encrypt X k n m = Some c \<and> length c = length m + 16 \<and> aead_decrypt X k n c = Some m"
    and "length n = 12 \<Longrightarrow> \<not> length m < AEAD_LIMIT \<Longrightarrow> aead_encrypt X k n m = None"
    using law by metis+
qed

section \<open>Clamping\<close>

lemma length_clamp [simp]: "length (clamp_scalar s) = length s"
  by (simp add: clamp_scalar_def Let_def)

lemma clamp_scalar_eq:
  "length s = 32 \<Longrightarrow> clamp_scalar s = s[0 := s ! 0 AND 248, 31 := (s ! 31 AND 127) OR 64]"
  by (simp add: clamp_scalar_def Let_def)

lemma clamp_bits:
  assumes "length s = 32"
  shows "clamp_scalar s ! 0 AND 7 = 0" and "clamp_scalar s ! 31 AND 192 = 64"
    and "0 < i \<Longrightarrow> i < 31 \<Longrightarrow> clamp_scalar s ! i = s ! i"
proof -
  have "(x AND 248) AND 7 = 0" for x :: u8
  proof -
    have "(x AND 248) AND 7 = x AND (248 AND 7)" by (simp only: and.assoc)
    also have "(248 AND 7 :: u8) = 0" by code_simp
    finally show ?thesis by simp
  qed
  with assms show "clamp_scalar s ! 0 AND 7 = 0" by (simp add: clamp_scalar_eq)
  have "((x AND 127) OR 64) AND 192 = 64" for x :: u8
  proof -
    have "((x AND 127) OR 64) AND 192 = (x AND (127 AND 192)) OR (64 AND 192)"
      by (simp only: bit.conj_disj_distrib2 and.assoc)
    also have "\<dots> = (x AND 64) OR 64"
    proof -
      have "(127 AND 192 :: u8) = 64" "(64 AND 192 :: u8) = 64" by code_simp+
      then show ?thesis by simp
    qed
    also have "\<dots> = 64" by (rule bit_word_eqI) (auto simp: bit_and_iff bit_or_iff)
    finally show ?thesis .
  qed
  with assms show "clamp_scalar s ! 31 AND 192 = 64" by (simp add: clamp_scalar_eq)
  show "0 < i \<Longrightarrow> i < 31 \<Longrightarrow> clamp_scalar s ! i = s ! i"
    using assms by (simp add: clamp_scalar_eq)
qed

section \<open>What was sealed opens\<close>

lemma length_secret [simp]: "keys_ok X \<Longrightarrow> length (x25519_secret_from_ed25519 X s) = 32"
  by (simp add: x25519_secret_from_ed25519_def keys_okD(2))

text \<open>The shape of what \<open>seal\<close> produces.\<close>

definition sealed_shape :: "SealedBody \<Rightarrow> bool" where
  "sealed_shape s \<longleftrightarrow>
     length (sb_epk s) = 32 \<and> length (sb_nonce s) = 12 \<and> length (sb_ciphertext s) < 2 ^ 38"

lemma sealed_shape_ok: "sealed_shape s \<Longrightarrow> ok_sealed s"
  by (simp add: sealed_shape_def ok_sealed_def usize_limit_def)

lemma seal_result:
  assumes keys: "keys_ok X" and aead: "aead_ok X" and "length eph = 32" and "length nonce = 12"
  shows "(length plaintext < AEAD_LIMIT \<longrightarrow>
      (\<exists>sealed. seal_body X eph nonce (node_id_of X i) plaintext = Inr sealed \<and>
        sealed_shape sealed \<and> open_body X (secret_bytes X i) sealed = Inr plaintext)) \<and>
    (\<not> length plaintext < AEAD_LIMIT \<longrightarrow>
      seal_body X eph nonce (node_id_of X i) plaintext = Inl ''AEAD seal failed'')"
proof -
  let ?e = "clamp_scalar eph" and ?s = "x25519_secret_from_ed25519 X (secret_bytes X i)"
  let ?epk = "mont_mul_base X ?e"
  let ?key = "kdf X (ecdh X ?e (mont_mul_base X ?s)) ?epk"
  have len: "length ?epk = 32" "length ?key = 32"
    using assms(3) by (simp_all add: keys_okD(4) [OF keys] kdf_def keys_okD(1) [OF keys])
  have same: "ecdh X ?s ?epk = ecdh X ?e (mont_mul_base X ?s)"
    using assms(3) keys by (simp add: ecdh_def keys_okD(5) [OF keys])
  have seal: "seal_body X eph nonce (node_id_of X i) plaintext =
      (case aead_encrypt X ?key nonce plaintext of
         None \<Rightarrow> Inl ''AEAD seal failed''
       | Some c \<Rightarrow> Inr \<lparr>sb_epk = ?epk, sb_nonce = nonce, sb_ciphertext = c\<rparr>)"
    by (simp add: seal_body_def x25519_public_from_node_id_def keys_okD(3) [OF keys] Let_def
        aead_okD(1) [OF aead len(2)])
  show ?thesis
  proof (cases "length plaintext < AEAD_LIMIT")
    case True
    from aead_okD(2) [OF aead len(2) assms(4) True] obtain c
      where c: "aead_encrypt X ?key nonce plaintext = Some c" "length c = length plaintext + 16"
        "aead_decrypt X ?key nonce c = Some plaintext" by blast
    let ?sealed = "\<lparr>sb_epk = ?epk, sb_nonce = nonce, sb_ciphertext = c\<rparr>"
    have "open_body X (secret_bytes X i) ?sealed = Inr plaintext"
      using assms(4) len(1)
      by (simp add: open_body_def X25519_PUBLIC_LEN_def NONCE_LEN_def Let_def same
          aead_okD(1) [OF aead len(2)] c(3))
    moreover have "sealed_shape ?sealed"
      using assms(4) True len(1) c(2) by (simp add: sealed_shape_def AEAD_LIMIT_def)
    ultimately show ?thesis using True seal c(1) by simp
  qed (simp add: seal aead_okD(3) [OF aead len(2) assms(4)])
qed

lemma seal_success_opens:
  assumes "keys_ok X" and "aead_ok X" and "length eph = 32" and "length nonce = 12"
    and "seal_body X eph nonce (node_id_of X i) plaintext = Inr sealed"
  shows "sealed_shape sealed \<and> open_body X (secret_bytes X i) sealed = Inr plaintext"
  using seal_result [OF assms(1-4), of plaintext i] assms(5)
  by (cases "length plaintext < AEAD_LIMIT") auto

lemma encode_decode_sealed:
  assumes "bincode_ok X" and "ok_sealed s"
  shows "decode_sealed X (encode_sealed X s) = Inr s"
proof -
  have "encode_sealed X s = unwrap_or [] (bincode_serialize X (sv_sealed s))"
    by (cases "bincode_serialize X (sv_sealed s)") (simp_all add: encode_sealed_def try_encode_sealed_def)
  then show ?thesis
    using sealed_serde.serde_decode [OF assms] by (simp add: decode_sealed_def)
qed

section \<open>The sample crates satisfy the laws\<close>

lemma sample_keys_ok: "keys_ok sample"
proof -
  have "map2 (*) a b = map2 (*) b a" for a b :: bytes
    by (simp add: zip_commute [of a b] comp_def mult.commute case_prod_unfold)
  moreover have "s_scalar (replicate 32 i) = clamp_scalar (replicate 32 i)" for i
    by (simp add: s_scalar_def clamp_scalar_eq)
  ultimately show ?thesis
    by (simp add: keys_ok_def sample_def tail32_def min_def s_decompress_def s_mont_mul_def
        x25519_secret_from_ed25519_def)
qed

lemma sample_aead_ok: "aead_ok sample"
  by (simp add: aead_ok_def sample_def s_aead_encrypt_def s_aead_decrypt_def Let_def AEAD_LIMIT_def)

end
