(* ===== verification/Attachments.thy ===== *)
theory Attachments
  imports Envelopes
begin

text \<open>
  Attachments (src/src/attachment.rs): the sealed payload, its constructors with the content type
  guessed from the extension, and its wire form, which round-trips.
\<close>

record Attachment =
  at_filename :: string
  at_content_type :: string
  at_bytes :: bytes

definition new_attachment :: "string \<Rightarrow> string \<Rightarrow> bytes \<Rightarrow> Attachment" where
  "new_attachment filename content_type bs =
     \<lparr>at_filename = filename, at_content_type = content_type, at_bytes = bs\<rparr>"

definition guess_content_type :: "string \<Rightarrow> string" where
  "guess_content_type filename =
     (let ext = to_ascii_lowercase (after_last CHR ''.'' filename) in
      if ext = ''txt'' \<or> ext = ''log'' \<or> ext = ''md'' then ''text/plain''
      else if ext = ''html'' \<or> ext = ''htm'' then ''text/html''
      else if ext = ''json'' then ''application/json''
      else if ext = ''pdf'' then ''application/pdf''
      else if ext = ''png'' then ''image/png''
      else if ext = ''jpg'' \<or> ext = ''jpeg'' then ''image/jpeg''
      else if ext = ''gif'' then ''image/gif''
      else if ext = ''zip'' then ''application/zip''
      else if ext = ''csv'' then ''text/csv''
      else if ext = ''wasm'' then ''application/wasm''
      else ''application/octet-stream'')"

definition from_file :: "string \<Rightarrow> bytes \<Rightarrow> Attachment" where
  "from_file filename bs =
     \<lparr>at_filename = filename, at_content_type = guess_content_type filename, at_bytes = bs\<rparr>"

definition attachment_len :: "Attachment \<Rightarrow> nat" where
  "attachment_len a = length (at_bytes a)"

definition attachment_is_empty :: "Attachment \<Rightarrow> bool" where
  "attachment_is_empty a \<longleftrightarrow> at_bytes a = []"

section \<open>Wire form\<close>

definition sv_attachment :: "Attachment \<Rightarrow> sval" where
  "sv_attachment a = VTup [VStr (at_filename a), VStr (at_content_type a), VSeq (map VU8 (at_bytes a))]"

definition ty_attachment :: sty where
  "ty_attachment = TTup [TStr, TStr, TSeq TU8]"

fun un_attachment :: "sval \<Rightarrow> Attachment result" where
  "un_attachment (VTup [a, b, c]) =
     try_bind (un_str a) (\<lambda>a. try_bind (un_str b) (\<lambda>b. try_bind (un_bytes c) (\<lambda>c.
       Inr \<lparr>at_filename = a, at_content_type = b, at_bytes = c\<rparr>)))"
| "un_attachment _ = Inl type_error"

definition ok_attachment :: "Attachment \<Rightarrow> bool" where
  "ok_attachment a \<longleftrightarrow>
     rust_string (at_filename a) \<and> rust_string (at_content_type a) \<and> length (at_bytes a) < usize_limit"

interpretation attachment_serde: serde_type sv_attachment ty_attachment un_attachment ok_attachment
  by unfold_locales (auto simp: sv_attachment_def ty_attachment_def ok_attachment_def)

definition encode_attachment :: "('i, 'c) crates \<Rightarrow> Attachment \<Rightarrow> bytes result" where
  "encode_attachment X a =
     map_err (\<lambda>e. ''failed to encode attachment: '' @ e) (bincode_serialize X (sv_attachment a))"

definition decode_attachment :: "('i, 'c) crates \<Rightarrow> bytes \<Rightarrow> Attachment result" where
  "decode_attachment X bs =
     map_err (\<lambda>e. ''malformed attachment: '' @ e) (from_bincode X ty_attachment un_attachment bs)"

lemma encode_decode_attachment:
  assumes "bincode_ok X" and "ok_attachment a"
  shows "\<exists>bs. encode_attachment X a = Inr bs \<and> decode_attachment X bs = Inr a"
  using attachment_serde.serde_roundtrip [OF assms]
  by (auto simp: encode_attachment_def decode_attachment_def)

section \<open>The guessed type\<close>

lemma guessed_ascii: "set (guess_content_type f) \<subseteq> set ''abcdefghijklmnopqrstuvwxyz/-''"
  by (simp add: guess_content_type_def Let_def)

lemma from_file_ok:
  assumes "rust_string filename" and "length bs < usize_limit"
  shows "ok_attachment (from_file filename bs)"
proof -
  have "length (guess_content_type filename) < usize_limit"
    by (simp add: guess_content_type_def Let_def usize_limit_def)
  moreover have "\<forall>c \<in> set (guess_content_type filename). of_char c \<le> (127 :: nat)"
    using guessed_ascii [of filename] by (auto dest!: subsetD)
  ultimately show ?thesis
    using assms by (simp add: ok_attachment_def from_file_def rust_string_ascii)
qed

lemma guess_ignores_case: "guess_content_type (to_ascii_lowercase f) = guess_content_type f"
proof -
  have "lower_char c = CHR ''.'' \<longleftrightarrow> c = CHR ''.''" for c by (rule lower_char_eqI) simp_all
  then have "after_last CHR ''.'' (to_ascii_lowercase f) = to_ascii_lowercase (after_last CHR ''.'' f)"
    by (simp add: after_last_def to_ascii_lowercase_def rev_map takeWhile_map comp_def)
  then show ?thesis by (simp add: guess_content_type_def)
qed

end
