(* ===== verification/Mail_Client.thy ===== *)
theory Mail_Client
  imports Mail_Effects Protocol Sealed_Box Attachments Size_Limits Threads Screening
begin

text \<open>
  The mail client (src/src/client.rs): composing and sending, draining and decrypting, receipts,
  attachments, screening. The \<open>Transport\<close> trait, the operating system's randomness and the clock are
  the record \<open>Host\<close>, over an arbitrary world \<open>'w\<close>; \<open>{:?}\<close> of a string and of a reply are fields of
  it, since their texts only appear in error messages. \<open>ce_transport\<close> is the implementation over
  \<open>ce_rs::CeClient\<close>, whose operations are its arguments.
\<close>

section \<open>The host\<close>

definition DEFAULT_TIMEOUT_MS :: u64 where
  "DEFAULT_TIMEOUT_MS = 30000"

record 'w Host =
  put_blob :: "bytes \<Rightarrow> ('w, string) io"
  get_blob :: "string \<Rightarrow> ('w, bytes) io"
  mesh_request :: "string \<Rightarrow> bytes \<Rightarrow> u64 \<Rightarrow> ('w, bytes) io"
  sender_standing :: "string \<Rightarrow> ('w, SenderStanding) io"
  random_bytes :: "nat \<Rightarrow> ('w, bytes) io"
  now_secs :: "'w \<Rightarrow> u64"
  debug_string :: "string \<Rightarrow> string"
  debug_reply :: "MailReply \<Rightarrow> string"

text \<open>The trait's default \<open>sender_standing\<close>.\<close>

definition default_standing :: "string \<Rightarrow> ('w, SenderStanding) io" where
  "default_standing node_hex = io_ok Newcomer"

text \<open>\<open>ce_rs::CeClient\<close>: blobs, requests on a topic, and the history of a node.\<close>

record ('w, 'h) CeClient =
  ce_put_blob :: "bytes \<Rightarrow> ('w, string) io"
  ce_get_blob :: "string \<Rightarrow> ('w, bytes) io"
  ce_request :: "string \<Rightarrow> string \<Rightarrow> bytes \<Rightarrow> u64 \<Rightarrow> ('w, bytes) io"
  ce_history :: "string \<Rightarrow> ('w, 'h) io"
  ce_is_newcomer :: "'h \<Rightarrow> bool"

definition ce_standing :: "('w, 'h) CeClient \<Rightarrow> string \<Rightarrow> ('w, SenderStanding) io" where
  "ce_standing ce node_hex = (\<lambda>w.
     case ce_history ce node_hex w of
       (Inr h, w') \<Rightarrow> (Inr (standing_from_history (ce_is_newcomer ce) h), w')
     | (Inl _, w') \<Rightarrow> (Inr Newcomer, w'))"

definition ce_transport :: "('w, 'h) CeClient \<Rightarrow> 'w Host \<Rightarrow> 'w Host" where
  "ce_transport ce os = os
     \<lparr>put_blob := ce_put_blob ce,
      get_blob := ce_get_blob ce,
      mesh_request := (\<lambda>to payload timeout_ms. ce_request ce to MAIL_TOPIC payload timeout_ms),
      sender_standing := ce_standing ce\<rparr>"

section \<open>Structured bodies\<close>

definition BODY_CONTENT_MAGIC :: u8 where
  "BODY_CONTENT_MAGIC = 0xC5"

record BodyContent =
  bc_subject :: string
  bc_body :: bytes

definition sv_content :: "BodyContent \<Rightarrow> sval" where
  "sv_content c = VTup [VStr (bc_subject c), VSeq (map VU8 (bc_body c))]"

definition ty_content :: sty where
  "ty_content = TTup [TStr, TSeq TU8]"

fun un_content :: "sval \<Rightarrow> BodyContent result" where
  "un_content (VTup [a, b]) =
     try_bind (un_str a) (\<lambda>a. try_bind (un_bytes b) (\<lambda>b. Inr \<lparr>bc_subject = a, bc_body = b\<rparr>))"
| "un_content _ = Inl type_error"

definition ok_content :: "BodyContent \<Rightarrow> bool" where
  "ok_content c \<longleftrightarrow> rust_string (bc_subject c) \<and> length (bc_body c) < usize_limit"

interpretation content_serde: serde_type sv_content ty_content un_content ok_content
  by unfold_locales (auto simp: sv_content_def ty_content_def ok_content_def)

definition encode_content :: "('i, 'c) crates \<Rightarrow> BodyContent \<Rightarrow> bytes result" where
  "encode_content X c =
     try_bind (map_err (\<lambda>e. ''encode body content: '' @ e) (bincode_serialize X (sv_content c)))
       (\<lambda>bs. Inr (BODY_CONTENT_MAGIC # bs))"

definition try_decode_content :: "('i, 'c) crates \<Rightarrow> bytes \<Rightarrow> BodyContent option" where
  "try_decode_content X plaintext =
     (case plaintext of
        [] \<Rightarrow> None
      | b # rest \<Rightarrow>
          (if b = BODY_CONTENT_MAGIC then
             (case from_bincode X ty_content un_content rest of Inr c \<Rightarrow> Some c | Inl _ \<Rightarrow> None)
           else None))"

definition REDACTED_SUBJECT :: string where
  "REDACTED_SUBJECT = ''(encrypted subject)''"

section \<open>Messages, options, the client\<close>

record Message =
  msg_envelope :: Envelope
  msg_body :: bytes
  msg_sealed_subject :: "string option"

definition message_subject :: "Message \<Rightarrow> string" where
  "message_subject m =
     (case msg_sealed_subject m of Some s \<Rightarrow> s | None \<Rightarrow> eb_subject (en_body (msg_envelope m)))"

definition message_id_of :: "('i, 'c) crates \<Rightarrow> Message \<Rightarrow> MessageId" where
  "message_id_of X m = envelope_message_id X (msg_envelope m)"

record 'c SendOptions =
  so_to :: string
  so_subject :: string
  so_body :: bytes
  so_attachments :: "Attachment list"
  so_in_reply_to :: string
  so_seal_subject :: bool
  so_postage_receipt :: string
  so_mailbox :: "string option"
  so_grant :: "'c list"

record 'i MailClient =
  mc_identity :: 'i
  mc_timeout_ms :: u64
  mc_limits :: Limits

definition new_client :: "'i \<Rightarrow> 'i MailClient" where
  "new_client i = \<lparr>mc_identity = i, mc_timeout_ms = DEFAULT_TIMEOUT_MS, mc_limits = default_limits\<rparr>"

definition client_with_timeout :: "u64 \<Rightarrow> 'i MailClient \<Rightarrow> 'i MailClient" where
  "client_with_timeout t c = c\<lparr>mc_timeout_ms := t\<rparr>"

definition client_with_limits :: "Limits \<Rightarrow> 'i MailClient \<Rightarrow> 'i MailClient" where
  "client_with_limits l c = c\<lparr>mc_limits := l\<rparr>"

definition client_hex :: "('i, 'c) crates \<Rightarrow> 'i MailClient \<Rightarrow> string" where
  "client_hex X c = node_id_hex X (mc_identity c)"

section \<open>Sending\<close>

definition round_trip ::
  "('i, 'c) crates \<Rightarrow> 'w Host \<Rightarrow> 'i MailClient \<Rightarrow> string \<Rightarrow> 'c MailRequest \<Rightarrow> ('w, MailReply) io" where
  "round_trip X H c to req =
     io_bind (mesh_request H to (encode_request X req) (mc_timeout_ms c))
       (\<lambda>reply_bytes. io_lift (decode_reply X reply_bytes))"

text \<open>\<open>crypto::seal\<close> with its draws from the system's randomness.\<close>

definition seal_io :: "('i, 'c) crates \<Rightarrow> 'w Host \<Rightarrow> node_id \<Rightarrow> bytes \<Rightarrow> ('w, SealedBody) io" where
  "seal_io X H recipient plaintext =
     io_bind (io_lift (x25519_public_from_node_id X recipient)) (\<lambda>_.
     io_bind (random_bytes H 32) (\<lambda>eph.
     io_bind (random_bytes H NONCE_LEN) (\<lambda>nonce.
       io_lift (seal_body X eph nonce recipient plaintext))))"

text \<open>Seal, encode, store: the three steps every payload goes through.\<close>

definition seal_and_put :: "('i, 'c) crates \<Rightarrow> 'w Host \<Rightarrow> node_id \<Rightarrow> bytes \<Rightarrow> ('w, string) io" where
  "seal_and_put X H recipient plaintext =
     io_bind (seal_io X H recipient plaintext) (\<lambda>sealed.
     io_bind (io_lift (try_encode_sealed X sealed)) (\<lambda>bs. put_blob H bs))"

definition seal_and_store :: "('i, 'c) crates \<Rightarrow> 'w Host \<Rightarrow> node_id \<Rightarrow> bytes \<Rightarrow> ('w, string) io" where
  "seal_and_store X H recipient body =
     (if body = [] then io_ok [] else seal_and_put X H recipient body)"

definition put_attachment :: "('i, 'c) crates \<Rightarrow> 'w Host \<Rightarrow> node_id \<Rightarrow> Attachment \<Rightarrow> ('w, string) io" where
  "put_attachment X H recipient a =
     io_bind (io_lift (encode_attachment X a)) (\<lambda>plaintext. seal_and_put X H recipient plaintext)"

text \<open>The client-side bounds, in the order they are checked.\<close>

definition check_payload :: "'w Host \<Rightarrow> Limits \<Rightarrow> 'c SendOptions \<Rightarrow> unit result" where
  "check_payload H l opts =
     (if length (so_body opts) > max_body_bytes l then
        Inl (too_large ''body too large: '' (length (so_body opts)) (max_body_bytes l) '' bytes'')
      else if length (so_attachments opts) > max_attachments l then
        Inl (too_large ''too many attachments: '' (length (so_attachments opts)) (max_attachments l) [])
      else
        case find (\<lambda>a. length (at_bytes a) > max_attachment_bytes l) (so_attachments opts) of
          Some a \<Rightarrow>
            Inl (too_large (''attachment '' @ debug_string H (at_filename a) @ '' too large: '')
              (length (at_bytes a)) (max_attachment_bytes l) '' bytes'')
        | None \<Rightarrow> Inr ())"

definition put_body ::
  "('i, 'c) crates \<Rightarrow> 'w Host \<Rightarrow> node_id \<Rightarrow> 'c SendOptions \<Rightarrow> ('w, string \<times> string) io" where
  "put_body X H recipient opts =
     (if so_seal_subject opts then
        io_bind (io_lift (encode_content X \<lparr>bc_subject = so_subject opts, bc_body = so_body opts\<rparr>))
          (\<lambda>plaintext. io_bind (seal_and_put X H recipient plaintext) (\<lambda>cid. io_ok (cid, REDACTED_SUBJECT)))
      else
        io_bind (seal_and_store X H recipient (so_body opts)) (\<lambda>cid. io_ok (cid, so_subject opts)))"

definition compose_envelope ::
  "('i, 'c) crates \<Rightarrow> 'i \<Rightarrow> 'c SendOptions \<Rightarrow> string \<Rightarrow> string \<Rightarrow> string list \<Rightarrow> u64 \<Rightarrow> Envelope" where
  "compose_envelope X i opts body_cid subject attachment_cids now =
     seal_envelope X i
       \<lparr>eb_from = [], eb_to = so_to opts, eb_subject = subject, eb_body_cid = body_cid,
        eb_attachment_cids = attachment_cids, eb_in_reply_to = so_in_reply_to opts, eb_sent_at = now,
        eb_postage_receipt = so_postage_receipt opts\<rparr>"

definition deliver_envelope ::
  "('i, 'c) crates \<Rightarrow> 'w Host \<Rightarrow> 'i MailClient \<Rightarrow> 'c SendOptions \<Rightarrow> Envelope \<Rightarrow> ('w, string) io" where
  "deliver_envelope X H c opts envelope =
     (let mid = envelope_message_id X envelope;
          (target, grant) =
            (case so_mailbox opts of Some mb \<Rightarrow> (mb, so_grant opts) | None \<Rightarrow> (so_to opts, []))
      in
      io_bind (round_trip X H c target (Deliver envelope grant)) (\<lambda>reply.
        case reply of
          Delivered _ \<Rightarrow> io_ok mid
        | Error m \<Rightarrow> io_err (''delivery rejected: '' @ m)
        | other \<Rightarrow> io_err (''unexpected reply to Deliver: '' @ debug_reply H other)))"

definition send_mail ::
  "('i, 'c) crates \<Rightarrow> 'w Host \<Rightarrow> 'i MailClient \<Rightarrow> 'c SendOptions \<Rightarrow> ('w, string) io" where
  "send_mail X H c opts =
     io_bind (io_lift (parse_node_id X (so_to opts))) (\<lambda>recipient.
     io_bind (io_lift (check_payload H (mc_limits c) opts)) (\<lambda>_.
     io_bind (put_body X H recipient opts) (\<lambda>(body_cid, subject).
     io_bind (io_map (put_attachment X H recipient) (so_attachments opts)) (\<lambda>attachment_cids.
       (\<lambda>w. deliver_envelope X H c opts
          (compose_envelope X (mc_identity c) opts body_cid subject attachment_cids (now_secs H w)) w)))))"

section \<open>Opening\<close>

definition open_content ::
  "('i, 'c) crates \<Rightarrow> 'w Host \<Rightarrow> 'i MailClient \<Rightarrow> Envelope \<Rightarrow> ('w, bytes \<times> string option) io" where
  "open_content X H c env =
     (if eb_body_cid (en_body env) = [] then io_ok ([], None)
      else
        io_bind (get_blob H (eb_body_cid (en_body env))) (\<lambda>bs.
        io_bind (io_lift (decode_sealed X bs)) (\<lambda>sealed.
        io_bind (io_lift (open_body X (secret_bytes X (mc_identity c)) sealed)) (\<lambda>plaintext.
          case try_decode_content X plaintext of
            Some content \<Rightarrow> io_ok (bc_body content, Some (bc_subject content))
          | None \<Rightarrow> io_ok (plaintext, None)))))"

fun compose_messages ::
  "('i, 'c) crates \<Rightarrow> 'w Host \<Rightarrow> 'i MailClient \<Rightarrow> Envelope list \<Rightarrow> 'w \<Rightarrow> Message list \<times> 'w" where
  "compose_messages X H c [] w = ([], w)"
| "compose_messages X H c (env # envs) w =
     (if \<not> is_ok (verify_envelope X env) then compose_messages X H c envs w
      else
        let (r, w) = open_content X H c env w;
            (body, sealed_subject) = unwrap_or ([], None) r;
            (rest, w) = compose_messages X H c envs w
        in (\<lparr>msg_envelope = env, msg_body = body, msg_sealed_subject = sealed_subject\<rparr> # rest, w))"

definition open_envelope_body :: "('i, 'c) crates \<Rightarrow> 'w Host \<Rightarrow> 'i MailClient \<Rightarrow> Envelope \<Rightarrow> ('w, bytes) io" where
  "open_envelope_body X H c envelope = io_bind (open_content X H c envelope) (\<lambda>p. io_ok (fst p))"

definition open_message :: "('i, 'c) crates \<Rightarrow> 'w Host \<Rightarrow> 'i MailClient \<Rightarrow> Envelope \<Rightarrow> ('w, Message) io" where
  "open_message X H c envelope =
     io_bind (open_content X H c envelope) (\<lambda>(body, sealed_subject).
       io_ok \<lparr>msg_envelope = envelope, msg_body = body, msg_sealed_subject = sealed_subject\<rparr>)"

definition open_attachment ::
  "('i, 'c) crates \<Rightarrow> 'w Host \<Rightarrow> 'i MailClient \<Rightarrow> Envelope \<Rightarrow> nat \<Rightarrow> ('w, Attachment) io" where
  "open_attachment X H c envelope index =
     (let cids = eb_attachment_cids (en_body envelope) in
      if index \<ge> length cids then io_err (''attachment index '' @ show_nat index @ '' out of range'')
      else if cids ! index = [] then io_err (''attachment '' @ show_nat index @ '' has no CID'')
      else
        io_bind (get_blob H (cids ! index)) (\<lambda>bs.
        io_bind (io_lift (decode_sealed X bs)) (\<lambda>sealed.
        io_bind (io_lift (open_body X (secret_bytes X (mc_identity c)) sealed)) (\<lambda>plaintext.
          io_lift (decode_attachment X plaintext)))))"

definition open_attachments ::
  "('i, 'c) crates \<Rightarrow> 'w Host \<Rightarrow> 'i MailClient \<Rightarrow> Envelope \<Rightarrow> ('w, Attachment list) io" where
  "open_attachments X H c envelope =
     io_map (open_attachment X H c envelope) [0..<length (eb_attachment_cids (en_body envelope))]"

section \<open>Draining\<close>

definition drain_inbox ::
  "('i, 'c) crates \<Rightarrow> 'w Host \<Rightarrow> 'i MailClient \<Rightarrow> string \<Rightarrow> nat \<Rightarrow> 'c list \<Rightarrow> ('w, Message list \<times> nat) io" where
  "drain_inbox X H c mailbox since grant =
     io_bind (round_trip X H c mailbox (Drain (client_hex X c) since grant)) (\<lambda>reply.
       case reply of
         Drained envelopes cursor \<Rightarrow>
           (\<lambda>w. let (out, w) = compose_messages X H c envelopes w in (Inr (out, cursor), w))
       | Error m \<Rightarrow> io_err (''drain rejected: '' @ m)
       | other \<Rightarrow> io_err (''unexpected reply to Drain: '' @ debug_reply H other))"

definition drain_inbox_page ::
  "('i, 'c) crates \<Rightarrow> 'w Host \<Rightarrow> 'i MailClient \<Rightarrow> string \<Rightarrow> nat \<Rightarrow> nat \<Rightarrow> 'c list \<Rightarrow>
   ('w, Message list \<times> nat \<times> bool) io" where
  "drain_inbox_page X H c mailbox since limit grant =
     io_bind (round_trip X H c mailbox (DrainPage (client_hex X c) since limit grant)) (\<lambda>reply.
       case reply of
         Page envelopes cursor further \<Rightarrow>
           (\<lambda>w. let (out, w) = compose_messages X H c envelopes w in (Inr (out, cursor, further), w))
       | Error m \<Rightarrow> io_err (''drain page rejected: '' @ m)
       | other \<Rightarrow> io_err (''unexpected reply to DrainPage: '' @ debug_reply H other))"

definition drain_inbox_threaded ::
  "('i, 'c) crates \<Rightarrow> 'w Host \<Rightarrow> ((MessageId, Envelope list) fmap \<Rightarrow> (MessageId \<times> Envelope list) list) \<Rightarrow>
   'i MailClient \<Rightarrow> string \<Rightarrow> nat \<Rightarrow> 'c list \<Rightarrow> ('w, Conversation list \<times> nat) io" where
  "drain_inbox_threaded X H iteration c mailbox since grant =
     io_bind (drain_inbox X H c mailbox since grant) (\<lambda>(msgs, cursor).
       io_ok (group_threads X iteration (map msg_envelope msgs), cursor))"

text \<open>The loop of \<open>screen_inbox\<close>: a failed standing lookup counts as a newcomer.\<close>

fun screen_messages ::
  "('a \<Rightarrow> 'b :: linorder) \<Rightarrow> 'w Host \<Rightarrow> 'a ScreeningPolicy \<Rightarrow> (string \<Rightarrow> 'a option) \<Rightarrow> Message list \<Rightarrow> 'w \<Rightarrow>
   (Message list \<times> Message list) \<times> 'w" where
  "screen_messages base H policy verify_postage [] w = (([], []), w)"
| "screen_messages base H policy verify_postage (m # ms) w =
     (let (r, w) = sender_standing H (eb_from (en_body (msg_envelope m))) w;
          verdict = screen base policy (msg_envelope m) (unwrap_or Newcomer r) verify_postage;
          ((inbox, spam), w) = screen_messages base H policy verify_postage ms w
      in case verdict of
           Inbox _ \<Rightarrow> ((m # inbox, spam), w)
         | Spam \<Rightarrow> ((inbox, m # spam), w)
         | Rejected \<Rightarrow> ((inbox, spam), w))"

definition screen_inbox ::
  "('a \<Rightarrow> 'b :: linorder) \<Rightarrow> ('i, 'c) crates \<Rightarrow> 'w Host \<Rightarrow> 'i MailClient \<Rightarrow> string \<Rightarrow> nat \<Rightarrow> 'c list \<Rightarrow>
   'a ScreeningPolicy \<Rightarrow> (string \<Rightarrow> 'a option) \<Rightarrow> ('w, Message list \<times> Message list \<times> nat) io" where
  "screen_inbox base X H c mailbox since grant policy verify_postage =
     io_bind (drain_inbox X H c mailbox since grant) (\<lambda>(msgs, cursor) w.
       let ((inbox, spam), w) = screen_messages base H policy verify_postage msgs w
       in (Inr (inbox, spam, cursor), w))"

section \<open>Receipts and acknowledgement\<close>

definition send_receipt ::
  "('i, 'c) crates \<Rightarrow> 'w Host \<Rightarrow> 'i MailClient \<Rightarrow> string \<Rightarrow> string \<Rightarrow> string \<Rightarrow> ReceiptKind \<Rightarrow> 'c list \<Rightarrow> ('w, bool) io" where
  "send_receipt X H c mailbox for_sender mid kind grant = (\<lambda>w.
     let receipt = issue_receipt X (mc_identity c) mid kind (now_secs H w) in
     io_bind (round_trip X H c mailbox (PutReceipt for_sender receipt grant)) (\<lambda>reply.
       case reply of
         ReceiptAccepted duplicate \<Rightarrow> io_ok duplicate
       | Error m \<Rightarrow> io_err (''receipt rejected: '' @ m)
       | other \<Rightarrow> io_err (''unexpected reply to PutReceipt: '' @ debug_reply H other)) w)"

definition collect_client_receipts ::
  "('i, 'c) crates \<Rightarrow> 'w Host \<Rightarrow> 'i MailClient \<Rightarrow> string \<Rightarrow> 'c list \<Rightarrow> ('w, Receipt list) io" where
  "collect_client_receipts X H c mailbox grant =
     io_bind (round_trip X H c mailbox (CollectReceipts (client_hex X c) grant)) (\<lambda>reply.
       case reply of
         Receipts receipts \<Rightarrow> io_ok (filter (\<lambda>r. is_ok (verify_receipt X r)) receipts)
       | Error m \<Rightarrow> io_err (''collect rejected: '' @ m)
       | other \<Rightarrow> io_err (''unexpected reply to CollectReceipts: '' @ debug_reply H other))"

definition ack_inbox ::
  "('i, 'c) crates \<Rightarrow> 'w Host \<Rightarrow> 'i MailClient \<Rightarrow> string \<Rightarrow> nat \<Rightarrow> 'c list \<Rightarrow> ('w, nat) io" where
  "ack_inbox X H c mailbox cursor grant =
     io_bind (round_trip X H c mailbox (Ack (client_hex X c) cursor grant)) (\<lambda>reply.
       case reply of
         Acked removed \<Rightarrow> io_ok removed
       | Error m \<Rightarrow> io_err (''ack rejected: '' @ m)
       | other \<Rightarrow> io_err (''unexpected reply to Ack: '' @ debug_reply H other))"

end
