(* ===== verification/Mail_Network.thy ===== *)
theory Mail_Network
  imports Mail_Client Mail_Service
begin

text \<open>
  The contract between the client and its transport (\<open>mail_network\<close>): a blob store addressed by
  content, requests answered by the service at the target, and randomness. The client's lemmas are
  proved from the contract: what is put survives, and a successful send followed by a drain hands
  the recipient what was sent. The in-memory transport of src/src/client.rs (\<open>FakeNet\<close>, \<open>FakeHandle\<close>)
  is its instance.
\<close>

section \<open>Payloads\<close>

definition payloads :: "('i, 'c) crates \<Rightarrow> bytes set" where
  "payloads X = {encode_sealed X s |s. sealed_shape s}"

text \<open>
  Content addressing: a CID is a non-empty text, and the blobs the client makes have distinct CIDs
  (SHA-256 is collision-resistant).
\<close>

definition cids_ok :: "('i, 'c) crates \<Rightarrow> (bytes \<Rightarrow> string) \<Rightarrow> bool" where
  "cids_ok X cid \<longleftrightarrow> (\<forall>bs. rust_string (cid bs) \<and> cid bs \<noteq> []) \<and> inj_on cid (payloads X)"

text \<open>A blob that node \<open>j\<close> opens to \<open>pt\<close>.\<close>

definition opens_to :: "('i, 'c) crates \<Rightarrow> 'i \<Rightarrow> bytes \<Rightarrow> bytes \<Rightarrow> bool" where
  "opens_to X j blob pt \<longleftrightarrow>
     (\<exists>s. decode_sealed X blob = Inr s \<and> open_body X (secret_bytes X j) s = Inr pt)"

section \<open>The contract\<close>

locale mail_network =
  fixes X :: "('i, 'c) crates"
    and H :: "node_id \<Rightarrow> 'w Host"
    and cid :: "bytes \<Rightarrow> string"
    and blobs :: "'w \<Rightarrow> string \<Rightarrow> bytes option"
    and service_at :: "'w \<Rightarrow> string \<Rightarrow> MailService option"
    and up :: "'w \<Rightarrow> bool"
    and clock :: u64
    and revoked :: "node_id \<Rightarrow> u64 \<Rightarrow> bool"
  assumes put_law: "up w \<Longrightarrow> \<exists>w'. put_blob (H me) bs w = (Inr (cid bs), w') \<and>
      blobs w' = (blobs w)(cid bs \<mapsto> bs) \<and> service_at w' = service_at w \<and> up w'"
    and get_law: "up w \<Longrightarrow> blobs w c = Some bs \<Longrightarrow> get_blob (H me) c w = (Inr bs, w)"
    and get_world: "snd (get_blob (H me) c w) = w"
    and request_law: "up w \<Longrightarrow> service_at w to = Some svc \<Longrightarrow> decode_request X payload = Inr req \<Longrightarrow>
      handle X me req clock revoked svc = Returned (reply, svc') \<Longrightarrow>
      \<exists>w'. mesh_request (H me) to payload timeout w = (Inr (encode_reply X reply), w') \<and>
        blobs w' = blobs w \<and> service_at w' = (service_at w)(to \<mapsto> svc') \<and> up w'"
    and random_law: "up w \<Longrightarrow> \<exists>bs w'. random_bytes (H me) n w = (Inr bs, w') \<and> length bs = n \<and>
      blobs w' = blobs w \<and> service_at w' = service_at w \<and> up w'"
begin

lemma seal_and_put_result:
  assumes laws: "keys_ok X" "aead_ok X" "bincode_ok X" and "up w"
    and run: "seal_and_put X (H me) (node_id_of X j) pt w = (Inr c, w')"
  shows "\<exists>p. c = cid p \<and> p \<in> payloads X \<and> opens_to X j p pt \<and> blobs w' = (blobs w)(c \<mapsto> p) \<and>
    service_at w' = service_at w \<and> up w'"
proof -
  from run obtain sealed w1 where s: "seal_io X (H me) (node_id_of X j) pt w = (Inr sealed, w1)"
    and rest: "io_bind (io_lift (try_encode_sealed X sealed)) (put_blob (H me)) w1 = (Inr c, w')"
    unfolding seal_and_put_def by (rule io_bind_InrE)
  obtain eph w2 where e: "random_bytes (H me) 32 w = (Inr eph, w2)" "length eph = 32"
    "blobs w2 = blobs w" "service_at w2 = service_at w" "up w2"
    using random_law [OF \<open>up w\<close>] by blast
  obtain nonce w3 where n: "random_bytes (H me) NONCE_LEN w2 = (Inr nonce, w3)" "length nonce = 12"
    "blobs w3 = blobs w2" "service_at w3 = service_at w2" "up w3"
    using random_law [OF e(5), of me NONCE_LEN] by (auto simp: NONCE_LEN_def)
  have "w1 = w3" and body: "seal_body X eph nonce (node_id_of X j) pt = Inr sealed"
    using s e(1) n(1)
    by (auto simp: seal_io_def x25519_public_from_node_id_def keys_okD(3) [OF laws(1)])
  from seal_success_opens [OF laws(1,2) e(2) n(2) body] have shape: "sealed_shape sealed"
    and opens: "open_body X (secret_bytes X j) sealed = Inr pt" by auto
  from rest obtain bs where bs: "try_encode_sealed X sealed = Inr bs"
    and put: "put_blob (H me) bs w1 = (Inr c, w')"
    by (auto elim!: io_bind_InrE)
  then have p: "bs = encode_sealed X sealed" by (simp add: encode_sealed_def)
  have "opens_to X j bs pt"
    using encode_decode_sealed [OF laws(3) sealed_shape_ok [OF shape]] opens p
    by (simp add: opens_to_def)
  moreover have "bs \<in> payloads X" using shape p by (auto simp: payloads_def)
  ultimately show ?thesis
    using put_law [of w1 me bs] put n e \<open>w1 = w3\<close> by auto
qed

text \<open>Blobs that are in the store and are payloads stay there when payloads are put.\<close>

definition keeps :: "'w \<Rightarrow> 'w \<Rightarrow> bool" where
  "keeps w w' \<longleftrightarrow>
     (\<forall>p \<in> payloads X. blobs w (cid p) = Some p \<longrightarrow> blobs w' (cid p) = Some p) \<and>
     service_at w' = service_at w"

lemma keeps_refl [simp]: "keeps w w"
  by (simp add: keeps_def)

lemma keeps_trans: "keeps a b \<Longrightarrow> keeps b c \<Longrightarrow> keeps a c"
  by (auto simp: keeps_def)

lemma put_keeps:
  assumes "cids_ok X cid" and "p \<in> payloads X" and "blobs w' = (blobs w)(cid p \<mapsto> p)"
    and "service_at w' = service_at w"
  shows "keeps w w'"
  using assms by (auto simp: keeps_def cids_ok_def inj_on_eq_iff)

lemma get_open:
  assumes "up w" and "blobs w c = Some p" and "opens_to X j p pt"
  shows "\<exists>s. get_blob (H me) c w = (Inr p, w) \<and> decode_sealed X p = Inr s \<and>
    open_body X (secret_bytes X j) s = Inr pt"
  using get_law [OF assms(1,2)] assms(3) by (auto simp: opens_to_def)

text \<open>Under CID \<open>c\<close> the world holds a payload that node \<open>j\<close> opens to \<open>pt\<close>.\<close>

definition stored :: "'w \<Rightarrow> 'i \<Rightarrow> string \<Rightarrow> bytes \<Rightarrow> bool" where
  "stored w j c pt \<longleftrightarrow> c \<noteq> [] \<and> rust_string c \<and>
     (\<exists>p. blobs w c = Some p \<and> c = cid p \<and> p \<in> payloads X \<and> opens_to X j p pt)"

lemma stored_keeps: "stored w j c pt \<Longrightarrow> keeps w w' \<Longrightarrow> stored w' j c pt"
  by (auto simp: stored_def keeps_def)

lemma stored_blobs: "stored w j c pt \<Longrightarrow> blobs w' = blobs w \<Longrightarrow> stored w' j c pt"
  by (auto simp: stored_def)

lemma stored_cid: "stored w j c pt \<Longrightarrow> c \<noteq> [] \<and> rust_string c"
  by (simp add: stored_def)

lemma stored_opens:
  assumes "up w" and "stored w j c pt"
  shows "\<exists>p s. get_blob (H me) c w = (Inr p, w) \<and> decode_sealed X p = Inr s \<and>
    open_body X (secret_bytes X j) s = Inr pt"
  using get_open [OF assms(1)] assms(2) unfolding stored_def by blast

lemma seal_and_put_stored:
  assumes laws: "keys_ok X" "aead_ok X" "bincode_ok X" "cids_ok X cid" and "up w"
    and run: "seal_and_put X (H me) (node_id_of X j) pt w = (Inr c, w')"
  shows "stored w' j c pt \<and> keeps w w' \<and> up w'"
proof -
  from seal_and_put_result [OF laws(1-3) assms(5) run] obtain p
    where p: "c = cid p" "p \<in> payloads X" "opens_to X j p pt" "blobs w' = (blobs w)(c \<mapsto> p)"
      "service_at w' = service_at w" "up w'" by blast
  have "keeps w w'" using put_keeps [OF laws(4) p(2)] p by simp
  with p laws(4) show ?thesis by (auto simp: stored_def cids_ok_def)
qed

text \<open>The sealed attachments: one payload each, in order, still there afterwards.\<close>

lemma put_attachments_result:
  assumes laws: "keys_ok X" "aead_ok X" "bincode_ok X" "cids_ok X cid" and "up w"
    and run: "io_map (put_attachment X (H me) (node_id_of X j)) as w = (Inr cids, w')"
  shows "keeps w w' \<and> up w' \<and>
    list_all2 (\<lambda>c a. \<exists>pt. encode_attachment X a = Inr pt \<and> stored w' j c pt) cids as"
  using \<open>up w\<close> run
proof (induction as arbitrary: w cids)
  case (Cons a as)
  from Cons.prems(2) obtain c w1 cs where first: "put_attachment X (H me) (node_id_of X j) a w = (Inr c, w1)"
    and rest: "io_map (put_attachment X (H me) (node_id_of X j)) as w1 = (Inr cs, w')"
    and cids: "cids = c # cs"
    by (auto elim!: io_bind_InrE)
  from first obtain pt where pt: "encode_attachment X a = Inr pt"
    and sp: "seal_and_put X (H me) (node_id_of X j) pt w = (Inr c, w1)"
    by (auto simp: put_attachment_def elim!: io_bind_InrE)
  note first_put = seal_and_put_stored [OF laws Cons.prems(1) sp]
  note IH = Cons.IH [OF _ rest]
  from first_put IH have "stored w' j c pt" "keeps w w'"
    by (auto intro: stored_keeps keeps_trans)
  with IH first_put pt cids show ?case by auto
qed (auto simp: keeps_def)

text \<open>Reading mail leaves the world as it is.\<close>

lemma open_content_world: "snd (open_content X (H me) c e w) = w"
proof (cases "eb_body_cid (en_body e) = []")
  case True
  then show ?thesis by (simp add: open_content_def)
next
  case False
  obtain r where "get_blob (H me) (eb_body_cid (en_body e)) w = (r, w)"
    using get_world [of me "eb_body_cid (en_body e)" w] by (metis prod.collapse)
  with False show ?thesis
    by (cases r) (auto simp: open_content_def io_bind_def split: sum.splits option.splits)
qed

lemma compose_messages_world: "snd (compose_messages X (H me) c es w) = w"
proof (induction es)
  case (Cons e es)
  obtain r where r: "open_content X (H me) c e w = (r, w)"
    using open_content_world [of me c e w] by (metis prod.collapse)
  obtain ms where ms: "compose_messages X (H me) c es w = (ms, w)"
    using Cons by (metis prod.collapse)
  show ?case using r ms by (simp add: Let_def split: prod.splits)
qed simp

lemma compose_messages_append:
  "fst (compose_messages X (H me) c (es @ fs) w) =
     fst (compose_messages X (H me) c es w) @ fst (compose_messages X (H me) c fs w)"
proof (induction es)
  case (Cons e es)
  obtain r where r: "open_content X (H me) c e w = (r, w)"
    using open_content_world [of me c e w] by (metis prod.collapse)
  obtain ms where ms: "compose_messages X (H me) c es w = (ms, w)"
    using compose_messages_world [of me c es w] by (metis prod.collapse)
  obtain ns where ns: "compose_messages X (H me) c (es @ fs) w = (ns, w)"
    using compose_messages_world [of me c "es @ fs" w] by (metis prod.collapse)
  from Cons r ms ns show ?case by (simp add: Let_def split: prod.splits)
qed simp

end

end
