(* ===== verification/Mail_Journey.thy ===== *)
theory Mail_Journey
  imports Mail_Network Service_Types
begin

text \<open>
  A message's way from the sender's client through a mailbox to the recipient's client, over any
  network that keeps the contract of \<open>mail_network\<close>: what a successful \<open>send\<close> leaves in the blob
  store and at the mailbox, and what the recipient's \<open>drain_inbox\<close> and \<open>open_attachments\<close> then
  return.
\<close>

section \<open>Well-formed options and bodies\<close>

definition ok_options :: "'c SendOptions \<Rightarrow> bool" where
  "ok_options opts \<longleftrightarrow>
     rust_string (so_to opts) \<and> rust_string (so_subject opts) \<and> length (so_body opts) < usize_limit \<and>
     list_all ok_attachment (so_attachments opts) \<and> length (so_attachments opts) < usize_limit \<and>
     rust_string (so_in_reply_to opts) \<and> rust_string (so_postage_receipt opts) \<and>
     ok_grant (so_grant opts)"

text \<open>Where \<open>send\<close> delivers, and with which grant.\<close>

definition send_target :: "'c SendOptions \<Rightarrow> string \<times> 'c list" where
  "send_target opts = (case so_mailbox opts of Some mb \<Rightarrow> (mb, so_grant opts) | None \<Rightarrow> (so_to opts, []))"

text \<open>A raw body that does not read as a structured one.\<close>

definition body_is_raw :: "('i, 'c) crates \<Rightarrow> bytes \<Rightarrow> bool" where
  "body_is_raw X body \<longleftrightarrow> try_decode_content X body = None"

lemma no_magic_is_raw: "body = [] \<or> hd body \<noteq> BODY_CONTENT_MAGIC \<Longrightarrow> body_is_raw X body"
  by (cases body) (auto simp: body_is_raw_def try_decode_content_def)

lemma encode_decode_content:
  assumes "bincode_ok X" and "ok_content c"
  shows "\<exists>bs. encode_content X c = Inr bs \<and> try_decode_content X bs = Some c"
  using content_serde.serde_roundtrip [OF assms]
  by (auto simp: encode_content_def try_decode_content_def)

lemma is_utf8_redacted [simp]: "rust_string REDACTED_SUBJECT"
  by (rule rust_string_ascii) (auto simp: REDACTED_SUBJECT_def usize_limit_def)

lemma compose_envelope_fields [simp]:
  "eb_from (en_body (compose_envelope X i opts c s cs t)) = node_id_hex X i"
  "eb_to (en_body (compose_envelope X i opts c s cs t)) = so_to opts"
  "eb_subject (en_body (compose_envelope X i opts c s cs t)) = s"
  "eb_body_cid (en_body (compose_envelope X i opts c s cs t)) = c"
  "eb_attachment_cids (en_body (compose_envelope X i opts c s cs t)) = cs"
  "eb_in_reply_to (en_body (compose_envelope X i opts c s cs t)) = so_in_reply_to opts"
  "eb_sent_at (en_body (compose_envelope X i opts c s cs t)) = t"
  "eb_postage_receipt (en_body (compose_envelope X i opts c s cs t)) = so_postage_receipt opts"
  by (simp_all add: compose_envelope_def seal_envelope_def Let_def)

lemma compose_envelope_ok:
  assumes "identity_ok X" and "hex_ok X" and "ok_options opts" and "rust_string c" and "rust_string s"
    and "list_all rust_string cs" and "length cs < usize_limit"
  shows "ok_envelope (compose_envelope X i opts c s cs t)"
  unfolding compose_envelope_def
  by (rule seal_envelope_ok [OF assms(1,2)]) (use assms in \<open>simp add: ok_body_def ok_options_def\<close>)

text \<open>The documented behaviour of the external crates, together.\<close>

definition crates_ok :: "('i, 'c) crates \<Rightarrow> bool" where
  "crates_ok X \<longleftrightarrow>
     hex_ok X \<and> identity_ok X \<and> bincode_ok X \<and> caps_ok X \<and> keys_ok X \<and> aead_ok X \<and> texts_ok X"

text \<open>What a node is answered when it asks for its own inbox, whole or by the page.\<close>

lemma acts_for_self: "hex_ok X \<Longrightarrow> identity_ok X \<Longrightarrow> acts_for X (node_id_of X j) (node_id_hex X j) grant now revoked"
  using parse_node_id_hex [of X j] by (simp add: acts_for_def)

lemma own_drain:
  fixes X :: "('i, 'c) crates" and j :: 'i
  assumes laws: "hex_ok X" "identity_ok X" "texts_ok X"
    and "service_typed svc" and "since < usize_limit" and "ok_grant grant"
  defines "reply \<equiv> Drained (map se_envelope (drop since (queue_of (node_id_hex X j) (ms_store svc))))
    (length (queue_of (node_id_hex X j) (ms_store svc)))"
  shows "handle X (node_id_of X j) (Drain (node_id_hex X j) since grant) now revoked svc = Returned (reply, svc)"
    and "ok_reply reply" and "ok_request (Drain (node_id_hex X j) since grant)"
proof -
  let ?r = "node_id_hex X j" and ?me = "node_id_of X j"
  have h: "handle_drain X ?me ?r since grant now revoked svc = (reply, svc)"
    using handle_drain_cases [of X ?me ?r grant now revoked since svc] acts_for_self [OF laws(1,2)]
    by (auto simp: reply_def read_from_def fm_get_def split: option.splits if_splits)
  then show "handle X ?me (Drain ?r since grant) now revoked svc = Returned (reply, svc)" by simp
  show "ok_reply reply" using drain_typed [OF assms(4) laws(3), of ?me ?r since grant now revoked] h by simp
  show "ok_request (Drain ?r since grant)"
    using node_hex_rust_string [OF laws(2,1)] assms(5,6) by simp
qed

lemma own_page:
  assumes laws: "hex_ok X" "identity_ok X" "texts_ok X"
    and "service_typed svc" and "since < usize_limit" and "limit < usize_limit" and "ok_grant grant"
    and "clamp_page (ms_limits svc) limit = Returned k"
    and "read_page (node_id_hex X j) since k (ms_store svc) = Returned (xs, cursor, further)"
  shows "handle X (node_id_of X j) (DrainPage (node_id_hex X j) since limit grant) now revoked svc =
      Returned (Page (map se_envelope xs) cursor further, svc)"
    and "ok_reply (Page (map se_envelope xs) cursor further)"
    and "ok_request (DrainPage (node_id_hex X j) since limit grant)"
proof -
  let ?r = "node_id_hex X j" and ?me = "node_id_of X j"
  have h: "handle_drain_page X ?me ?r since limit grant now revoked svc =
      Returned (Page (map se_envelope xs) cursor further, svc)"
    using handle_drain_page_cases [of X ?me ?r grant now revoked since limit svc] acts_for_self [OF laws(1,2)]
      assms(8,9) by auto
  then show "handle X ?me (DrainPage ?r since limit grant) now revoked svc =
      Returned (Page (map se_envelope xs) cursor further, svc)" by simp
  show "ok_reply (Page (map se_envelope xs) cursor further)" by (rule drain_page_typed [OF assms(4) laws(3) h])
  show "ok_request (DrainPage ?r since limit grant)"
    using node_hex_rust_string [OF laws(2,1)] assms(5-7) by simp
qed

context mail_network
begin

section \<open>The body\<close>

text \<open>What the blob behind a message's body CID holds.\<close>

definition body_stored :: "'w \<Rightarrow> 'i \<Rightarrow> 'c SendOptions \<Rightarrow> string \<Rightarrow> string \<Rightarrow> bool" where
  "body_stored w j opts c subject \<longleftrightarrow>
     (if so_seal_subject opts then
        subject = REDACTED_SUBJECT \<and>
        (\<exists>pt. encode_content X \<lparr>bc_subject = so_subject opts, bc_body = so_body opts\<rparr> = Inr pt \<and>
          stored w j c pt)
      else
        subject = so_subject opts \<and>
        (if so_body opts = [] then c = [] else stored w j c (so_body opts)))"

lemma body_stored_keeps:
  "body_stored w j opts c s \<Longrightarrow> keeps w w' \<Longrightarrow> body_stored w' j opts c s"
  unfolding body_stored_def by (auto intro: stored_keeps split: if_splits)

lemma body_stored_blobs:
  "body_stored w j opts c s \<Longrightarrow> blobs w' = blobs w \<Longrightarrow> body_stored w' j opts c s"
  unfolding body_stored_def by (auto intro: stored_blobs split: if_splits)

lemma put_body_result:
  assumes laws: "keys_ok X" "aead_ok X" "bincode_ok X" "cids_ok X cid" and "up w"
    and run: "put_body X (H me) (node_id_of X j) opts w = (Inr (c, s), w')"
  shows "body_stored w' j opts c s \<and> keeps w w' \<and> up w'"
proof (cases "so_seal_subject opts")
  case True
  with run obtain pt where pt: "encode_content X \<lparr>bc_subject = so_subject opts, bc_body = so_body opts\<rparr> = Inr pt"
    and "seal_and_put X (H me) (node_id_of X j) pt w = (Inr c, w')" and "s = REDACTED_SUBJECT"
    by (auto simp: put_body_def elim!: io_bind_InrE)
  with True seal_and_put_stored [OF laws assms(5)] show ?thesis by (auto simp: body_stored_def)
next
  case False
  with run have store: "seal_and_store X (H me) (node_id_of X j) (so_body opts) w = (Inr c, w')"
    and "s = so_subject opts"
    by (auto simp: put_body_def elim!: io_bind_InrE)
  with False seal_and_put_stored [OF laws assms(5), of me j "so_body opts"] \<open>up w\<close> show ?thesis
    by (auto simp: body_stored_def seal_and_store_def split: if_splits)
qed

lemma body_stored_texts:
  assumes "body_stored w j opts c s" and "ok_options opts"
  shows "rust_string c \<and> rust_string s"
  using assms stored_cid by (auto simp: body_stored_def ok_options_def split: if_splits)

text \<open>The recipient reads the body, and the sealed subject if there is one.\<close>

lemma open_content_result:
  assumes "bincode_ok X" and "ok_options opts" and "up w" and "body_stored w j opts c s"
    and "eb_body_cid (en_body e) = c" and "mc_identity cl = j"
    and "\<not> so_seal_subject opts \<Longrightarrow> body_is_raw X (so_body opts)"
  shows "open_content X (H me) cl e w =
    (Inr (so_body opts, if so_seal_subject opts then Some (so_subject opts) else None), w)"
proof (cases "so_seal_subject opts")
  case True
  then obtain pt where pt: "encode_content X \<lparr>bc_subject = so_subject opts, bc_body = so_body opts\<rparr> = Inr pt"
    and st: "stored w j c pt" using assms(4) by (auto simp: body_stored_def)
  have "try_decode_content X pt = Some \<lparr>bc_subject = so_subject opts, bc_body = so_body opts\<rparr>"
    using encode_decode_content [OF assms(1), of "\<lparr>bc_subject = so_subject opts, bc_body = so_body opts\<rparr>"]
      assms(2) pt by (simp add: ok_content_def ok_options_def)
  with True stored_opens [OF assms(3) st, of me] stored_cid [OF st] assms(5,6) show ?thesis
    by (auto simp: open_content_def)
next
  case False
  show ?thesis
  proof (cases "so_body opts = []")
    case True
    with False assms(4,5) show ?thesis by (simp add: open_content_def body_stored_def)
  next
    case False': False
    then have st: "stored w j c (so_body opts)" using False assms(4) by (simp add: body_stored_def)
    from False assms(7) have "try_decode_content X (so_body opts) = None" by (simp add: body_is_raw_def)
    with False stored_opens [OF assms(3) st, of me] stored_cid [OF st] assms(5,6) show ?thesis
      by (auto simp: open_content_def)
  qed
qed

section \<open>The attachments\<close>

lemma open_attachment_result:
  assumes "bincode_ok X" and "up w" and "n < length cids" and "eb_attachment_cids (en_body e) = cids"
    and "stored w j (cids ! n) pt" and "encode_attachment X a = Inr pt" and "ok_attachment a"
    and "mc_identity cl = j"
  shows "open_attachment X (H me) cl e n w = (Inr a, w)"
proof -
  have "decode_attachment X pt = Inr a"
    using encode_decode_attachment [OF assms(1,7)] assms(6) by simp
  with stored_opens [OF assms(2,5), of me] stored_cid [OF assms(5)] assms(3,4,8) show ?thesis
    by (auto simp: open_attachment_def Let_def)
qed

lemma io_map_pure:
  "(\<And>x. x \<in> set xs \<Longrightarrow> f x w = (Inr (g x), w)) \<Longrightarrow> io_map f xs w = (Inr (map g xs), w)"
  by (induction xs) simp_all

lemma open_attachments_result:
  assumes "bincode_ok X" and "up w" and "eb_attachment_cids (en_body e) = cids"
    and "list_all2 (\<lambda>c a. \<exists>pt. encode_attachment X a = Inr pt \<and> stored w j c pt) cids as"
    and "list_all ok_attachment as" and "mc_identity cl = j"
  shows "open_attachments X (H me) cl e w = (Inr as, w)"
proof -
  have len: "length cids = length as" by (rule list_all2_lengthD [OF assms(4)])
  have "open_attachment X (H me) cl e n w = (Inr (as ! n), w)" if "n \<in> set [0..<length cids]" for n
  proof -
    from that have n: "n < length cids" by simp
    from list_all2_nthD [OF assms(4) n] obtain pt
      where "encode_attachment X (as ! n) = Inr pt" "stored w j (cids ! n) pt" by blast
    moreover have "ok_attachment (as ! n)" using assms(5) n len by (simp add: list_all_length)
    ultimately show ?thesis using open_attachment_result [OF assms(1,2) n assms(3)] assms(6) by blast
  qed
  then have "io_map (open_attachment X (H me) cl e) [0..<length cids] w =
      (Inr (map ((!) as) [0..<length cids]), w)" by (rule io_map_pure)
  then show ?thesis using len by (simp add: open_attachments_def assms(3) map_nth)
qed

section \<open>Delivering\<close>

text \<open>A request that the addressed service answers with an encodable reply comes back as that reply.\<close>

lemma round_trip_result:
  assumes "bincode_ok X" and "caps_ok X" and "up w" and "service_at w to = Some svc"
    and "ok_request req" and "handle X me req clock revoked svc = Returned (reply, svc')" and "ok_reply reply"
  shows "\<exists>w'. round_trip X (H me) cl to req w = (Inr reply, w') \<and> blobs w' = blobs w \<and>
    service_at w' = (service_at w)(to \<mapsto> svc') \<and> up w'"
proof -
  from request_law [OF assms(3,4) encode_decode_request [OF assms(1,2,5)] assms(6)] obtain w'
    where "mesh_request (H me) to (encode_request X req) (mc_timeout_ms cl) w = (Inr (encode_reply X reply), w')"
      "blobs w' = blobs w" "service_at w' = (service_at w)(to \<mapsto> svc')" "up w'" by blast
  with encode_decode_reply [OF assms(1,7)] show ?thesis by (simp add: round_trip_def)
qed

text \<open>A confirmed delivery: the service found the envelope deliverable and put it in its store.\<close>

lemma deliver_result:
  assumes "bincode_ok X" and "caps_ok X" and "texts_ok X" and "up w" and "service_at w target = Some svc"
    and "service_typed svc" and "ok_envelope e" and "ok_grant grant"
    and "send_target opts = (target, grant)"
    and run: "deliver_envelope X (H me) cl opts e w = (Inr mid, w')"
  shows "mid = envelope_message_id X e \<and> deliverable X svc e grant clock revoked \<and>
    blobs w' = blobs w \<and> up w' \<and>
    service_at w' = (service_at w)(target \<mapsto>
      svc\<lparr>ms_store := push_envelope X (eb_to (en_body e)) \<lparr>se_envelope = e, se_stored_at = clock\<rparr> (ms_store svc)\<rparr>)"
proof -
  obtain reply svc' where h: "handle_deliver X e grant clock revoked svc = (reply, svc')"
    by (rule prod.exhaust)
  have ok: "ok_reply reply" using deliver_typed [OF assms(6,3,7) h] by simp
  have "handle X me (Deliver e grant) clock revoked svc = Returned (reply, svc')" using h by simp
  from round_trip_result [OF assms(1,2,4,5) _ this ok, of cl] assms(7,8) obtain w1
    where rt: "round_trip X (H me) cl target (Deliver e grant) w = (Inr reply, w1)"
      and w1: "blobs w1 = blobs w" "service_at w1 = (service_at w)(target \<mapsto> svc')" "up w1" by auto
  obtain d where d: "reply = Delivered d" "mid = envelope_message_id X e" "w' = w1"
    using run rt assms(9) by (cases reply) (auto simp: deliver_envelope_def send_target_def Let_def)
  have "deliverable X svc e grant clock revoked"
    using handle_deliver_refused [of X svc e grant clock revoked] h d(1) by auto
  with handle_deliver_ok [OF this] h d w1 show ?thesis by auto
qed

text \<open>A deliverable envelope is delivered.\<close>

lemma deliver_succeeds:
  assumes "bincode_ok X" and "caps_ok X" and "texts_ok X" and "up w" and "service_at w target = Some svc"
    and "service_typed svc" and "ok_envelope e" and "ok_grant grant"
    and "send_target opts = (target, grant)" and "deliverable X svc e grant clock revoked"
  shows "\<exists>w'. deliver_envelope X (H me) cl opts e w = (Inr (envelope_message_id X e), w')"
proof -
  obtain d svc' where h: "handle_deliver X e grant clock revoked svc = (Delivered d, svc')"
    using handle_deliver_ok [OF assms(10)] by blast
  then have "handle X me (Deliver e grant) clock revoked svc = Returned (Delivered d, svc')" by simp
  from round_trip_result [OF assms(1,2,4,5) _ this, of cl] assms(7,8) obtain w1
    where "round_trip X (H me) cl target (Deliver e grant) w = (Inr (Delivered d), w1)" by auto
  with assms(9) show ?thesis by (simp add: deliver_envelope_def send_target_def Let_def)
qed

text \<open>What a successful \<open>send\<close> leaves behind.\<close>

definition sent ::
  "'i \<Rightarrow> 'i \<Rightarrow> 'c SendOptions \<Rightarrow> string \<Rightarrow> MailService \<Rightarrow> Envelope \<Rightarrow> 'w \<Rightarrow> 'w \<Rightarrow> bool" where
  "sent a j opts target svc e w w' \<longleftrightarrow>
     eb_from (en_body e) = node_id_hex X a \<and> eb_to (en_body e) = so_to opts \<and>
     eb_in_reply_to (en_body e) = so_in_reply_to opts \<and>
     body_stored w' j opts (eb_body_cid (en_body e)) (eb_subject (en_body e)) \<and>
     list_all2 (\<lambda>c a. \<exists>pt. encode_attachment X a = Inr pt \<and> stored w' j c pt)
       (eb_attachment_cids (en_body e)) (so_attachments opts) \<and>
     ok_envelope e \<and> deliverable X svc e (snd (send_target opts)) clock revoked \<and> up w' \<and>
     service_at w' = (service_at w)(target \<mapsto>
       svc\<lparr>ms_store := push_envelope X (so_to opts) \<lparr>se_envelope = e, se_stored_at = clock\<rparr> (ms_store svc)\<rparr>)"

lemma send_result:
  assumes laws: "keys_ok X" "aead_ok X" "bincode_ok X" "cids_ok X cid"
    and laws': "hex_ok X" "identity_ok X" "caps_ok X" "texts_ok X"
    and "up w" and "so_to opts = node_id_hex X j" and "ok_options opts"
    and "fst (send_target opts) = target" and "service_at w target = Some svc" and "service_typed svc"
    and run: "send_mail X (H me) cl opts w = (Inr mid, w')"
  shows "\<exists>e. mid = envelope_message_id X e \<and> sent (mc_identity cl) j opts target svc e w w'"
proof -
  have parse: "parse_node_id X (so_to opts) = Inr (node_id_of X j)"
    unfolding assms(10) by (rule parse_node_id_hex [OF laws'(1,2)])
  from run parse obtain c s w1 cs w2
    where body: "put_body X (H me) (node_id_of X j) opts w = (Inr (c, s), w1)"
      and atts: "io_map (put_attachment X (H me) (node_id_of X j)) (so_attachments opts) w1 = (Inr cs, w2)"
      and deliver: "deliver_envelope X (H me) cl opts
        (compose_envelope X (mc_identity cl) opts c s cs (now_secs (H me) w2)) w2 = (Inr mid, w')"
    by (auto simp: send_mail_def elim!: io_bind_InrE)
  note B = put_body_result [OF laws assms(9) body]
  note A = put_attachments_result [OF laws _ atts]
  let ?e = "compose_envelope X (mc_identity cl) opts c s cs (now_secs (H me) w2)"
  have att: "list_all2 (\<lambda>c a. \<exists>pt. encode_attachment X a = Inr pt \<and> stored w2 j c pt) cs (so_attachments opts)"
    and k: "keeps w1 w2" and up2: "up w2" using A B by auto
  have at_w2: "service_at w2 target = Some svc" using B k assms(13) by (simp add: keeps_def)
  have same: "service_at w2 = service_at w" using B k by (simp add: keeps_def)
  have "list_all rust_string cs" "length cs = length (so_attachments opts)"
    using att stored_cid by (induction rule: list_all2_induct) auto
  then have ok: "ok_envelope ?e"
    using body_stored_texts [of w1 j opts c s] B assms(11)
    by (intro compose_envelope_ok [OF laws'(2,1) assms(11)]) (auto simp: ok_options_def)
  obtain grant where tg: "send_target opts = (target, grant)" using assms(12) by (cases "send_target opts") auto
  have "ok_grant grant" using tg assms(11)
    by (auto simp: send_target_def ok_options_def ok_grant_def usize_limit_def split: option.splits)
  note D = deliver_result [OF laws(3) laws'(3,4) up2 at_w2 assms(14) ok this tg deliver]
  have "body_stored w' j opts c s"
    using B k D by (auto intro: body_stored_keeps body_stored_blobs)
  moreover have "list_all2 (\<lambda>c a. \<exists>pt. encode_attachment X a = Inr pt \<and> stored w' j c pt) cs (so_attachments opts)"
    by (rule list_all2_mono [OF att]) (use D stored_blobs in blast)
  ultimately show ?thesis using D ok tg same by (intro exI [of _ ?e]) (simp add: sent_def)
qed

section \<open>Draining\<close>

text \<open>A node that drains its own inbox gets everything from its cursor on, opened.\<close>

lemma drain_result:
  assumes laws: "bincode_ok X" "hex_ok X" "identity_ok X" "caps_ok X" "texts_ok X"
    and "up w" and "service_at w mailbox = Some svc" and "service_typed svc"
    and "mc_identity cl = j" and "since < usize_limit" and "ok_grant grant"
  shows "\<exists>w'. drain_inbox X (H (node_id_of X j)) cl mailbox since grant w =
      (Inr (fst (compose_messages X (H (node_id_of X j)) cl
         (map se_envelope (drop since (queue_of (node_id_hex X j) (ms_store svc)))) w'),
       length (queue_of (node_id_hex X j) (ms_store svc))), w') \<and>
    blobs w' = blobs w \<and> service_at w' = service_at w \<and> up w'"
proof -
  let ?r = "node_id_hex X j" and ?me = "node_id_of X j"
  let ?es = "map se_envelope (drop since (queue_of ?r (ms_store svc)))"
  note d = own_drain [OF laws(2,3,5) assms(8,10,11), where j = j]
  from round_trip_result [OF laws(1,4) assms(6,7) d(3,1,2), of cl] obtain w'
    where rt: "round_trip X (H ?me) cl mailbox (Drain ?r since grant) w =
        (Inr (Drained ?es (length (queue_of ?r (ms_store svc)))), w')"
      and w': "blobs w' = blobs w" "service_at w' = (service_at w)(mailbox \<mapsto> svc)" "up w'" by blast
  moreover have "(service_at w)(mailbox \<mapsto> svc) = service_at w" using assms(7) by auto
  moreover obtain out where "compose_messages X (H ?me) cl ?es w' = (out, w')"
    using compose_messages_world [of ?me cl ?es w'] by (metis prod.collapse)
  ultimately show ?thesis
    using assms(9) by (intro exI [of _ w']) (simp add: drain_inbox_def client_hex_def)
qed

text \<open>A node that acknowledges a prefix of its own inbox removes it.\<close>

lemma ack_result:
  assumes laws: "bincode_ok X" "hex_ok X" "identity_ok X" "caps_ok X" "texts_ok X"
    and "up w" and "service_at w mailbox = Some svc" and "service_typed svc"
    and "mc_identity cl = j" and "n < usize_limit" and "ok_grant grant"
  shows "\<exists>w'. ack_inbox X (H (node_id_of X j)) cl mailbox n grant w =
      (Inr (min n (length (queue_of (node_id_hex X j) (ms_store svc)))), w') \<and>
    blobs w' = blobs w \<and> up w' \<and>
    service_at w' = (service_at w)(mailbox \<mapsto> svc\<lparr>ms_store := snd (ack (node_id_hex X j) n (ms_store svc))\<rparr>)"
proof -
  let ?r = "node_id_hex X j" and ?me = "node_id_of X j"
  let ?k = "min n (length (queue_of ?r (ms_store svc)))" and ?svc' = "svc\<lparr>ms_store := snd (ack ?r n (ms_store svc))\<rparr>"
  have acts: "acts_for X ?me ?r grant clock revoked"
    using parse_node_id_hex [OF laws(2,3), of j] by (simp add: acts_for_def)
  then have h: "handle_ack X ?me ?r n grant clock revoked svc = (Acked ?k, ?svc')"
    using handle_ack_cases [of X ?me ?r grant clock revoked n svc] by (simp add: ack_count)
  have ok: "ok_reply (Acked ?k)" using ack_typed [OF assms(8) laws(5) h] by simp
  have req: "ok_request (Ack ?r n grant)"
    using node_hex_rust_string [OF laws(3,2)] assms(10,11) by simp
  have "handle X ?me (Ack ?r n grant) clock revoked svc = Returned (Acked ?k, ?svc')" using h by simp
  from round_trip_result [OF laws(1,4) assms(6,7) req this ok, of cl] assms(9)
  show ?thesis by (auto simp: ack_inbox_def client_hex_def)
qed

section \<open>Receipts\<close>

lemma issued_receipt_ok:
  assumes "identity_ok X" and "hex_ok X" and "rust_string mid"
  shows "ok_receipt (issue_receipt X i mid kind t)"
  using node_hex_rust_string [OF assms(1,2)] identity_okD(3) [OF assms(1)] assms(3)
  by (simp add: issue_receipt_def Let_def ok_receipt_def ok_receipt_body_def)

text \<open>A confirmed receipt: the service found it depositable and put it in the sender's box.\<close>

lemma send_receipt_result:
  assumes laws: "bincode_ok X" "hex_ok X" "identity_ok X" "caps_ok X" "texts_ok X"
    and "up w" and "service_at w mailbox = Some svc" and "service_typed svc"
    and "rust_string for_sender" and "rust_string mid" and "ok_grant grant"
    and run: "send_receipt X (H me) cl mailbox for_sender mid kind grant w = (Inr duplicate, w')"
  defines "r \<equiv> issue_receipt X (mc_identity cl) mid kind (now_secs (H me) w)"
  shows "depositable X svc for_sender r grant clock revoked \<and>
    (duplicate \<longleftrightarrow> dedup_key r \<in> receipt_keys_of for_sender (ms_store svc)) \<and>
    ok_receipt r \<and> blobs w' = blobs w \<and> up w' \<and>
    service_at w' = (service_at w)(mailbox \<mapsto> svc\<lparr>ms_store := push_receipt for_sender r (ms_store svc)\<rparr>)"
proof -
  have r: "ok_receipt r" unfolding r_def by (rule issued_receipt_ok [OF laws(3,2) assms(10)])
  obtain reply svc' where h: "handle_put_receipt X for_sender r grant clock revoked svc = (reply, svc')"
    by (rule prod.exhaust)
  have ok: "ok_reply reply" using put_receipt_typed [OF assms(8) laws(5) r h] by simp
  have "handle X me (PutReceipt for_sender r grant) clock revoked svc = Returned (reply, svc')" using h by simp
  from round_trip_result [OF laws(1,4) assms(6,7) _ this ok, of cl] r assms(9,11) obtain w1
    where rt: "round_trip X (H me) cl mailbox (PutReceipt for_sender r grant) w = (Inr reply, w1)"
      and w1: "blobs w1 = blobs w" "service_at w1 = (service_at w)(mailbox \<mapsto> svc')" "up w1" by auto
  have d: "reply = ReceiptAccepted duplicate" "w' = w1"
    using run rt by (cases reply; auto simp: send_receipt_def r_def [symmetric] Let_def)+
  have "depositable X svc for_sender r grant clock revoked"
    using handle_put_receipt_refused [of X svc for_sender r grant clock revoked] h d(1) by auto
  with handle_put_receipt_ok [OF this] h d w1 r show ?thesis by auto
qed

lemma send_receipt_succeeds:
  assumes laws: "bincode_ok X" "hex_ok X" "identity_ok X" "caps_ok X"
    and "up w" and "service_at w mailbox = Some svc"
    and "rust_string for_sender" and "rust_string mid" and "ok_grant grant"
    and "depositable X svc for_sender (issue_receipt X (mc_identity cl) mid kind (now_secs (H me) w)) grant clock revoked"
  shows "\<exists>duplicate w'. send_receipt X (H me) cl mailbox for_sender mid kind grant w = (Inr duplicate, w')"
proof -
  let ?r = "issue_receipt X (mc_identity cl) mid kind (now_secs (H me) w)"
  obtain d svc' where "handle_put_receipt X for_sender ?r grant clock revoked svc = (ReceiptAccepted d, svc')"
    using handle_put_receipt_ok [OF assms(10)] by blast
  then have "handle X me (PutReceipt for_sender ?r grant) clock revoked svc = Returned (ReceiptAccepted d, svc')" by simp
  from round_trip_result [OF laws(1,4) assms(5,6) _ this, of cl] issued_receipt_ok [OF laws(3,2) assms(8)] assms(7,9)
  obtain w1 where "round_trip X (H me) cl mailbox (PutReceipt for_sender ?r grant) w = (Inr (ReceiptAccepted d), w1)"
    by auto
  then show ?thesis by (simp add: send_receipt_def Let_def)
qed

text \<open>A node that collects its receipts gets its whole box, without those that do not verify.\<close>

lemma collect_result:
  assumes laws: "bincode_ok X" "hex_ok X" "identity_ok X" "caps_ok X" "texts_ok X"
    and "up w" and "service_at w mailbox = Some svc" and "service_typed svc"
    and "mc_identity cl = j" and "ok_grant grant"
  shows "\<exists>w'. collect_client_receipts X (H (node_id_of X j)) cl mailbox grant w =
      (Inr (filter (\<lambda>r. is_ok (verify_receipt X r)) (receipts_of (node_id_hex X j) (ms_store svc))), w') \<and>
    blobs w' = blobs w \<and> up w' \<and> service_at w' = (service_at w)(mailbox \<mapsto>
      svc\<lparr>ms_store := snd (collect_receipts (node_id_hex X j) (ms_store svc))\<rparr>)"
proof -
  let ?r = "node_id_hex X j" and ?me = "node_id_of X j"
  let ?svc' = "svc\<lparr>ms_store := snd (collect_receipts ?r (ms_store svc))\<rparr>"
  have acts: "acts_for X ?me ?r grant clock revoked"
    using parse_node_id_hex [OF laws(2,3), of j] by (simp add: acts_for_def)
  then have h: "handle_collect_receipts X ?me ?r grant clock revoked svc =
      (Receipts (receipts_of ?r (ms_store svc)), ?svc')"
    using handle_collect_cases [of X ?me ?r grant clock revoked svc] by simp
  have ok: "ok_reply (Receipts (receipts_of ?r (ms_store svc)))"
    using collect_typed [OF assms(8) laws(5) h] by simp
  have req: "ok_request (CollectReceipts ?r grant)"
    using node_hex_rust_string [OF laws(3,2)] assms(10) by simp
  have "handle X ?me (CollectReceipts ?r grant) clock revoked svc =
      Returned (Receipts (receipts_of ?r (ms_store svc)), ?svc')" using h by simp
  from round_trip_result [OF laws(1,4) assms(6,7) req this ok, of cl] assms(9)
  show ?thesis by (auto simp: collect_client_receipts_def client_hex_def)
qed

section \<open>From compose to read\<close>

text \<open>
  A message that the sender's client reported sent, and that was new to the mailbox, is the last
  message the recipient's next drain returns: authentic, with its subject, body and attachments.
\<close>

lemma sent_then_drained:
  assumes laws: "bincode_ok X" "hex_ok X" "identity_ok X" "caps_ok X" "texts_ok X"
    and "sent a j opts mailbox svc e w w'" and "service_typed svc" and "1 \<le> mb_capacity (ms_store svc)"
    and "so_to opts = node_id_hex X j" and "ok_options opts"
    and new: "envelope_message_id X e \<notin> seen_of (so_to opts) (ms_store svc)"
    and "since < length (queue_of (so_to opts)
      (push_envelope X (so_to opts) \<lparr>se_envelope = e, se_stored_at = clock\<rparr> (ms_store svc)))"
    and "mc_identity cl = j" and "ok_grant grant"
    and raw: "\<not> so_seal_subject opts \<Longrightarrow> body_is_raw X (so_body opts)"
  shows "\<exists>ms cursor w''.
    drain_inbox X (H (node_id_of X j)) cl mailbox since grant w' =
      (Inr (ms @ [\<lparr>msg_envelope = e, msg_body = so_body opts,
         msg_sealed_subject = if so_seal_subject opts then Some (so_subject opts) else None\<rparr>], cursor), w'') \<and>
    open_attachments X (H (node_id_of X j)) cl e w'' = (Inr (so_attachments opts), w'')"
proof -
  let ?r = "so_to opts" and ?x = "\<lparr>se_envelope = e, se_stored_at = clock\<rparr>" and ?me = "node_id_of X j"
  let ?store = "push_envelope X ?r ?x (ms_store svc)" and ?m = "\<lparr>msg_envelope = e, msg_body = so_body opts,
         msg_sealed_subject = if so_seal_subject opts then Some (so_subject opts) else None\<rparr>"
  let ?svc = "svc\<lparr>ms_store := ?store\<rparr>"
  note S = assms(6) [unfolded sent_def]
  have h: "handle_deliver X e (snd (send_target opts)) clock revoked svc =
      (Delivered (envelope_message_id X e \<in> seen_of ?r (ms_store svc)), ?svc)"
    using handle_deliver_ok [of X svc e "snd (send_target opts)" clock revoked] S by simp
  have typed: "service_typed ?svc" using deliver_typed [OF assms(7) laws(5) _ h] S by simp
  let ?q = "queue_of ?r (ms_store svc)"
  have q: "queue_of ?r ?store = keep_last (mb_capacity (ms_store svc)) (?q @ [?x])"
    using inbox.push_items [where X = X and r = ?r and x = ?x and s = "ms_store svc"] new
    by (simp add: stored_id_def)
  then have "\<exists>ys. drop since (queue_of ?r ?store) = ys @ [?x]"
    using assms(8,12) by (simp add: keep_last_def)
  then obtain ys where ys: "drop since (queue_of ?r ?store) = ys @ [?x]" by blast
  have "length (queue_of ?r ?store) < usize_limit" using service_typedD(3) [OF typed, of ?r] by simp
  then have "since < usize_limit" using assms(12) by simp
  moreover have "service_at w' mailbox = Some ?svc" using S by simp
  ultimately obtain w'' where d: "drain_inbox X (H ?me) cl mailbox since grant w' =
      (Inr (fst (compose_messages X (H ?me) cl (map se_envelope (ys @ [?x])) w''),
       length (queue_of ?r ?store)), w'')" and w'': "blobs w'' = blobs w'" "up w''"
    using drain_result [OF laws _ _ typed assms(13) _ assms(14), of w' mailbox since] S ys assms(9)
    by (auto simp del: map_append)
  have "body_stored w'' j opts (eb_body_cid (en_body e)) (eb_subject (en_body e))"
    using S w''(1) by (auto intro: body_stored_blobs)
  from open_content_result [OF laws(1) assms(10) w''(2) this refl assms(13) raw]
  have "compose_messages X (H ?me) cl [e] w'' = ([?m], w'')"
    using S by (simp add: deliverable_def Let_def)
  then have out: "fst (compose_messages X (H ?me) cl (map se_envelope (ys @ [?x])) w'') =
      fst (compose_messages X (H ?me) cl (map se_envelope ys) w'') @ [?m]"
    by (simp add: compose_messages_append)
  have "list_all2 (\<lambda>c a. \<exists>pt. encode_attachment X a = Inr pt \<and> stored w'' j c pt)
      (eb_attachment_cids (en_body e)) (so_attachments opts)"
    by (rule list_all2_mono [of "\<lambda>c a. \<exists>pt. encode_attachment X a = Inr pt \<and> stored w' j c pt"])
      (use S w''(1) stored_blobs in blast)+
  moreover have "list_all ok_attachment (so_attachments opts)" using assms(10) by (simp add: ok_options_def)
  ultimately have "open_attachments X (H ?me) cl e w'' = (Inr (so_attachments opts), w'')"
    by (rule open_attachments_result [OF laws(1) w''(2) refl _ _ assms(13)])
  with d [unfolded out] show ?thesis by blast
qed

end

end
