(* ===== verification/Memory_Network.thy ===== *)
theory Memory_Network
  imports Mail_Journey
begin

text \<open>
  The in-memory network of src/src/client.rs (\<open>FakeNet\<close>, \<open>FakeHandle\<close>): a shared blob store, a
  routing table of services, two failure switches, and one handle per client that carries the
  authenticated node id. It is the instance of the \<open>mail_network\<close> contract on which the properties of
  the whole journey rest. \<open>ce_rs::cid\<close> is the argument \<open>cid\<close>; the operating system's randomness is a
  byte sequence \<open>rnd\<close> read from a position on.
\<close>

record FakeNet =
  fn_blobs :: "(string, bytes) fmap"
  fn_services :: "(string, MailService) fmap"
  fn_fail_request :: bool
  fn_fail_blob :: bool
  fn_random :: nat
  fn_now :: u64

definition new_net :: FakeNet where
  "new_net = \<lparr>fn_blobs = fmempty, fn_services = fmempty, fn_fail_request = False, fn_fail_blob = False,
     fn_random = 0, fn_now = 0\<rparr>"

definition install_service :: "string \<Rightarrow> MailService \<Rightarrow> FakeNet \<Rightarrow> FakeNet" where
  "install_service node_hex svc net = net\<lparr>fn_services := fmupd node_hex svc (fn_services net)\<rparr>"

definition never_revoked :: "node_id \<Rightarrow> u64 \<Rightarrow> bool" where
  "never_revoked issuer nonce = False"

definition fake_put :: "(bytes \<Rightarrow> string) \<Rightarrow> bytes \<Rightarrow> (FakeNet, string) io" where
  "fake_put cid bs = (\<lambda>net. (Inr (cid bs), net\<lparr>fn_blobs := fmupd (cid bs) bs (fn_blobs net)\<rparr>))"

definition fake_get :: "string \<Rightarrow> (FakeNet, bytes) io" where
  "fake_get c = (\<lambda>net.
     (if fn_fail_blob net then Inl ''injected blob fetch failure''
      else case fmlookup (fn_blobs net) c of
          Some bs \<Rightarrow> Inr bs
        | None \<Rightarrow> Inl (''blob '' @ c @ '' not found''), net))"

text \<open>A panic of the service ends the caller too; it is an error of the transport here.\<close>

definition fake_request :: "('i, 'c) crates \<Rightarrow> node_id \<Rightarrow> string \<Rightarrow> bytes \<Rightarrow> u64 \<Rightarrow> (FakeNet, bytes) io" where
  "fake_request X me to payload timeout_ms = (\<lambda>net.
     if fn_fail_request net then (Inl ''injected request failure (dropped peer)'', net)
     else case fmlookup (fn_services net) to of
         None \<Rightarrow> (Inl (''no service for '' @ to), net)
       | Some svc \<Rightarrow>
           (case decode_request X payload of
              Inl e \<Rightarrow> (Inl e, net)
            | Inr req \<Rightarrow>
                (case handle X me req 1000 never_revoked svc of
                   Panicked \<Rightarrow> (Inl ''panicked'', net)
                 | Returned (reply, svc') \<Rightarrow>
                     (Inr (encode_reply X reply), net\<lparr>fn_services := fmupd to svc' (fn_services net)\<rparr>))))"

definition fake_random :: "(nat \<Rightarrow> u8) \<Rightarrow> nat \<Rightarrow> (FakeNet, bytes) io" where
  "fake_random rnd n = (\<lambda>net.
     (Inr (map rnd [fn_random net..<fn_random net + n]), net\<lparr>fn_random := fn_random net + n\<rparr>))"

definition fake_handle ::
  "('i, 'c) crates \<Rightarrow> (bytes \<Rightarrow> string) \<Rightarrow> (nat \<Rightarrow> u8) \<Rightarrow> (string \<Rightarrow> string) \<Rightarrow> (MailReply \<Rightarrow> string) \<Rightarrow>
   node_id \<Rightarrow> FakeNet Host" where
  "fake_handle X cid rnd dbg_string dbg_reply me =
     \<lparr>put_blob = fake_put cid, get_blob = fake_get, mesh_request = fake_request X me,
      sender_standing = default_standing, random_bytes = fake_random rnd, now_secs = fn_now,
      debug_string = dbg_string, debug_reply = dbg_reply\<rparr>"

abbreviation net_up :: "FakeNet \<Rightarrow> bool" where
  "net_up net \<equiv> \<not> fn_fail_request net \<and> \<not> fn_fail_blob net"

interpretation memory: mail_network X "fake_handle X cid rnd dbg_string dbg_reply" cid
    "\<lambda>net. fmlookup (fn_blobs net)" "\<lambda>net. fmlookup (fn_services net)" net_up 1000 never_revoked
  for X :: "('i, 'c) crates" and cid rnd dbg_string dbg_reply
  by unfold_locales
    (auto simp: fake_handle_def fake_put_def fake_get_def fake_request_def fake_random_def
      simp del: handle.simps split: option.splits)

end
