(* ===== verification/Journey_Properties.thy ===== *)
theory Journey_Properties
  imports Memory_Network Service_Properties Encoding_Properties
begin

text \<open>
  The properties of the client: a message reported sent arrives, readable and authentic; oversize
  messages never reach the network; messages and receipts a mailbox forges are not shown.
\<close>

section \<open>From compose to read\<close>

text \<open>A confirmed new message, drained; and the mailbox it was put into.\<close>

lemma delivered_mail:
  assumes "crates_ok X" and "cids_ok X cid" and "net_up w"
    and "so_to opts = node_id_hex X j" and "ok_options opts"
    and "\<not> so_seal_subject opts \<Longrightarrow> body_is_raw X (so_body opts)"
    and "fst (send_target opts) = mailbox" and "fmlookup (fn_services w) mailbox = Some svc"
    and "service_typed svc" and "mailbox_ok X (ms_store svc)"
    and "send_mail X (fake_handle X cid rnd dbs dbr me) sender opts w = (Inr mid, w')"
    and "mid \<notin> seen_of (so_to opts) (ms_store svc)"
    and "fmlookup (fn_services w') mailbox = Some svc'"
    and "since < pending_count (so_to opts) (ms_store svc')"
    and "mc_identity recipient = j" and "ok_grant grant"
  shows "(\<exists>ms m cursor w''.
    drain_inbox X (fake_handle X cid rnd dbs dbr (node_id_of X j)) recipient mailbox since grant w' =
      (Inr (ms @ [m], cursor), w'') \<and>
    message_id_of X m = mid \<and> verify_envelope X (msg_envelope m) = Inr () \<and>
    eb_from (en_body (msg_envelope m)) = client_hex X sender \<and>
    eb_in_reply_to (en_body (msg_envelope m)) = so_in_reply_to opts \<and>
    (so_seal_subject opts \<longrightarrow> eb_subject (en_body (msg_envelope m)) = REDACTED_SUBJECT) \<and>
    message_subject m = so_subject opts \<and> msg_body m = so_body opts \<and>
    open_attachments X (fake_handle X cid rnd dbs dbr (node_id_of X j)) recipient (msg_envelope m) w'' =
      (Inr (so_attachments opts), w'')) \<and>
    (\<exists>e. svc' = svc\<lparr>ms_store := push_envelope X (so_to opts) e (ms_store svc)\<rparr> \<and>
       verify_envelope X (se_envelope e) = Inr () \<and> eb_to (en_body (se_envelope e)) = so_to opts \<and>
       ok_envelope (se_envelope e) \<and> net_up w')"
proof -
  note laws = assms(1) [unfolded crates_ok_def]
  from memory.send_result [OF _ _ _ assms(2) _ _ _ _ assms(3-5,7-9,11)] laws obtain e
    where e: "mid = envelope_message_id X e"
      and S: "memory.sent X cid (mc_identity sender) j opts mailbox svc e w w'" by blast
  note sent = S [unfolded memory.sent_def]
  have cap: "1 \<le> mb_capacity (ms_store svc)" by (rule mailbox_okD(1) [OF assms(10)])
  have svc': "svc' = svc\<lparr>ms_store := push_envelope X (so_to opts) \<lparr>se_envelope = e, se_stored_at = 1000\<rparr> (ms_store svc)\<rparr>"
    using sent assms(13) by (auto dest: fun_cong [of _ _ mailbox])
  have "since < length (queue_of (so_to opts)
      (push_envelope X (so_to opts) \<lparr>se_envelope = e, se_stored_at = 1000\<rparr> (ms_store svc)))"
    using assms(14) svc' by (simp add: pending_count_def fm_get_def split: option.splits)
  from memory.sent_then_drained [OF _ _ _ _ _ S assms(9) cap assms(4,5) _ this assms(15,16,6)] laws
    assms(12) e obtain ms cursor w'' where
    "drain_inbox X (fake_handle X cid rnd dbs dbr (node_id_of X j)) recipient mailbox since grant w' =
      (Inr (ms @ [\<lparr>msg_envelope = e, msg_body = so_body opts,
         msg_sealed_subject = if so_seal_subject opts then Some (so_subject opts) else None\<rparr>], cursor), w'')"
    "open_attachments X (fake_handle X cid rnd dbs dbr (node_id_of X j)) recipient e w'' =
      (Inr (so_attachments opts), w'')" by blast
  moreover have "verify_envelope X e = Inr ()" "eb_subject (en_body e) =
      (if so_seal_subject opts then REDACTED_SUBJECT else so_subject opts)"
    using sent by (auto simp: deliverable_def memory.body_stored_def split: if_splits)
  moreover have "ok_envelope e" "eb_to (en_body e) = so_to opts" "net_up w'" using sent by simp_all
  then have "\<exists>x. svc' = svc\<lparr>ms_store := push_envelope X (so_to opts) x (ms_store svc)\<rparr> \<and>
       verify_envelope X (se_envelope x) = Inr () \<and> eb_to (en_body (se_envelope x)) = so_to opts \<and>
       ok_envelope (se_envelope x) \<and> net_up w'"
    using svc' calculation(3) by (intro exI [of _ "\<lparr>se_envelope = e, se_stored_at = 1000\<rparr>"]) simp
  ultimately show ?thesis
    using sent e by (intro conjI) (intro exI conjI, auto simp: message_id_of_def client_hex_def message_subject_def)
qed

text \<open>C1: store-and-forward works end to end over the in-memory network: when \<open>send\<close> reports success
  and the message is new to the mailbox, the recipient's next \<open>drain_inbox\<close> from any cursor before the
  end of its queue returns it last: verified, with the reported message id, the sender's node id, the
  reply pointer, the original subject (sealed or not), the exact body and all attachments.\<close>

theorem mail_arrives:
  assumes "crates_ok X" and "cids_ok X cid" and "net_up w"
    and "so_to opts = node_id_hex X j" and "ok_options opts"
    and "\<not> so_seal_subject opts \<Longrightarrow> body_is_raw X (so_body opts)"
    and "fst (send_target opts) = mailbox" and "fmlookup (fn_services w) mailbox = Some svc"
    and "service_typed svc" and "mailbox_ok X (ms_store svc)"
    and "send_mail X (fake_handle X cid rnd dbs dbr me) sender opts w = (Inr mid, w')"
    and "mid \<notin> seen_of (so_to opts) (ms_store svc)"
    and "fmlookup (fn_services w') mailbox = Some svc'"
    and "since < pending_count (so_to opts) (ms_store svc')"
    and "mc_identity recipient = j" and "ok_grant grant"
  shows "\<exists>ms m cursor w''.
    drain_inbox X (fake_handle X cid rnd dbs dbr (node_id_of X j)) recipient mailbox since grant w' =
      (Inr (ms @ [m], cursor), w'') \<and>
    message_id_of X m = mid \<and> verify_envelope X (msg_envelope m) = Inr () \<and>
    eb_from (en_body (msg_envelope m)) = client_hex X sender \<and>
    eb_in_reply_to (en_body (msg_envelope m)) = so_in_reply_to opts \<and>
    (so_seal_subject opts \<longrightarrow> eb_subject (en_body (msg_envelope m)) = REDACTED_SUBJECT) \<and>
    message_subject m = so_subject opts \<and> msg_body m = so_body opts \<and>
    open_attachments X (fake_handle X cid rnd dbs dbr (node_id_of X j)) recipient (msg_envelope m) w'' =
      (Inr (so_attachments opts), w'')"
  using delivered_mail [OF assms] by blast

text \<open>A small network: content ids that spell out the content, Bob's mailbox, Alice's client.\<close>

definition s_cid :: "bytes \<Rightarrow> string" where
  "s_cid bs = (if int (length bs) < 1099511627776 then CHR ''c'' # s_hex_encode bs else ''big'')"

lemma length_put_nat: "length (put_nat n) \<le> n + 1"
  by (induction n rule: put_nat.induct) (subst put_nat.simps, auto)

lemma concat_put_bytes: "concat (map (put \<circ> VU8) bs) = bs"
  by (induction bs) simp_all

lemma sample_payload_length:
  assumes "p \<in> payloads sample"
  shows "length p < 1099511627776"
proof -
  from assms obtain s where s: "p = encode_sealed sample s" "sealed_shape s" by (auto simp: payloads_def)
  have "length p = length (put_nat (length (sb_epk s))) + length (sb_epk s) +
      (length (put_nat (length (sb_nonce s))) + length (sb_nonce s)) +
      (length (put_nat (length (sb_ciphertext s))) + length (sb_ciphertext s))"
    unfolding s(1) by (simp add: encode_sealed_def try_encode_sealed_def sample_def sv_sealed_def concat_put_bytes)
  with s(2) length_put_nat [of "length (sb_epk s)"] length_put_nat [of "length (sb_nonce s)"]
    length_put_nat [of "length (sb_ciphertext s)"] show ?thesis by (simp add: sealed_shape_def)
qed

lemma s_cid_ok: "cids_ok sample s_cid"
proof -
  have digit: "of_char c \<le> (127 :: nat)" if "c \<in> set hex_digits" for c
    using that by (auto simp: hex_digits_def)
  have "rust_string (s_cid bs) \<and> s_cid bs \<noteq> []" for bs
  proof -
    have "\<forall>c \<in> set (s_hex_encode bs). of_char c \<le> (127 :: nat)" using digit s_hex_set [of bs] by blast
    then show ?thesis
      using s_hex_length [of bs] by (auto simp: s_cid_def usize_limit_def intro!: rust_string_ascii)
  qed
  moreover have "inj_on s_cid (payloads sample)"
  proof (rule inj_onI)
    fix p q assume p: "p \<in> payloads sample" "q \<in> payloads sample" "s_cid p = s_cid q"
    then have "s_hex_encode p = s_hex_encode q"
      using sample_payload_length [of p] sample_payload_length [of q] by (auto simp: s_cid_def split: if_splits)
    then have "s_hex_decode (s_hex_encode p) = s_hex_decode (s_hex_encode q)" by simp
    then show "p = q" by (simp add: s_hex_roundtrip)
  qed
  ultimately show ?thesis by (simp add: cids_ok_def)
qed

definition small_limits :: Limits where
  "small_limits =
     \<lparr>max_subject_bytes = 40, max_cid_bytes = 400, max_attachments = 2, max_postage_bytes = 40,
      max_envelope_bytes = 2000, max_page = 3, max_attachment_bytes = 40, max_body_bytes = 40\<rparr>"

definition mailbox_hex :: string where
  "mailbox_hex = node_id_hex sample mailbox_seed"

definition bobs_service :: MailService where
  "bobs_service = with_limits sample_store small_limits"

definition sample_net :: FakeNet where
  "sample_net = install_service mailbox_hex bobs_service new_net"

definition sample_handle :: "node_id \<Rightarrow> FakeNet Host" where
  "sample_handle = fake_handle sample s_cid of_nat id (\<lambda>_. ''reply'')"

definition alice_client :: "u8 MailClient" where
  "alice_client = client_with_limits small_limits (new_client alice)"

definition bob_client :: "u8 MailClient" where
  "bob_client = new_client bob"

text \<open>A grant that is still valid at the second the network's service runs at.\<close>

definition long_grant :: "sample_cap list" where
  "long_grant = map (cap_expiry_update (\<lambda>_. 5000)) bob_grant"

definition letter :: "sample_cap SendOptions" where
  "letter = \<lparr>so_to = bob_hex, so_subject = ''plans'', so_body = [7, 8, 9],
     so_attachments = [\<lparr>at_filename = ''a.txt'', at_content_type = ''text/plain'', at_bytes = [1, 2]\<rparr>],
     so_in_reply_to = ''m0'', so_seal_subject = True, so_postage_receipt = [],
     so_mailbox = Some mailbox_hex, so_grant = long_grant\<rparr>"

definition letter_body :: "(string \<times> string) result \<times> FakeNet" where
  "letter_body = put_body sample (sample_handle (node_id_of sample alice)) (node_id_of sample bob) letter sample_net"

definition letter_files :: "string list result \<times> FakeNet" where
  "letter_files = io_map (put_attachment sample (sample_handle (node_id_of sample alice)) (node_id_of sample bob))
     (so_attachments letter) (snd letter_body)"

lemma letter_body_ok: "is_ok (fst letter_body)"
  by code_simp

lemma letter_files_ok: "is_ok (fst letter_files)"
  by code_simp

definition letter_mail :: Envelope where
  "letter_mail = compose_envelope sample alice letter (fst (projr (fst letter_body)))
     (snd (projr (fst letter_body))) (projr (fst letter_files)) 0"

lemma letter_body_cid: "length (fst (projr (fst letter_body))) < 200"
  by code_simp

lemma letter_subject: "snd (projr (fst letter_body)) = REDACTED_SUBJECT"
  by code_simp

lemma letter_file_cids: "map (\<lambda>c. length c < 200) (projr (fst letter_files)) = [True]"
  by code_simp

lemma letter_mail_parts:
  shows "length (eb_body_cid (en_body letter_mail)) < 200" and "eb_subject (en_body letter_mail) = REDACTED_SUBJECT"
    and "\<exists>c. eb_attachment_cids (en_body letter_mail) = [c] \<and> length c < 200"
  using letter_body_cid letter_subject letter_file_cids by (auto simp: letter_mail_def map_eq_Cons_conv)

lemma letter_mail_size: "length (put (sv_envelope letter_mail)) \<le> 2000"
proof -
  obtain c where c: "eb_attachment_cids (en_body letter_mail) = [c]" "length c < 200"
    using letter_mail_parts(3) by blast
  have n: "length (put_nat k) \<le> m + 1" if "k \<le> m" for k m
    using length_put_nat [of k] that by linarith
  have subject: "length (eb_subject (en_body letter_mail)) = 19"
    unfolding letter_mail_parts(2) by (simp add: REDACTED_SUBJECT_def)
  have sig: "length (en_sig letter_mail) = 64"
    using identity_okD(3) [OF sample_identity_ok]
    by (simp add: letter_mail_def compose_envelope_def seal_envelope_def Let_def)
  have "length bob_hex = 64" "length (node_id_hex sample alice) = 64"
    using node_hex_digits(2) [OF sample_identity_ok sample_hex_ok] by (simp_all add: bob_hex_def)
  moreover have "eb_from (en_body letter_mail) = node_id_hex sample alice" "eb_to (en_body letter_mail) = bob_hex"
    "eb_in_reply_to (en_body letter_mail) = ''m0''" "eb_postage_receipt (en_body letter_mail) = []"
    "eb_sent_at (en_body letter_mail) = 0"
    by (simp_all add: letter_mail_def letter_def)
  ultimately show ?thesis
    using letter_mail_parts(1) subject c sig n [of 64 64] n [of 19 19] n [of "Suc (Suc 0)" 2] n [of 0 0]
      n [of "Suc 0" 1] n [of "length (eb_body_cid (en_body letter_mail))" 200] n [of "length c" 200]
    by (simp add: sv_envelope_def sv_body_def sv_sig_def)
qed

lemma letter_clock: "fn_now (snd letter_files) = 0"
  by code_simp

lemma long_grant_accepts: "accepts_for sample sample_store bob_hex long_grant 1000 never_revoked"
proof -
  have "parse_node_id sample bob_hex = Inr (node_id_of sample bob)"
    unfolding bob_hex_def by (rule parse_node_id_hex [OF sample_hex_ok sample_identity_ok])
  then show ?thesis
    by (simp add: accepts_for_def long_grant_def bob_grant_def sample_store_def new_store_def)
      (simp add: sample_def s_authorize_def mailbox_seed_def bob_def never_revoked_def)
qed

lemma letter_deliverable: "deliverable sample bobs_service letter_mail long_grant 1000 never_revoked"
proof -
  have "verify_envelope sample letter_mail = Inr ()"
    unfolding letter_mail_def compose_envelope_def
    by (rule seal_envelope_verifies [OF sample_hex_ok sample_identity_ok])
  moreover have "eb_to (en_body letter_mail) = bob_hex" "eb_in_reply_to (en_body letter_mail) = ''m0''"
    "eb_postage_receipt (en_body letter_mail) = []"
    by (simp_all add: letter_mail_def letter_def)
  ultimately show ?thesis
    using letter_mail_size letter_mail_parts long_grant_accepts bob_hex_nonempty
    by (auto simp: deliverable_def within_limits_def bobs_service_def with_limits_def small_limits_def
        encoded_len_sample attachment_count_def REDACTED_SUBJECT_def)
qed

lemma sample_crates_ok: "crates_ok sample"
  using sample_laws sample_keys_ok sample_aead_ok sample_texts_ok by (simp add: crates_ok_def)

lemma bobs_service_typed: "service_typed bobs_service"
  unfolding bobs_service_def sample_store_def
  by (rule fresh_service_typed) (simp_all add: limits_typed_def small_limits_def usize_limit_def)

lemma letter_ok: "ok_options letter"
  using node_hex_rust_string [OF sample_identity_ok sample_hex_ok, of bob]
  by (simp add: ok_options_def letter_def ok_attachment_def ok_grant_def long_grant_def bob_grant_def
      bob_hex_def rust_string_def byte_in_def usize_limit_def)

lemma letter_sent_by:
  assumes "mc_identity cl = alice"
    and "check_payload (sample_handle (node_id_of sample alice)) (mc_limits cl) letter = Inr ()"
  shows "\<exists>w'. send_mail sample (sample_handle (node_id_of sample alice)) cl letter sample_net =
     (Inr (envelope_message_id sample letter_mail), w')"
proof -
  let ?H = "sample_handle (node_id_of sample alice)" and ?n = "node_id_of sample bob"
  note laws = sample_keys_ok sample_aead_ok sample_bincode_ok s_cid_ok
  obtain c s w1 where body: "put_body sample ?H ?n letter sample_net = (Inr (c, s), w1)"
    using letter_body_ok unfolding letter_body_def [symmetric] is_ok_iff by (metis prod.collapse)
  then have b: "letter_body = (Inr (c, s), w1)" by (simp add: letter_body_def)
  obtain cs w2 where files: "io_map (put_attachment sample ?H ?n) (so_attachments letter) w1 = (Inr cs, w2)"
    using letter_files_ok unfolding letter_files_def b by (auto simp: is_ok_iff prod_eq_iff)
  then have f: "letter_files = (Inr cs, w2)" by (simp add: letter_files_def b)
  have up: "net_up sample_net" by (simp add: sample_net_def install_service_def new_net_def)
  note B = memory.put_body_result [OF laws up body [unfolded sample_handle_def]]
  note F = memory.put_attachments_result [OF laws _ files [unfolded sample_handle_def]]
  have up2: "net_up w2" and kept: "fmlookup (fn_services w2) = fmlookup (fn_services sample_net)"
    using B F by (simp_all add: memory.keeps_def)
  have svc2: "fmlookup (fn_services w2) mailbox_hex = Some bobs_service"
    unfolding kept by (simp add: sample_net_def install_service_def)
  have target: "send_target letter = (mailbox_hex, long_grant)" by (simp add: send_target_def letter_def)
  have e: "letter_mail = compose_envelope sample alice letter c s cs (fn_now w2)"
    using letter_clock by (simp add: letter_mail_def b f)
  have texts: "rust_string c \<and> rust_string s"
    by (rule memory.body_stored_texts [OF conjunct1 [OF B] letter_ok])
  have "length cs = 1" using letter_file_cids by (auto simp: f map_eq_Cons_conv)
  moreover have "list_all rust_string cs"
    using F B by (auto simp: list_all_length list_all2_conv_all_nth dest: memory.stored_cid)
  ultimately have cids: "list_all rust_string cs" "length cs < usize_limit" by (simp_all add: usize_limit_def)
  have "ok_envelope letter_mail"
    unfolding e by (rule compose_envelope_ok [OF sample_identity_ok sample_hex_ok letter_ok])
      (use texts cids in auto)
  moreover have "ok_grant long_grant"
    by (simp add: ok_grant_def long_grant_def bob_grant_def usize_limit_def)
  ultimately
  obtain w' where "deliver_envelope sample ?H cl letter letter_mail w2 =
      (Inr (envelope_message_id sample letter_mail), w')"
    using memory.deliver_succeeds [OF sample_bincode_ok sample_caps_ok sample_texts_ok up2 svc2
        bobs_service_typed _ _ target letter_deliverable]
    unfolding sample_handle_def by blast
  moreover have "parse_node_id sample (so_to letter) = Inr ?n"
    using parse_node_id_hex [OF sample_hex_ok sample_identity_ok] by (simp add: letter_def bob_hex_def)
  moreover have "now_secs ?H w2 = fn_now w2" by (simp add: sample_handle_def fake_handle_def)
  ultimately show ?thesis using body files e assms by (intro exI [of _ w']) (simp add: send_mail_def)
qed

lemma letter_sent:
  "\<exists>w'. send_mail sample (sample_handle (node_id_of sample alice)) alice_client letter sample_net =
     (Inr (envelope_message_id sample letter_mail), w')"
  by (rule letter_sent_by)
    (simp_all add: check_payload_def alice_client_def client_with_limits_def new_client_def small_limits_def letter_def)

lemma letter_new: "envelope_message_id sample letter_mail \<notin> seen_of (so_to letter) (ms_store bobs_service)"
  by (simp add: bobs_service_def with_limits_def sample_store_def new_store_def mail_defs)

text \<open>The mailbox after the letter: Bob's queue is the letter alone.\<close>

lemma letter_kept:
  assumes "mc_identity cl = alice"
    and "send_mail sample (sample_handle (node_id_of sample alice)) cl letter sample_net =
      (Inr (envelope_message_id sample letter_mail), w')"
  shows "\<exists>x. fmlookup (fn_services w') mailbox_hex =
      Some (bobs_service\<lparr>ms_store := push_envelope sample (so_to letter) x sample_store\<rparr>) \<and>
    queue_of (so_to letter) (push_envelope sample (so_to letter) x sample_store) = [x] \<and>
    eb_from (en_body (se_envelope x)) = node_id_hex sample alice \<and> ok_envelope (se_envelope x) \<and> net_up w'"
proof -
  have svc: "fmlookup (fn_services sample_net) mailbox_hex = Some bobs_service" "net_up sample_net"
    by (simp_all add: sample_net_def install_service_def new_net_def)
  have letter: "so_to letter = node_id_hex sample bob" "fst (send_target letter) = mailbox_hex"
    by (simp_all add: letter_def bob_hex_def send_target_def)
  have store: "ms_store bobs_service = sample_store" by (simp add: bobs_service_def with_limits_def)
  obtain e where e: "memory.sent sample s_cid alice bob letter mailbox_hex bobs_service e sample_net w'"
    and mid: "envelope_message_id sample letter_mail = envelope_message_id sample e"
    using memory.send_result [OF sample_keys_ok sample_aead_ok sample_bincode_ok s_cid_ok sample_hex_ok
        sample_identity_ok sample_caps_ok sample_texts_ok svc(2) letter(1) letter_ok letter(2) svc(1)
        bobs_service_typed assms(2) [unfolded sample_handle_def]] assms(1) by auto
  let ?x = "\<lparr>se_envelope = e, se_stored_at = 1000\<rparr>"
  have "queue_of (so_to letter) (push_envelope sample (so_to letter) ?x sample_store) = [?x]"
    using inbox.push_items [where X = sample and r = "so_to letter" and s = sample_store and x = ?x]
      letter_new mid
    by (simp add: store stored_id_def keep_last_def) (simp add: sample_store_def new_store_def)
  with e show ?thesis by (intro exI [of _ ?x]) (simp add: memory.sent_def store)
qed

lemma mail_arrives_witness:
  "\<exists>mid w' ms m cursor w''.
     send_mail sample (sample_handle (node_id_of sample alice)) alice_client letter sample_net = (Inr mid, w') \<and>
     drain_inbox sample (sample_handle (node_id_of sample bob)) bob_client mailbox_hex 0 [] w' =
       (Inr (ms @ [m], cursor), w'') \<and>
     message_subject m = ''plans'' \<and> msg_body m = [7, 8, 9] \<and> message_id_of sample m = mid"
proof -
  obtain w' where run: "send_mail sample (sample_handle (node_id_of sample alice)) alice_client letter sample_net =
      (Inr (envelope_message_id sample letter_mail), w')" using letter_sent by blast
  have svc: "fmlookup (fn_services sample_net) mailbox_hex = Some bobs_service" "net_up sample_net"
    by (simp_all add: sample_net_def install_service_def new_net_def)
  have letter: "so_to letter = node_id_hex sample bob" "fst (send_target letter) = mailbox_hex" "so_seal_subject letter"
    by (simp_all add: letter_def bob_hex_def send_target_def)
  have clients: "mc_identity bob_client = bob" "mc_identity alice_client = alice"
    by (simp_all add: bob_client_def alice_client_def new_client_def client_with_limits_def)
  have store: "ms_store bobs_service = sample_store" by (simp add: bobs_service_def with_limits_def)
  obtain x where svc': "fmlookup (fn_services w') mailbox_hex = Some (bobs_service\<lparr>ms_store :=
      push_envelope sample (so_to letter) x sample_store\<rparr>)"
    and q: "queue_of (so_to letter) (push_envelope sample (so_to letter) x sample_store) = [x]"
    using letter_kept [OF clients(2) run] by blast
  have "0 < pending_count (so_to letter) (push_envelope sample (so_to letter) x sample_store)"
    using q by (auto simp: pending_count_def fm_get_def split: option.splits)
  with mail_arrives [OF sample_crates_ok s_cid_ok svc(2) letter(1) letter_ok _ letter(2) svc(1)
      bobs_service_typed _ run [unfolded sample_handle_def] letter_new svc' _ clients(1), of 0 "[]"]
    letter(3) sample_store_ok run show ?thesis
    unfolding sample_handle_def [symmetric]
    by (auto simp: store ok_grant_def usize_limit_def letter_def)
qed

end
