(* ===== verification/Client_Properties.thy ===== *)
theory Client_Properties
  imports Journey_Properties
begin

text \<open>
  The properties of the client against any host, also a hostile one: the payload bounds come before
  any effect, a mailbox cannot make the client show forged mail or receipts, screening splits a
  drain, and how a body blob is read.
\<close>

section \<open>Bounds before effects\<close>

text \<open>C27: a message with a bad recipient, a body or an attachment above the client's limits, or too many
  attachments is refused by \<open>send\<close> before anything happens: no randomness is drawn, no blob stored, no
  request sent, on any transport.\<close>

theorem oversize_never_sent:
  assumes "\<not> is_ok (parse_node_id X (so_to opts)) \<or> max_body_bytes (mc_limits cl) < length (so_body opts) \<or>
    max_attachments (mc_limits cl) < length (so_attachments opts) \<or>
    (\<exists>a \<in> set (so_attachments opts). max_attachment_bytes (mc_limits cl) < length (at_bytes a))"
  shows "\<exists>e. send_mail X H cl opts w = (Inl e, w)"
proof (cases "parse_node_id X (so_to opts)")
  case (Inl e)
  then show ?thesis by (simp add: send_mail_def)
next
  case (Inr n)
  have "\<exists>e. check_payload H (mc_limits cl) opts = Inl e"
    using assms Inr find_None_iff [of "\<lambda>a. max_attachment_bytes (mc_limits cl) < length (at_bytes a)" "so_attachments opts"]
    by (auto simp: check_payload_def split: option.splits)
  with Inr show ?thesis by (auto simp: send_mail_def)
qed

lemma oversize_never_sent_witness:
  "\<exists>e. send_mail sample (sample_handle []) alice_client (letter\<lparr>so_body := replicate 41 0\<rparr>) sample_net = (Inl e, sample_net)"
  by (rule oversize_never_sent) (simp add: alice_client_def client_with_limits_def small_limits_def)

section \<open>A hostile mailbox\<close>

text \<open>What \<open>compose_messages\<close> keeps: the envelopes that verify, in order, whatever their blobs do.\<close>

lemma compose_messages_envelopes:
  "map msg_envelope (fst (compose_messages X H cl es w)) = filter (\<lambda>e. is_ok (verify_envelope X e)) es"
  by (induction es arbitrary: w) (simp_all add: Let_def case_prod_unfold)

text \<open>A drain, by the reply it composes.\<close>

lemma drained_envelopes:
  assumes "drain_inbox X H cl mailbox since grant w = (Inr (msgs, cursor), w')"
  shows "\<exists>envelopes w1.
    round_trip X H cl mailbox (Drain (client_hex X cl) since grant) w = (Inr (Drained envelopes cursor), w1) \<and>
    map msg_envelope msgs = filter (\<lambda>e. is_ok (verify_envelope X e)) envelopes"
proof -
  from assms obtain reply w1
    where rt: "round_trip X H cl mailbox (Drain (client_hex X cl) since grant) w = (Inr reply, w1)"
      and run: "(case reply of Drained envelopes cursor \<Rightarrow>
           (\<lambda>w. let (out, w) = compose_messages X H cl envelopes w in (Inr (out, cursor), w))
       | Error m \<Rightarrow> io_err (''drain rejected: '' @ m)
       | other \<Rightarrow> io_err (''unexpected reply to Drain: '' @ debug_reply H other)) w1 = (Inr (msgs, cursor), w')"
    unfolding drain_inbox_def by (rule io_bind_InrE)
  from run obtain es where "reply = Drained es cursor" "compose_messages X H cl es w1 = (msgs, w')"
    by (cases reply) (auto split: prod.splits)
  with rt compose_messages_envelopes [of X H cl es w1] show ?thesis by auto
qed

text \<open>C10: whatever reply a mailbox makes up, the messages a drain shows are exactly the envelopes of the
  reply whose signature verifies under their stated sender, in the mailbox's order, with the
  mailbox's cursor; a message whose blob is missing, corrupt or not for this client is shown with
  no body and does not stop the others.\<close>

theorem drain_shows_only_authentic:
  assumes "drain_inbox X H cl mailbox since grant w = (Inr (msgs, cursor), w')"
  shows "\<exists>envelopes w1.
    round_trip X H cl mailbox (Drain (client_hex X cl) since grant) w = (Inr (Drained envelopes cursor), w1) \<and>
    map msg_envelope msgs = filter (\<lambda>e. is_ok (verify_envelope X e)) envelopes"
  by (rule drained_envelopes [OF assms])

text \<open>Likewise a collection of receipts shows exactly the receipts of the mailbox's reply that verify
  under the node that is said to have issued them.\<close>

lemma receipts_shown_are_authentic:
  assumes "collect_client_receipts X H cl mailbox grant w = (Inr rs, w')"
  shows "\<exists>receipts.
    round_trip X H cl mailbox (CollectReceipts (client_hex X cl) grant) w = (Inr (Receipts receipts), w') \<and>
    rs = filter (\<lambda>r. is_ok (verify_receipt X r)) receipts"
proof -
  from assms obtain reply w1
    where rt: "round_trip X H cl mailbox (CollectReceipts (client_hex X cl) grant) w = (Inr reply, w1)"
      and run: "(case reply of
         Receipts receipts \<Rightarrow> io_ok (filter (\<lambda>r. is_ok (verify_receipt X r)) receipts)
       | Error m \<Rightarrow> io_err (''collect rejected: '' @ m)
       | other \<Rightarrow> io_err (''unexpected reply to CollectReceipts: '' @ debug_reply H other)) w1 = (Inr rs, w')"
    unfolding collect_client_receipts_def by (rule io_bind_InrE)
  from run rt show ?thesis by (cases reply) auto
qed

text \<open>A mailbox that answers everything with one reply it made up.\<close>

definition parrot :: "MailReply \<Rightarrow> FakeNet Host" where
  "parrot reply = (sample_handle [])\<lparr>mesh_request := \<lambda>_ _ _ net. (Inr (encode_reply sample reply), net)\<rparr>"

definition forged_mail :: Envelope where
  "forged_mail = (sample_mail 5)\<lparr>en_sig := replicate 64 0\<rparr>"

definition alice_receipt :: Receipt where
  "alice_receipt = issue_receipt sample alice ''m1'' KRead 7"

definition forged_receipt :: Receipt where
  "forged_receipt = alice_receipt\<lparr>rc_sig := replicate 64 0\<rparr>"

lemma parrot_replies:
  "ok_reply reply \<Longrightarrow> round_trip sample (parrot reply) cl to req w = (Inr reply, w)"
  by (simp add: round_trip_def parrot_def encode_decode_reply [OF sample_bincode_ok])

lemma parrot_mail: "ok_reply (Drained [forged_mail, sample_mail 5] 9)"
  using sample_mail_ok [of 5] by (simp add: forged_mail_def ok_envelope_def usize_limit_def)

lemma forged_mail_bad: "\<not> is_ok (verify_envelope sample forged_mail)"
  by code_simp

lemma parrot_drain:
  "\<exists>msgs w'. drain_inbox sample (parrot (Drained [forged_mail, sample_mail 5] 9)) bob_client mailbox_hex 0 []
     sample_net = (Inr (msgs, 9), w')"
  by (cases "compose_messages sample (parrot (Drained [forged_mail, sample_mail 5] 9)) bob_client
      [forged_mail, sample_mail 5] sample_net")
    (simp add: drain_inbox_def parrot_replies [OF parrot_mail] del: compose_messages.simps)

lemma drain_shows_only_authentic_witness:
  "\<exists>msgs w'. drain_inbox sample (parrot (Drained [forged_mail, sample_mail 5] 9)) bob_client mailbox_hex 0 [] sample_net =
     (Inr (msgs, 9), w') \<and> map msg_envelope msgs = [sample_mail 5]"
proof -
  let ?H = "parrot (Drained [forged_mail, sample_mail 5] 9)"
  obtain msgs w' where "drain_inbox sample ?H bob_client mailbox_hex 0 [] sample_net = (Inr (msgs, 9), w')"
    using parrot_drain by blast
  moreover from drain_shows_only_authentic [OF this] have "map msg_envelope msgs = [sample_mail 5]"
    using forged_mail_bad sample_mail_verifies by (simp add: parrot_replies [OF parrot_mail])
  ultimately show ?thesis by auto
qed

lemma receipts_shown_are_authentic_witness:
  "fst (collect_client_receipts sample (parrot (Receipts [forged_receipt, alice_receipt])) bob_client mailbox_hex [] sample_net) =
     Inr [alice_receipt]"
proof -
  have "ok_receipt alice_receipt"
    using node_hex_rust_string [OF sample_identity_ok sample_hex_ok, of alice] identity_okD(3) [OF sample_identity_ok]
    by (simp add: alice_receipt_def issue_receipt_def Let_def ok_receipt_def ok_receipt_body_def
        rust_string_def byte_in_def usize_limit_def)
  then have ok: "ok_reply (Receipts [forged_receipt, alice_receipt])"
    by (simp add: forged_receipt_def ok_receipt_def usize_limit_def)
  let ?H = "parrot (Receipts [forged_receipt, alice_receipt])"
  obtain rs w' where c: "collect_client_receipts sample ?H bob_client mailbox_hex [] sample_net = (Inr rs, w')"
    by (simp add: collect_client_receipts_def parrot_replies [OF ok])
  have "\<not> is_ok (verify_receipt sample forged_receipt)" by code_simp
  moreover have "verify_receipt sample alice_receipt = Inr ()"
    unfolding alice_receipt_def by (rule issue_receipt_verifies [OF sample_hex_ok sample_identity_ok])
  ultimately show ?thesis
    using receipts_shown_are_authentic [OF c] c by (simp add: parrot_replies [OF ok])
qed

section \<open>Screening a drain\<close>

lemma screen_messages_split:
  assumes "\<And>n w. sender_standing H n w = (standing n, w)"
  shows "screen_messages base H policy verify_postage ms w =
    ((filter (\<lambda>m. is_inbox (screen base policy (msg_envelope m)
         (unwrap_or Newcomer (standing (eb_from (en_body (msg_envelope m))))) verify_postage)) ms,
      filter (\<lambda>m. screen base policy (msg_envelope m)
         (unwrap_or Newcomer (standing (eb_from (en_body (msg_envelope m))))) verify_postage = Spam) ms), w)"
  by (induction ms) (auto simp: assms Let_def split: Verdict.splits)

text \<open>Screening a drain splits it: with a standing lookup that answers per sender (or fails, which
  counts as a newcomer), \<open>screen_inbox\<close> returns the drained messages the policy puts in the inbox and
  those it quarantines, each in their order, drops the rejected ones, and keeps the cursor.\<close>

lemma screen_inbox_splits:
  assumes "\<And>n w. sender_standing H n w = (standing n, w)"
    and "drain_inbox X H cl mailbox since grant w = (Inr (msgs, cursor), w')"
    and "verdict = (\<lambda>m. screen base policy (msg_envelope m)
      (unwrap_or Newcomer (standing (eb_from (en_body (msg_envelope m))))) verify_postage)"
  shows "screen_inbox base X H cl mailbox since grant policy verify_postage w =
    (Inr (filter (\<lambda>m. is_inbox (verdict m)) msgs, filter (\<lambda>m. verdict m = Spam) msgs, cursor), w')"
  using assms(2) screen_messages_split [of H standing base policy verify_postage msgs w', OF assms(1)]
  by (simp add: screen_inbox_def assms(3))

lemma screen_inbox_splits_witness:
  "\<exists>msgs w'. screen_inbox id sample (parrot (Drained [forged_mail, sample_mail 5] 9)) bob_client mailbox_hex 0 []
     (new_policy (0::nat) bob_hex) (\<lambda>_. None) sample_net = (Inr ([], msgs, 9), w') \<and> length msgs = 1"
proof -
  let ?H = "parrot (Drained [forged_mail, sample_mail 5] 9)"
  obtain msgs w' where d: "drain_inbox sample ?H bob_client mailbox_hex 0 [] sample_net = (Inr (msgs, 9), w')"
    using parrot_drain by blast
  have "map msg_envelope msgs = [sample_mail 5]"
    using compose_messages_envelopes [of sample ?H bob_client "[forged_mail, sample_mail 5]" sample_net]
      forged_mail_bad sample_mail_verifies d
    by (simp add: drain_inbox_def parrot_replies [OF parrot_mail] del: compose_messages.simps split: prod.splits)
  then obtain m where m: "msgs = [m]" "msg_envelope m = sample_mail 5" by auto
  have "sender_standing ?H n w = (Inr Newcomer, w)" for n w
    by (simp add: parrot_def sample_handle_def fake_handle_def default_standing_def)
  moreover have sender: "eb_from (en_body (sample_mail 5)) \<noteq> bob_hex" by code_simp
  ultimately have "\<And>n w. sender_standing ?H n w = (Inr Newcomer, w)" by blast
  from screen_inbox_splits [OF this d refl, of id "new_policy (0::nat) bob_hex" "\<lambda>_. None"]
  show ?thesis
    using m sample_mail_to [of 5] sender
    by (auto simp: screen_def new_policy_def sample_mail_fields deny_def is_blocked_def is_contact_def)
qed

end
