(* ===== verification/Crypto_Properties.thy ===== *)
theory Crypto_Properties
  imports Journey_Properties
begin

text \<open>
  The properties of what is signed and what is sealed: a signature covers every field, a receipt's
  key identifies what it acknowledges, what is sealed to a node opens at it, and how a body blob is
  told apart from a structured one.
\<close>

section \<open>Signatures\<close>

text \<open>C25: sealing an envelope sets its sender to the signer and makes it verify, and the signed bytes
  determine every field: content that differs anywhere from what was signed has other signing
  bytes, for envelopes and for receipts.\<close>

theorem signature_covers_every_field:
  assumes "hex_ok X" and "identity_ok X" and "bincode_ok X"
    and "ok_body b" and "ok_body c" and "ok_receipt_body r" and "rust_string mid"
  shows "verify_envelope X (seal_envelope X i b) = Inr () \<and>
    eb_from (en_body (seal_envelope X i b)) = node_id_hex X i \<and>
    (c \<noteq> en_body (seal_envelope X i b) \<longrightarrow>
      envelope_signing_bytes X c \<noteq> envelope_signing_bytes X (en_body (seal_envelope X i b))) \<and>
    verify_receipt X (issue_receipt X i mid kind t) = Inr () \<and>
    (r \<noteq> rc_body (issue_receipt X i mid kind t) \<longrightarrow>
      receipt_signing_bytes X r \<noteq> receipt_signing_bytes X (rc_body (issue_receipt X i mid kind t)))"
proof -
  have "ok_body (en_body (seal_envelope X i b))"
    using seal_envelope_ok [OF assms(2,1,4)] by (simp add: ok_envelope_def)
  moreover have "ok_receipt_body (rc_body (issue_receipt X i mid kind t))"
    using node_hex_rust_string [OF assms(2,1)] assms(7)
    by (simp add: issue_receipt_def Let_def ok_receipt_body_def)
  ultimately show ?thesis
    using signing_bytes_injective [OF assms(3,5)] receipt_signing_injective [OF assms(3,6)]
      seal_envelope_verifies [OF assms(1,2)] issue_receipt_verifies [OF assms(1,2)] seal_envelope_from
    by metis
qed

lemma signature_covers_every_field_witness:
  "envelope_signing_bytes sample (sample_body 9) \<noteq> envelope_signing_bytes sample (en_body (sample_mail 5))"
proof -
  have ok: "ok_body (sample_body t)" for t
    using node_hex_rust_string [OF sample_identity_ok sample_hex_ok, of bob]
    by (simp add: sample_body_def ok_body_def bob_hex_def rust_string_def byte_in_def usize_limit_def)
  have "ok_receipt_body \<lparr>rb_message_id = [], rb_by = [], rb_kind = KRead, rb_at = 0\<rparr>" "rust_string []"
    by (simp_all add: ok_receipt_body_def rust_string_def usize_limit_def)
  from signature_covers_every_field [OF sample_hex_ok sample_identity_ok sample_bincode_ok ok [of 5] ok [of 9] this, of alice]
  show ?thesis by (simp add: sample_mail_def seal_envelope_def Let_def sample_body_def)
qed

text \<open>The key under which a mailbox de-duplicates receipts identifies the acknowledgement: two
  verifiable receipts have the same key exactly if the same node acknowledged the same message in
  the same way, although the key is a text glued with colons and the message id is free text.\<close>

lemma receipt_key_identifies:
  assumes "hex_strict X" and "verify_receipt X r = Inr ()" and "verify_receipt X s = Inr ()"
  shows "dedup_key r = dedup_key s \<longleftrightarrow>
    rb_message_id (rc_body r) = rb_message_id (rc_body s) \<and> rb_kind (rc_body r) = rb_kind (rc_body s) \<and>
    rb_by (rc_body r) = rb_by (rc_body s)"
  using dedup_key_injective [OF _ verified_by_no_colon [OF assms(1,2)] verified_by_no_colon [OF assms(1,3)]]
  by (auto simp: dedup_key_def)

lemma sample_hex_strict: "hex_strict sample"
  using s_hex_no_colon by (auto simp: hex_strict_def sample_def)

lemma receipt_key_identifies_witness:
  "dedup_key (issue_receipt sample alice ''a:1'' KRead 7) \<noteq> dedup_key (issue_receipt sample alice ''a'' KDelivered 7)"
  by (subst receipt_key_identifies [OF sample_hex_strict])
    (simp_all add: issue_receipt_verifies [OF sample_hex_ok sample_identity_ok], simp add: issue_receipt_def Let_def)

section \<open>Sealed bodies\<close>



text \<open>C37: a raw body that happens to be the magic byte 0xC5 followed by the encoding of a subject and a
  text is not delivered as it was composed: sent without subject sealing, the recipient reads the
  inner text as the body and the inner subject as the sealed subject.\<close>

theorem raw_body_misread:
  assumes "keys_ok X" and "aead_ok X" and "bincode_ok X" and "cids_ok X cid" and "net_up w"
    and "\<not> so_seal_subject opts" and "encode_content X c = Inr (so_body opts)" and "ok_content c"
    and "put_body X (fake_handle X cid rnd dbs dbr me) (node_id_of X j) opts w = (Inr (body_cid, subject), w')"
    and "eb_body_cid (en_body e) = body_cid" and "mc_identity recipient = j"
  shows "open_content X (fake_handle X cid rnd dbs dbr me') recipient e w' = (Inr (bc_body c, Some (bc_subject c)), w')"
proof -
  have ne: "so_body opts \<noteq> []"
    using assms(7) by (auto simp: encode_content_def try_bind_Inr_iff)
  from memory.put_body_result [OF assms(1-5,9)] ne assms(6)
  have st: "mail_network.stored X cid (\<lambda>net. fmlookup (fn_blobs net)) w' j body_cid (so_body opts)" and up: "net_up w'"
    by (auto simp: memory.body_stored_def)
  have "try_decode_content X (so_body opts) = Some c"
    using encode_decode_content [OF assms(3,8)] assms(7) by auto
  with memory.stored_opens [OF up st, of rnd dbs dbr me'] memory.stored_cid [OF st] assms(10,11) show ?thesis
    by (auto simp: open_content_def)
qed

definition odd_letter :: "sample_cap SendOptions" where
  "odd_letter = letter\<lparr>so_body := [0xC5, 1, 120, 1, 7], so_seal_subject := False\<rparr>"

lemma raw_body_misread_witness:
  "\<exists>e w'. open_content sample (sample_handle (node_id_of sample bob)) bob_client e w' = (Inr ([7], Some ''x''), w') \<and>
     so_body odd_letter = [0xC5, 1, 120, 1, 7]"
proof -
  let ?H = "sample_handle (node_id_of sample alice)"
  have "is_ok (fst (put_body sample ?H (node_id_of sample bob) odd_letter sample_net))" by code_simp
  then obtain c s w' where put: "put_body sample ?H (node_id_of sample bob) odd_letter sample_net = (Inr (c, s), w')"
    unfolding is_ok_iff by (metis prod.collapse)
  have "encode_content sample \<lparr>bc_subject = ''x'', bc_body = [7]\<rparr> = Inr (so_body odd_letter)" by code_simp
  moreover have "ok_content \<lparr>bc_subject = ''x'', bc_body = [7]\<rparr>"
    by (simp add: ok_content_def rust_string_def byte_in_def usize_limit_def)
  moreover have "net_up sample_net" by (simp add: sample_net_def install_service_def new_net_def)
  moreover have "mc_identity bob_client = bob" by (simp add: bob_client_def new_client_def)
  moreover have "\<not> so_seal_subject odd_letter" by (simp add: odd_letter_def)
  ultimately have "open_content sample (sample_handle (node_id_of sample bob)) bob_client
      (compose_envelope sample alice odd_letter c s [] 0) w' = (Inr ([7], Some ''x''), w')"
    unfolding sample_handle_def
    using raw_body_misread [OF sample_keys_ok sample_aead_ok sample_bincode_ok s_cid_ok _ _ _ _ put [unfolded sample_handle_def]]
    by simp
  then show ?thesis by (auto simp: odd_letter_def)
qed

end
