(* ===== verification/Atomic_Write.thy ===== *)
theory Atomic_Write
  imports Mail_Effects Rust_Tokens
begin

text \<open>
  Crash-safe persistence (src/src/persist.rs). The directory that holds the file is modelled with
  what the running system sees and what a crash may leave: file contents are safe once the file is
  synced, and directory changes may or may not have reached the disk until the directory is synced.
  Every operation may fail; the states between the operations are recorded, so that a crash at any
  moment is covered. Paths are those whose last component is a name, as the crate uses them.
\<close>

section \<open>Files and directories\<close>

record stored_file =
  fl_data :: bytes
  fl_synced :: bool

record filesystem =
  fs_dir :: "(string, nat) fmap"
  fs_unsynced :: "(string, nat) fmap list"
  fs_files :: "nat \<Rightarrow> stored_file"
  fs_next :: nat

text \<open>What the running system reads under a name.\<close>

definition fs_read :: "filesystem \<Rightarrow> string \<Rightarrow> bytes option" where
  "fs_read fs name = map_option (\<lambda>i. fl_data (fs_files fs i)) (fmlookup (fs_dir fs) name)"

text \<open>
  What may be read under a name after a crash: the entry of the current directory or of one that a
  sync has not superseded; a file that was not synced may hold anything.
\<close>

definition crash_reads :: "filesystem \<Rightarrow> string \<Rightarrow> bytes option \<Rightarrow> bool" where
  "crash_reads fs name r \<longleftrightarrow>
     (\<exists>d \<in> set (fs_dir fs # fs_unsynced fs).
        case fmlookup d name of
          None \<Rightarrow> r = None
        | Some i \<Rightarrow>
            (if fl_synced (fs_files fs i) then r = Some (fl_data (fs_files fs i)) else r \<noteq> None))"

definition set_file :: "nat \<Rightarrow> bytes \<Rightarrow> bool \<Rightarrow> filesystem \<Rightarrow> filesystem" where
  "set_file i data synced fs = fs\<lparr>fs_files := (fs_files fs)(i := \<lparr>fl_data = data, fl_synced = synced\<rparr>)\<rparr>"

definition set_dir :: "(string, nat) fmap \<Rightarrow> filesystem \<Rightarrow> filesystem" where
  "set_dir d fs = fs\<lparr>fs_dir := d, fs_unsynced := fs_dir fs # fs_unsynced fs\<rparr>"

text \<open>\<open>File::create\<close>: a new empty file, or the existing one truncated.\<close>

definition fs_create :: "string \<Rightarrow> filesystem \<Rightarrow> filesystem" where
  "fs_create name fs =
     (case fmlookup (fs_dir fs) name of
        Some i \<Rightarrow> set_file i [] False fs
      | None \<Rightarrow>
          set_dir (fmupd name (fs_next fs) (fs_dir fs)) (set_file (fs_next fs) [] False fs)
            \<lparr>fs_next := Suc (fs_next fs)\<rparr>)"

definition fs_append :: "string \<Rightarrow> bytes \<Rightarrow> filesystem \<Rightarrow> filesystem" where
  "fs_append name bs fs =
     (case fmlookup (fs_dir fs) name of
        Some i \<Rightarrow> set_file i (fl_data (fs_files fs i) @ bs) False fs
      | None \<Rightarrow> fs)"

definition fs_sync :: "string \<Rightarrow> filesystem \<Rightarrow> filesystem" where
  "fs_sync name fs =
     (case fmlookup (fs_dir fs) name of
        Some i \<Rightarrow> set_file i (fl_data (fs_files fs i)) True fs
      | None \<Rightarrow> fs)"

definition fs_rename :: "string \<Rightarrow> string \<Rightarrow> filesystem \<Rightarrow> filesystem" where
  "fs_rename a b fs =
     (case fmlookup (fs_dir fs) a of
        Some i \<Rightarrow> set_dir (fmupd b i (fmdrop a (fs_dir fs))) fs
      | None \<Rightarrow> fs)"

definition fs_sync_dir :: "filesystem \<Rightarrow> filesystem" where
  "fs_sync_dir fs = fs\<lparr>fs_unsynced := []\<rparr>"

section \<open>Operations that may fail\<close>

datatype write_op = CreateDir | CreateTemp | WriteTemp | FlushTemp | SyncTemp | RenameTemp | OpenDir | SyncDir

text \<open>Which operations fail, and how much of a failing write reaches the file.\<close>

record faults =
  ft_fails :: "write_op \<Rightarrow> bool"
  ft_written :: nat

record disk =
  dk_fs :: filesystem
  dk_moments :: "filesystem list"

definition fs_op :: "faults \<Rightarrow> write_op \<Rightarrow> string \<Rightarrow> (filesystem \<Rightarrow> filesystem) \<Rightarrow> (filesystem \<Rightarrow> filesystem) \<Rightarrow> (disk, unit) io" where
  "fs_op ft op context good bad = (\<lambda>d.
     let fs = (if ft_fails ft op then bad (dk_fs d) else good (dk_fs d)) in
     (if ft_fails ft op then Inl context else Inr (), \<lparr>dk_fs = fs, dk_moments = fs # dk_moments d\<rparr>))"

section \<open>\<open>atomic_write\<close>\<close>

text \<open>\<open>Path::file_name\<close> and \<open>Path::parent\<close> of such a path: \<open>parent\<close> of a bare name is the empty path.\<close>

definition slash :: char where
  "slash = CHR ''/''"

definition path_file_name :: "string \<Rightarrow> string option" where
  "path_file_name p =
     (let f = after_last slash p in
      if f = [] \<or> f = ''.'' \<or> f = ''..'' then None else Some f)"

definition path_parent :: "string \<Rightarrow> string option" where
  "path_parent p =
     (if p = [] \<or> p = [slash] then None
      else case dropWhile (\<lambda>c. c \<noteq> slash) (rev p) of
          [] \<Rightarrow> Some []
        | [_] \<Rightarrow> Some [slash]
        | _ # d \<Rightarrow> Some (rev d))"

definition path_join :: "string \<Rightarrow> string \<Rightarrow> string" where
  "path_join d f = (if d = [] then f else if last d = slash then d @ f else d @ [slash] @ f)"

definition temp_name :: "string option \<Rightarrow> nat \<Rightarrow> string" where
  "temp_name file_name pid =
     ''.'' @ (case file_name of Some f \<Rightarrow> f | None \<Rightarrow> ''store'') @ ''.tmp.'' @ show_nat pid"

definition atomic_write :: "faults \<Rightarrow> nat \<Rightarrow> string \<Rightarrow> bytes \<Rightarrow> (disk, unit) io" where
  "atomic_write ft pid path bs =
     (let dir = (case path_parent path of Some d \<Rightarrow> d | None \<Rightarrow> ''.'');
          tmp = temp_name (path_file_name path) pid;
          tmp_path = path_join dir tmp;
          target = (case path_file_name path of Some f \<Rightarrow> f | None \<Rightarrow> path)
      in
      io_bind (if dir = [] then io_ok () else fs_op ft CreateDir (''create dir '' @ dir) id id) (\<lambda>_.
      io_bind (fs_op ft CreateTemp (''create temp '' @ tmp_path) (fs_create tmp) id) (\<lambda>_.
      io_bind (fs_op ft WriteTemp (''write temp '' @ tmp_path) (fs_append tmp bs)
        (fs_append tmp (take (ft_written ft) bs))) (\<lambda>_.
      io_bind (fs_op ft FlushTemp ''flush temp'' id id) (\<lambda>_.
      io_bind (fs_op ft SyncTemp (''fsync temp '' @ tmp_path) (fs_sync tmp) id) (\<lambda>_.
      io_bind (fs_op ft RenameTemp (''rename '' @ tmp_path @ '' -> '' @ path) (fs_rename tmp target) id) (\<lambda>_.
      (\<lambda>d.
        if dir = [] \<or> ft_fails ft OpenDir then (Inr (), d)
        else (Inr (), snd (fs_op ft SyncDir [] fs_sync_dir id d))))))))))"

section \<open>What a name can read as\<close>

text \<open>No two names share a file, and new files are new.\<close>

definition fs_ok :: "filesystem \<Rightarrow> bool" where
  "fs_ok fs \<longleftrightarrow>
     (\<forall>m n i. fmlookup (fs_dir fs) m = Some i \<and> fmlookup (fs_dir fs) n = Some i \<longrightarrow> m = n) \<and>
     (\<forall>n i. fmlookup (fs_dir fs) n = Some i \<longrightarrow> i < fs_next fs)"

text \<open>
  Now and after any crash the name reads as one of \<open>R\<close>: every directory the disk may come back to
  has no entry for it, or a synced file that no other name reaches.
\<close>

definition entry_ok ::
  "string \<Rightarrow> bytes option set \<Rightarrow> (string, nat) fmap \<Rightarrow> (nat \<Rightarrow> stored_file) \<Rightarrow> nat \<Rightarrow> (string, nat) fmap \<Rightarrow> bool" where
  "entry_ok name R dir files fresh d \<longleftrightarrow>
     (case fmlookup d name of
        None \<Rightarrow> None \<in> R
      | Some i \<Rightarrow>
          fl_synced (files i) \<and> Some (fl_data (files i)) \<in> R \<and> i < fresh \<and>
          (\<forall>n. n \<noteq> name \<longrightarrow> fmlookup dir n \<noteq> Some i))"

definition holds :: "string \<Rightarrow> bytes option set \<Rightarrow> filesystem \<Rightarrow> bool" where
  "holds name R fs \<longleftrightarrow> fs_ok fs \<and>
     (\<forall>d \<in> set (fs_dir fs # fs_unsynced fs). entry_ok name R (fs_dir fs) (fs_files fs) (fs_next fs) d)"

lemma holds_reads:
  assumes "holds name R fs"
  shows "fs_read fs name \<in> R" and "crash_reads fs name r \<Longrightarrow> r \<in> R"
proof -
  show "fs_read fs name \<in> R"
    using assms by (auto simp: holds_def entry_ok_def fs_read_def split: option.splits)
  show "crash_reads fs name r \<Longrightarrow> r \<in> R"
    using assms unfolding crash_reads_def holds_def entry_ok_def by (fastforce split: option.splits if_splits)
qed

lemma holds_mono: "holds name R fs \<Longrightarrow> R \<subseteq> R' \<Longrightarrow> holds name R' fs"
  unfolding holds_def entry_ok_def by (fastforce split: option.splits)

text \<open>Work on another name leaves it alone.\<close>

definition still :: "string \<Rightarrow> bytes option set \<Rightarrow> bytes option \<Rightarrow> filesystem \<Rightarrow> bool" where
  "still name R r fs \<longleftrightarrow> holds name R fs \<and> fs_read fs name = r"

lemma set_file_still:
  assumes "still name R r fs" and "fmlookup (fs_dir fs) tmp = Some i" and "tmp \<noteq> name"
  shows "still name R r (set_file i data synced fs)"
proof -
  have other: "fmlookup d name \<noteq> Some i" if "d \<in> set (fs_dir fs # fs_unsynced fs)" for d
    using assms that unfolding still_def holds_def entry_ok_def by (fastforce split: option.splits)
  have "fmlookup (fs_dir fs) name \<noteq> Some i" using other by simp
  then have "fs_read (set_file i data synced fs) name = fs_read fs name"
    by (cases "fmlookup (fs_dir fs) name") (auto simp: fs_read_def set_file_def)
  moreover have "holds name R (set_file i data synced fs)"
    using assms(1) other unfolding still_def holds_def entry_ok_def fs_ok_def set_file_def
    by (fastforce split: option.splits)
  ultimately show ?thesis using assms(1) by (simp add: still_def)
qed

lemma create_still:
  assumes "still name R r fs" and "tmp \<noteq> name"
  shows "still name R r (fs_create tmp fs)"
proof (cases "fmlookup (fs_dir fs) tmp")
  case (Some i)
  with set_file_still [OF assms(1) Some assms(2)] show ?thesis by (simp add: fs_create_def)
next
  case None
  have below: "i \<noteq> fs_next fs" if "d \<in> set (fs_dir fs # fs_unsynced fs)" "fmlookup d name = Some i" for d i
    using assms(1) that unfolding still_def holds_def entry_ok_def by (fastforce split: option.splits)
  have "fs_read (fs_create tmp fs) name = fs_read fs name"
    using None assms(2) below [of "fs_dir fs"]
    by (cases "fmlookup (fs_dir fs) name") (auto simp: fs_create_def fs_read_def set_file_def set_dir_def)
  moreover have "fs_ok (fs_create tmp fs)"
    using assms(1) None unfolding still_def holds_def
    by (fastforce simp: fs_ok_def fs_create_def set_file_def set_dir_def split: if_splits)
  moreover have "holds name R (fs_create tmp fs)"
    using assms None below \<open>fs_ok (fs_create tmp fs)\<close>
    unfolding still_def holds_def entry_ok_def
    by (fastforce simp: fs_create_def set_file_def set_dir_def split: option.splits if_splits)
  ultimately show ?thesis using assms(1) by (simp add: still_def)
qed

lemma append_still: "still name R r fs \<Longrightarrow> tmp \<noteq> name \<Longrightarrow> still name R r (fs_append tmp bs fs)"
  using set_file_still by (auto simp: fs_append_def split: option.splits)

lemma sync_still: "still name R r fs \<Longrightarrow> tmp \<noteq> name \<Longrightarrow> still name R r (fs_sync tmp fs)"
  using set_file_still by (auto simp: fs_sync_def split: option.splits)

text \<open>The temporary file through the steps that fill it.\<close>

lemma create_read: "fs_read (fs_create tmp fs) tmp = Some []"
  by (auto simp: fs_read_def fs_create_def set_file_def set_dir_def split: option.splits)

lemma append_read: "fs_read fs tmp = Some xs \<Longrightarrow> fs_read (fs_append tmp bs fs) tmp = Some (xs @ bs)"
  by (auto simp: fs_read_def fs_append_def set_file_def)

lemma sync_read:
  "fs_read fs tmp = Some xs \<Longrightarrow>
    \<exists>j. fmlookup (fs_dir (fs_sync tmp fs)) tmp = Some j \<and>
      fs_files (fs_sync tmp fs) j = \<lparr>fl_data = xs, fl_synced = True\<rparr>"
  by (auto simp: fs_read_def fs_sync_def set_file_def)

lemma rename_still:
  assumes "still name R r fs" and "tmp \<noteq> name"
    and "fmlookup (fs_dir fs) tmp = Some j" and "fs_files fs j = \<lparr>fl_data = new, fl_synced = True\<rparr>"
  shows "still name (insert (Some new) R) (Some new) (fs_rename tmp name fs)"
proof -
  let ?d = "fmupd name j (fmdrop tmp (fs_dir fs))"
  have fs': "fs_rename tmp name fs = fs\<lparr>fs_dir := ?d, fs_unsynced := fs_dir fs # fs_unsynced fs\<rparr>"
    using assms(3) by (simp add: fs_rename_def set_dir_def)
  have ok: "fs_ok fs" using assms(1) by (simp add: still_def holds_def)
  have j: "j < fs_next fs" "\<And>n. n \<noteq> tmp \<Longrightarrow> fmlookup (fs_dir fs) n \<noteq> Some j"
    using ok assms(3) unfolding fs_ok_def by blast+
  have "fs_ok (fs_rename tmp name fs)"
    unfolding fs' using ok j by (auto simp: fs_ok_def)
  moreover have "entry_ok name (insert (Some new) R) ?d (fs_files fs) (fs_next fs) d"
    if "d \<in> set (fs_dir fs # fs_unsynced fs)" for d
    using assms(1) that unfolding still_def holds_def entry_ok_def by (fastforce split: option.splits)
  moreover have "entry_ok name (insert (Some new) R) ?d (fs_files fs) (fs_next fs) ?d"
    using assms(4) j by (simp add: entry_ok_def)
  ultimately have "holds name (insert (Some new) R) (fs_rename tmp name fs)"
    unfolding fs' by (simp add: holds_def)
  then show ?thesis using assms(4) by (simp add: still_def fs' fs_read_def)
qed

lemma sync_dir_still:
  "still name R r fs \<Longrightarrow> still name R r (fs_sync_dir fs) \<and> fs_unsynced (fs_sync_dir fs) = []"
  by (auto simp: still_def holds_def fs_ok_def fs_read_def fs_sync_dir_def)

text \<open>Once the directory is synced nothing but the current contents can come back.\<close>

lemma settled:
  assumes "still name R r fs" and "fs_unsynced fs = []"
  shows "still name {r} r fs"
  using assms by (auto simp: still_def holds_def entry_ok_def fs_read_def split: option.splits)

lemma temp_differs: "temp_name (Some f) pid \<noteq> f"
proof
  assume "temp_name (Some f) pid = f"
  then have "length (temp_name (Some f) pid) = length f" by simp
  then show False by (simp add: temp_name_def)
qed

section \<open>All or nothing\<close>

text \<open>The moments since a disk state.\<close>

definition all_since :: "disk \<Rightarrow> (filesystem \<Rightarrow> bool) \<Rightarrow> disk \<Rightarrow> bool" where
  "all_since d P d' \<longleftrightarrow> (\<exists>ms. dk_moments d' = ms @ dk_moments d \<and> (\<forall>fs \<in> set ms. P fs))"

lemma since_refl [simp]: "all_since d P d"
  by (simp add: all_since_def)

lemma since_step: "all_since d P d' \<Longrightarrow> dk_moments d'' = fs # dk_moments d' \<Longrightarrow> P fs \<Longrightarrow> all_since d P d''"
  unfolding all_since_def by (metis append_Cons set_ConsD)

text \<open>One step of the sequence: an error ends it with the old contents in place.\<close>

lemma fs_op_bind:
  assumes "io_bind (fs_op ft op c good bad) k d1 = (r, d')" and "all_since d P d1"
    and "\<And>fs. fs = good (dk_fs d1) \<Longrightarrow> P fs" and "P (bad (dk_fs d1))"
    and "Q (bad (dk_fs d1))"
    and next_step: "\<And>d2. k () d2 = (r, d') \<Longrightarrow> dk_fs d2 = good (dk_fs d1) \<Longrightarrow> all_since d P d2 \<Longrightarrow>
      all_since d P d' \<and> (case r of Inr _ \<Rightarrow> R (dk_fs d') | Inl _ \<Rightarrow> Q (dk_fs d'))"
  shows "all_since d P d' \<and> (case r of Inr _ \<Rightarrow> R (dk_fs d') | Inl _ \<Rightarrow> Q (dk_fs d'))"
proof (cases "ft_fails ft op")
  case True
  with assms(1) have "r = Inl c" "d' = \<lparr>dk_fs = bad (dk_fs d1), dk_moments = bad (dk_fs d1) # dk_moments d1\<rparr>"
    by (auto simp: fs_op_def io_bind_def Let_def)
  with assms(2,4,5) since_step [OF assms(2)] show ?thesis by simp
next
  case False
  let ?d2 = "\<lparr>dk_fs = good (dk_fs d1), dk_moments = good (dk_fs d1) # dk_moments d1\<rparr>"
  from False assms(1) have "k () ?d2 = (r, d')" by (simp add: fs_op_def io_bind_def Let_def)
  from next_step [OF this] since_step [OF assms(2), of ?d2] assms(3) show ?thesis by simp
qed

lemma atomic_write_result:
  assumes name: "path_file_name path = Some f" and old: "still f R r0 (dk_fs d)"
    and run: "atomic_write ft pid path bs d = (r, d')"
  shows "all_since d (\<lambda>fs. still f R r0 fs \<or> still f (insert (Some bs) R) (Some bs) fs) d' \<and>
    (case r of
       Inr _ \<Rightarrow> still f (insert (Some bs) R) (Some bs) (dk_fs d') \<and>
         (path_parent path \<noteq> Some [] \<and> \<not> ft_fails ft OpenDir \<and> \<not> ft_fails ft SyncDir \<longrightarrow>
           fs_unsynced (dk_fs d') = [])
     | Inl _ \<Rightarrow> still f R r0 (dk_fs d'))"
    (is "all_since d ?P d' \<and> (case r of Inr _ \<Rightarrow> ?R (dk_fs d') | Inl _ \<Rightarrow> ?Q (dk_fs d'))")
proof -
  define dir where "dir = (case path_parent path of Some d \<Rightarrow> d | None \<Rightarrow> ''.'')"
  define tmp where "tmp = temp_name (Some f) pid"
  have tmp: "tmp \<noteq> f" by (simp add: tmp_def temp_differs)
  define k7 :: "unit \<Rightarrow> (disk, unit) io" where "k7 = (\<lambda>_. \<lambda>d. if dir = [] \<or> ft_fails ft OpenDir then (Inr (), d)
      else (Inr (), snd (fs_op ft SyncDir [] fs_sync_dir id d)))"
  define k6 where "k6 = (\<lambda>_ :: unit. io_bind (fs_op ft RenameTemp
      (''rename '' @ path_join dir tmp @ '' -> '' @ path) (fs_rename tmp f) id) k7)"
  define k5 where "k5 = (\<lambda>_ :: unit. io_bind (fs_op ft SyncTemp (''fsync temp '' @ path_join dir tmp)
      (fs_sync tmp) id) k6)"
  define k4 where "k4 = (\<lambda>_ :: unit. io_bind (fs_op ft FlushTemp ''flush temp'' id id) k5)"
  define k3 where "k3 = (\<lambda>_ :: unit. io_bind (fs_op ft WriteTemp (''write temp '' @ path_join dir tmp)
      (fs_append tmp bs) (fs_append tmp (take (ft_written ft) bs))) k4)"
  define k2 where "k2 = (\<lambda>_ :: unit. io_bind (fs_op ft CreateTemp (''create temp '' @ path_join dir tmp)
      (fs_create tmp) id) k3)"
  let ?goal = "all_since d ?P d' \<and> (case r of Inr _ \<Rightarrow> ?R (dk_fs d') | Inl _ \<Rightarrow> ?Q (dk_fs d'))"
  have last: "all_since d ?P d' \<and> (case r of Inr _ \<Rightarrow> ?R (dk_fs d') | Inl _ \<Rightarrow> ?Q (dk_fs d'))"
    if "k7 () d1 = (r, d')" and "all_since d ?P d1" and "still f (insert (Some bs) R) (Some bs) (dk_fs d1)" for d1
    using that since_step [OF that(2)] sync_dir_still [OF that(3)]
    by (auto simp: k7_def fs_op_def Let_def dir_def split: if_splits option.splits)
  have rename: ?goal if "k6 () d1 = (r, d')" and "all_since d ?P d1" and h: "still f R r0 (dk_fs d1)"
    and "fmlookup (fs_dir (dk_fs d1)) tmp = Some j" and "fs_files (dk_fs d1) j = \<lparr>fl_data = bs, fl_synced = True\<rparr>"
    for d1 j
    by (rule fs_op_bind [OF that(1) [unfolded k6_def] that(2)])
      (use last rename_still [OF h tmp that(4,5)] h in simp_all)
  have sync: ?goal if "k5 () d1 = (r, d')" and "all_since d ?P d1" and h: "still f R r0 (dk_fs d1)"
    and "fs_read (dk_fs d1) tmp = Some bs" for d1
    by (rule fs_op_bind [OF that(1) [unfolded k5_def] that(2)])
      (use rename sync_read [OF that(4)] sync_still [OF h tmp] h in auto)
  have flush: ?goal if "k4 () d1 = (r, d')" and "all_since d ?P d1" and h: "still f R r0 (dk_fs d1)"
    and "fs_read (dk_fs d1) tmp = Some bs" for d1
    by (rule fs_op_bind [OF that(1) [unfolded k4_def] that(2)]) (use sync that(4) h in simp_all)
  have fill: ?goal if "k3 () d1 = (r, d')" and "all_since d ?P d1" and h: "still f R r0 (dk_fs d1)"
    and "fs_read (dk_fs d1) tmp = Some []" for d1
    by (rule fs_op_bind [OF that(1) [unfolded k3_def] that(2)])
      (use flush append_read [OF that(4), of bs] append_still [OF h tmp] in simp_all)
  have create: ?goal if "k2 () d1 = (r, d')" and "all_since d ?P d1" and h: "still f R r0 (dk_fs d1)" for d1
    by (rule fs_op_bind [OF that(1) [unfolded k2_def] that(2)])
      (use fill create_read [of tmp "dk_fs d1"] create_still [OF h tmp] h in simp_all)
  have whole: "io_bind (if dir = [] then io_ok () else fs_op ft CreateDir (''create dir '' @ dir) id id) k2 d = (r, d')"
    using run by (simp only: atomic_write_def name option.case Let_def dir_def tmp_def k2_def k3_def k4_def k5_def k6_def k7_def)
  show ?thesis
  proof (cases "dir = []")
    case True
    with whole create [of d] old show ?thesis by simp
  next
    case False
    with whole have "io_bind (fs_op ft CreateDir (''create dir '' @ dir) id id) k2 d = (r, d')" by simp
    then show ?thesis by (rule fs_op_bind [OF _ since_refl]) (use create old in simp_all)
  qed
qed

end
