(* ===== verification/Serve_Loop.thy ===== *)
theory Serve_Loop
  imports Mail_Service Mailbox_Format Atomic_Write
begin

text \<open>
  The request loop of a mailbox node (src/src/main.rs, \<open>serve_mailbox\<close>): start from the saved store,
  poll messages, answer each request, save once per batch if something changed, back off when polling
  fails. Each poll's outcome, the time and the revocation set a request sees, and the faults of a
  save are inputs of the loop; the log is left out.
\<close>

section \<open>Messages\<close>

record 't AppMessage =
  am_topic :: string
  am_reply_token :: "'t option"
  am_from :: string
  am_payload :: "bytes result"

text \<open>The shared revocation set, \<open>None\<close> when its lock is poisoned: then everything counts as revoked.\<close>

type_synonym revocations = "(string \<times> u64) list option"

definition is_revoked :: "('i, 'c) crates \<Rightarrow> revocations \<Rightarrow> node_id \<Rightarrow> u64 \<Rightarrow> bool" where
  "is_revoked X revoked issuer nonce =
     (case revoked of
        Some entries \<Rightarrow> (hex_encode X issuer, nonce) \<in> set entries
      | None \<Rightarrow> True)"

text \<open>The refresher replaces the set after a successful query, unless the lock is poisoned.\<close>

definition refresh_revoked :: "(string \<times> u64) list result \<Rightarrow> revocations \<Rightarrow> revocations" where
  "refresh_revoked answer revoked =
     (case answer of
        Inr entries \<Rightarrow> map_option (\<lambda>_. entries) revoked
      | Inl _ \<Rightarrow> revoked)"

text \<open>
  The set a mailbox starts with, empty when the first query fails, and the set a number of seconds
  later: the refresher's interval skips its immediate tick, then queries at every multiple of its
  period. A query's answer is stored at its tick.
\<close>

definition initial_revoked :: "(string \<times> u64) list result \<Rightarrow> revocations" where
  "initial_revoked answer = Some (unwrap_or [] answer)"

definition revocations_at ::
  "nat \<Rightarrow> (nat \<Rightarrow> (string \<times> u64) list result) \<Rightarrow> revocations \<Rightarrow> nat \<Rightarrow> revocations" where
  "revocations_at every_secs answers initial elapsed =
     fold (\<lambda>k. refresh_revoked (answers k)) [1..<Suc (elapsed div every_secs)] initial"

record 't arrival =
  ar_message :: "'t AppMessage"
  ar_now :: u64
  ar_revoked :: revocations

fun request_mutates :: "'c MailRequest \<Rightarrow> bool" where
  "request_mutates (Deliver _ _) = True"
| "request_mutates (Ack _ _ _) = True"
| "request_mutates (PutReceipt _ _ _) = True"
| "request_mutates (CollectReceipts _ _) = True"
| "request_mutates _ = False"

fun is_error :: "MailReply \<Rightarrow> bool" where
  "is_error (Error _) = True"
| "is_error _ = False"

text \<open>The messages that are answered: on the topic, wanting a reply, from a node id, decodable.\<close>

definition accepted_request ::
  "('i, 'c) crates \<Rightarrow> 't AppMessage \<Rightarrow> ('t \<times> node_id \<times> 'c MailRequest) option" where
  "accepted_request X msg =
     (if am_topic msg \<noteq> MAIL_TOPIC then None
      else case am_reply_token msg of
          None \<Rightarrow> None
        | Some token \<Rightarrow>
          (case parse_node_id X (am_from msg) of
             Inl _ \<Rightarrow> None
           | Inr requester \<Rightarrow>
             (case am_payload msg of
                Inl _ \<Rightarrow> None
              | Inr payload \<Rightarrow>
                (case decode_request X payload of
                   Inl _ \<Rightarrow> None
                 | Inr req \<Rightarrow> Some (token, requester, req)))))"

section \<open>A batch\<close>

definition serve_message ::
  "('i, 'c) crates \<Rightarrow> 't arrival \<Rightarrow> MailService \<Rightarrow> bool \<Rightarrow> (('t \<times> bytes) list \<times> MailService \<times> bool) outcome" where
  "serve_message X a svc dirty =
     (case accepted_request X (ar_message a) of
        None \<Rightarrow> Returned ([], svc, dirty)
      | Some (token, requester, req) \<Rightarrow>
          map_outcome_to
            (\<lambda>(reply, svc').
               ([(token, encode_reply X reply)], svc', dirty \<or> request_mutates req \<and> \<not> is_error reply))
            (handle X requester req (ar_now a) (is_revoked X (ar_revoked a)) svc))"

fun serve_batch ::
  "('i, 'c) crates \<Rightarrow> 't arrival list \<Rightarrow> MailService \<Rightarrow> bool \<Rightarrow> (('t \<times> bytes) list \<times> MailService \<times> bool) outcome" where
  "serve_batch X [] svc dirty = Returned ([], svc, dirty)"
| "serve_batch X (a # as) svc dirty =
     and_then (serve_message X a svc dirty) (\<lambda>(replies, svc, dirty).
       map_outcome_to (\<lambda>(more_replies, svc, dirty). (replies @ more_replies, svc, dirty))
         (serve_batch X as svc dirty))"

definition persist_batch ::
  "('i, 'c) crates \<Rightarrow> StoredEnvelope table_order \<Rightarrow> Receipt table_order \<Rightarrow> faults \<Rightarrow> nat \<Rightarrow> string option \<Rightarrow>
   MailService \<Rightarrow> bool \<Rightarrow> disk \<Rightarrow> disk" where
  "persist_batch X oq ors ft pid store_path svc dirty d =
     (case store_path of
        Some p \<Rightarrow>
          (if dirty then
             (case try_to_bytes X oq ors (ms_store svc) of
                Inr bs \<Rightarrow> snd (atomic_write ft pid p bs d)
              | Inl _ \<Rightarrow> d)
           else d)
      | None \<Rightarrow> d)"

section \<open>The loop\<close>

definition MAX_BACKOFF_MS :: nat where
  "MAX_BACKOFF_MS = 30000"

text \<open>Doubling overflows \<open>u64\<close> for a first back-off above half its range, which panics where overflow
  is checked.\<close>

definition next_backoff :: "nat \<Rightarrow> nat outcome" where
  "next_backoff backoff_ms =
     (if usize_limit \<le> backoff_ms * 2 then Panicked else Returned (min (backoff_ms * 2) MAX_BACKOFF_MS))"

record 't poll =
  po_messages :: "'t arrival list option"
  po_faults :: faults

record 't server =
  sr_service :: MailService
  sr_backoff :: nat
  sr_disk :: disk
  sr_replies :: "('t \<times> bytes) list"
  sr_sleeps :: "nat list"

definition serve_step ::
  "('i, 'c) crates \<Rightarrow> StoredEnvelope table_order \<Rightarrow> Receipt table_order \<Rightarrow> nat \<Rightarrow> string option \<Rightarrow> nat \<Rightarrow>
   't poll \<Rightarrow> 't server \<Rightarrow> 't server outcome" where
  "serve_step X oq ors pid store_path poll_ms p s =
     (case po_messages p of
        None \<Rightarrow>
          map_outcome_to
            (\<lambda>b. s\<lparr>sr_backoff := b, sr_sleeps := sr_sleeps s @ [sr_backoff s]\<rparr>)
            (next_backoff (sr_backoff s))
      | Some messages \<Rightarrow>
          map_outcome_to
            (\<lambda>(replies, svc, dirty).
               \<lparr>sr_service = svc, sr_backoff = poll_ms,
                sr_disk = persist_batch X oq ors (po_faults p) pid store_path svc dirty (sr_disk s),
                sr_replies = sr_replies s @ replies, sr_sleeps = sr_sleeps s @ [poll_ms]\<rparr>)
            (serve_batch X messages (sr_service s) False))"

text \<open>Any number of rounds of the loop, and the server states after each.\<close>

fun serve_rounds ::
  "('i, 'c) crates \<Rightarrow> StoredEnvelope table_order \<Rightarrow> Receipt table_order \<Rightarrow> nat \<Rightarrow> string option \<Rightarrow> nat \<Rightarrow>
   't poll list \<Rightarrow> 't server \<Rightarrow> 't server list outcome" where
  "serve_rounds X oq ors pid store_path poll_ms [] s = Returned [s]"
| "serve_rounds X oq ors pid store_path poll_ms (p # ps) s =
     and_then (serve_step X oq ors pid store_path poll_ms p s) (\<lambda>s'.
       map_outcome_to ((#) s) (serve_rounds X oq ors pid store_path poll_ms ps s'))"

section \<open>Starting\<close>

text \<open>\<open>read_error\<close> is what reading the store's file fails with, if it fails.\<close>

definition start_service ::
  "('i, 'c) crates \<Rightarrow> 'i \<Rightarrow> nat \<Rightarrow> string option \<Rightarrow> string option \<Rightarrow> disk \<Rightarrow> MailService result" where
  "start_service X identity capacity store_path read_error d =
     try_bind
       (case store_path of
          Some p \<Rightarrow>
            (case fs_read (dk_fs d) (case path_file_name p of Some f \<Rightarrow> f | None \<Rightarrow> p) of
               Some bs \<Rightarrow>
                 (case read_error of
                    None \<Rightarrow> map_err (\<lambda>_. ''load mailbox store'') (from_bytes X bs)
                  | Some _ \<Rightarrow> Inl (''read '' @ p))
             | None \<Rightarrow> Inr (new_store (node_id_of X identity) capacity))
        | None \<Rightarrow> Inr (new_store (node_id_of X identity) capacity))
       (\<lambda>store. Inr (new_service store))"

definition start_server :: "nat \<Rightarrow> MailService \<Rightarrow> disk \<Rightarrow> 't server" where
  "start_server poll_ms svc d =
     \<lparr>sr_service = svc, sr_backoff = poll_ms, sr_disk = d, sr_replies = [], sr_sleeps = []\<rparr>"

end
