(* ===== verification/Serve_Properties.thy ===== *)
theory Serve_Properties
  imports Serve_Loop Service_Properties
begin

text \<open>
  The properties of persistence and of the serve loop: a save is all or nothing at every moment, a
  crash of the running mailbox brings back a whole batch, the file follows the store, a failed save
  is not repeated, a batch is answered by the handlers in order, back-off doubles up to its cap.
\<close>

section \<open>Saving\<close>

text \<open>C9: at every moment of \<open>atomic_write\<close>, whichever of its operations fail, the file reads as before or
  as the whole new contents, and a crash leaves one of the contents it could leave before or the
  whole new contents, never a torn file; on success the new contents are in place, and nothing else
  can come back once the directory was synced; on an error nothing changed.\<close>

theorem write_is_all_or_nothing:
  assumes "path_file_name path = Some f" and "holds f R (dk_fs d)"
    and "atomic_write ft pid path bs d = (r, d')"
  shows "(\<exists>ms. dk_moments d' = ms @ dk_moments d \<and>
      (\<forall>fs \<in> set ms. fs_read fs f \<in> {fs_read (dk_fs d) f, Some bs} \<and>
        (\<forall>x. crash_reads fs f x \<longrightarrow> x \<in> insert (Some bs) R))) \<and>
    (case r of
       Inr _ \<Rightarrow> fs_read (dk_fs d') f = Some bs \<and>
         (path_parent path \<noteq> Some [] \<and> \<not> ft_fails ft OpenDir \<and> \<not> ft_fails ft SyncDir \<longrightarrow>
           (\<forall>x. crash_reads (dk_fs d') f x \<longrightarrow> x = Some bs))
     | Inl _ \<Rightarrow> fs_read (dk_fs d') f = fs_read (dk_fs d) f \<and>
         (\<forall>x. crash_reads (dk_fs d') f x \<longrightarrow> x \<in> R))"
proof -
  have "still f R (fs_read (dk_fs d) f) (dk_fs d)" using assms(2) by (simp add: still_def)
  note res = atomic_write_result [OF assms(1) this assms(3)]
  then obtain ms where "dk_moments d' = ms @ dk_moments d"
    and ms: "\<forall>fs \<in> set ms. still f R (fs_read (dk_fs d) f) fs \<or> still f (insert (Some bs) R) (Some bs) fs"
    by (auto simp: all_since_def)
  moreover have "fs_read fs f \<in> {fs_read (dk_fs d) f, Some bs} \<and>
      (\<forall>x. crash_reads fs f x \<longrightarrow> x \<in> insert (Some bs) R)" if "fs \<in> set ms" for fs
    using ms that holds_reads(2) unfolding still_def by blast
  moreover have "case r of
       Inr _ \<Rightarrow> fs_read (dk_fs d') f = Some bs \<and>
         (path_parent path \<noteq> Some [] \<and> \<not> ft_fails ft OpenDir \<and> \<not> ft_fails ft SyncDir \<longrightarrow>
           (\<forall>x. crash_reads (dk_fs d') f x \<longrightarrow> x = Some bs))
     | Inl _ \<Rightarrow> fs_read (dk_fs d') f = fs_read (dk_fs d) f \<and> (\<forall>x. crash_reads (dk_fs d') f x \<longrightarrow> x \<in> R)"
    using res settled [of f "insert (Some bs) R" "Some bs" "dk_fs d'"] holds_reads(2)
    by (cases r) (auto simp: still_def)
  ultimately show ?thesis by blast
qed

text \<open>A directory with one saved file, a failing rename, and no faults at all.\<close>

definition sample_disk :: "bytes \<Rightarrow> disk" where
  "sample_disk bs =
     \<lparr>dk_fs = \<lparr>fs_dir = fmupd ''mail'' 0 fmempty, fs_unsynced = [],
        fs_files = (\<lambda>_. \<lparr>fl_data = bs, fl_synced = True\<rparr>), fs_next = 1\<rparr>, dk_moments = []\<rparr>"

definition no_faults :: faults where
  "no_faults = \<lparr>ft_fails = (\<lambda>_. False), ft_written = 0\<rparr>"

definition rename_fails :: faults where
  "rename_fails = \<lparr>ft_fails = (\<lambda>op. op = RenameTemp), ft_written = 0\<rparr>"

lemma sample_disk_holds: "holds ''mail'' {Some bs} (dk_fs (sample_disk bs))"
  by (simp add: holds_def fs_ok_def entry_ok_def sample_disk_def)

lemma mail_path: "path_file_name ''data/mail'' = Some ''mail''" "path_parent ''data/mail'' = Some ''data''"
  by code_simp+

lemma write_is_all_or_nothing_witness:
  "fs_read (dk_fs (snd (atomic_write rename_fails 7 ''data/mail'' [2] (sample_disk [1])))) ''mail'' = Some [1] \<and>
   Collect (crash_reads (dk_fs (snd (atomic_write rename_fails 7 ''data/mail'' [2] (sample_disk [1])))) ''mail'') \<subseteq>
     {Some [1]}"
proof -
  obtain r d' where w: "atomic_write rename_fails 7 ''data/mail'' [2] (sample_disk [1]) = (r, d')"
    by (rule prod.exhaust)
  have "fst (atomic_write rename_fails 7 ''data/mail'' [2] (sample_disk [1])) \<noteq> Inr ()"
    by (simp add: atomic_write_def fs_op_def rename_fails_def io_bind_def mail_path Let_def)
  then obtain e where "r = Inl e" using w by (cases r) auto
  with write_is_all_or_nothing [OF mail_path(1) sample_disk_holds w] w
  show ?thesis by (auto simp: fs_read_def sample_disk_def)
qed

section \<open>Batches\<close>

lemma serve_message_dirty:
  assumes "serve_message X a svc dirty = Returned (replies, svc', dirty')"
  shows "(dirty \<longrightarrow> dirty') \<and> (\<not> dirty' \<longrightarrow> svc' = svc)"
proof (cases "accepted_request X (ar_message a)")
  case None
  with assms show ?thesis by (simp add: serve_message_def)
next
  case (Some t)
  then obtain token requester req where t: "accepted_request X (ar_message a) = Some (token, requester, req)"
    by (cases t) auto
  with assms obtain reply where
    h: "handle X requester req (ar_now a) (is_revoked X (ar_revoked a)) svc = Returned (reply, svc')"
    and d: "dirty' = (dirty \<or> request_mutates req \<and> \<not> is_error reply)"
    by (auto simp: serve_message_def)
  have "svc' = svc" if "\<not> dirty'"
  proof (cases "is_error reply")
    case True
    then obtain m where "reply = Error m" by (cases reply) auto
    with h handle_error_unchanged show ?thesis by blast
  next
    case False
    with that d have "\<not> request_mutates req" by simp
    with h handle_drain_unchanged [of X requester] handle_drain_page_unchanged [of X requester]
    show ?thesis by (cases req) (simp_all, metis snd_conv)
  qed
  with d show ?thesis by blast
qed

lemma serve_batch_dirty:
  "serve_batch X as svc dirty = Returned (replies, svc', dirty') \<Longrightarrow>
    (dirty \<longrightarrow> dirty') \<and> (\<not> dirty' \<longrightarrow> svc' = svc)"
proof (induction as arbitrary: svc dirty replies)
  case (Cons a as)
  from Cons.prems obtain rs svc1 dirty1 rs2 where
    "serve_message X a svc dirty = Returned (rs, svc1, dirty1)"
    "serve_batch X as svc1 dirty1 = Returned (rs2, svc', dirty')" by auto
  with serve_message_dirty Cons.IH show ?case by blast
qed simp

lemma serve_message_run:
  assumes "serve_message X a svc dirty = Returned (replies, svc', dirty')" and "service_run X svc0 svc"
  shows "service_run X svc0 svc'"
proof (cases "accepted_request X (ar_message a)")
  case None
  with assms show ?thesis by (simp add: serve_message_def)
next
  case (Some t)
  with assms(1) obtain token requester req reply where
    "handle X requester req (ar_now a) (is_revoked X (ar_revoked a)) svc = Returned (reply, svc')"
    by (cases t) (auto simp: serve_message_def)
  with assms(2) show ?thesis by (rule service_run.request)
qed

lemma serve_batch_run:
  "serve_batch X as svc dirty = Returned (replies, svc', dirty') \<Longrightarrow> service_run X svc0 svc \<Longrightarrow>
    service_run X svc0 svc'"
proof (induction as arbitrary: svc dirty replies)
  case (Cons a as)
  from Cons.prems(1) obtain rs svc1 dirty1 rs2 where
    "serve_message X a svc dirty = Returned (rs, svc1, dirty1)"
    "serve_batch X as svc1 dirty1 = Returned (rs2, svc', dirty')" by auto
  with serve_message_run Cons show ?case by blast
qed simp

text \<open>
  The specification of a batch: a message that asks, the exchange it starts (the message, its token,
  requester and request, the service before and after the handler, and the handler's answer), and
  what makes a list of exchanges the one of a batch.
\<close>

definition asks :: "('i, 'c) crates \<Rightarrow> 't AppMessage \<Rightarrow> 't \<Rightarrow> node_id \<Rightarrow> 'c MailRequest \<Rightarrow> bool" where
  "asks X msg token requester req \<longleftrightarrow>
     am_topic msg = MAIL_TOPIC \<and> am_reply_token msg = Some token \<and> parse_node_id X (am_from msg) = Inr requester \<and>
     (\<exists>payload. am_payload msg = Inr payload \<and> decode_request X payload = Inr req)"

lemma accepted_iff_asks:
  "accepted_request X msg = Some (token, requester, req) \<longleftrightarrow> asks X msg token requester req"
  by (auto simp: accepted_request_def asks_def split: option.splits sum.splits)

record ('t, 'c) exchange =
  ex_arrival :: "'t arrival"
  ex_token :: 't
  ex_requester :: node_id
  ex_request :: "'c MailRequest"
  ex_before :: MailService
  ex_answer :: MailReply
  ex_after :: MailService

definition exchange_ok :: "('i, 'c) crates \<Rightarrow> ('t, 'c) exchange \<Rightarrow> bool" where
  "exchange_ok X e \<longleftrightarrow>
     asks X (ar_message (ex_arrival e)) (ex_token e) (ex_requester e) (ex_request e) \<and>
     handle X (ex_requester e) (ex_request e) (ar_now (ex_arrival e)) (is_revoked X (ar_revoked (ex_arrival e)))
       (ex_before e) = Returned (ex_answer e, ex_after e)"

definition mutated :: "('t, 'c) exchange \<Rightarrow> bool" where
  "mutated e \<longleftrightarrow> request_mutates (ex_request e) \<and> \<not> is_error (ex_answer e)"

lemma serve_message_exchange:
  assumes "serve_message X a svc dirty = Returned (replies, svc', dirty')"
  shows "(\<nexists>token requester req. asks X (ar_message a) token requester req) \<and> replies = [] \<and> svc' = svc \<and> dirty' = dirty \<or>
    (\<exists>e. exchange_ok X e \<and> ex_arrival e = a \<and> ex_before e = svc \<and> ex_after e = svc' \<and>
      replies = [(ex_token e, encode_reply X (ex_answer e))] \<and> dirty' = (dirty \<or> mutated e))"
proof (cases "accepted_request X (ar_message a)")
  case None
  with assms show ?thesis by (simp add: serve_message_def flip: accepted_iff_asks)
next
  case (Some q)
  then obtain token requester req where q: "accepted_request X (ar_message a) = Some (token, requester, req)"
    by (cases q) auto
  with assms obtain answer where
    h: "handle X requester req (ar_now a) (is_revoked X (ar_revoked a)) svc = Returned (answer, svc')"
    and r: "replies = [(token, encode_reply X answer)]" "dirty' = (dirty \<or> request_mutates req \<and> \<not> is_error answer)"
    by (auto simp: serve_message_def)
  let ?e = "\<lparr>ex_arrival = a, ex_token = token, ex_requester = requester, ex_request = req, ex_before = svc,
    ex_answer = answer, ex_after = svc'\<rparr>"
  have "exchange_ok X ?e" using h q by (simp add: exchange_ok_def accepted_iff_asks)
  with r show ?thesis by (intro disjI2 exI [of _ ?e]) (simp add: mutated_def)
qed

lemma serve_batch_exchanges:
  "serve_batch X as svc dirty = Returned (replies, svc', dirty') \<Longrightarrow>
    \<exists>es. map ex_arrival es = filter (\<lambda>a. \<exists>token requester req. asks X (ar_message a) token requester req) as \<and>
      list_all (exchange_ok X) es \<and> map ex_before es @ [svc'] = svc # map ex_after es \<and>
      replies = map (\<lambda>e. (ex_token e, encode_reply X (ex_answer e))) es \<and>
      dirty' = (dirty \<or> list_ex mutated es)"
proof (induction as arbitrary: svc dirty replies)
  case (Cons a as)
  from Cons.prems obtain rs svc1 dirty1 rs2 where
    m: "serve_message X a svc dirty = Returned (rs, svc1, dirty1)" and
    b: "serve_batch X as svc1 dirty1 = Returned (rs2, svc', dirty')" and r: "replies = rs @ rs2" by auto
  from Cons.IH [OF b] obtain es where es:
    "map ex_arrival es = filter (\<lambda>a. \<exists>token requester req. asks X (ar_message a) token requester req) as"
    "list_all (exchange_ok X) es" "map ex_before es @ [svc'] = svc1 # map ex_after es"
    "rs2 = map (\<lambda>e. (ex_token e, encode_reply X (ex_answer e))) es" "dirty' = (dirty1 \<or> list_ex mutated es)"
    by blast
  from serve_message_exchange [OF m] show ?case
  proof (elim disjE exE conjE)
    fix e
    assume "exchange_ok X e" "ex_arrival e = a" "ex_before e = svc" "ex_after e = svc1"
      "rs = [(ex_token e, encode_reply X (ex_answer e))]" "dirty1 = (dirty \<or> mutated e)"
    moreover from this have "asks X (ar_message a) (ex_token e) (ex_requester e) (ex_request e)"
      by (simp add: exchange_ok_def)
    ultimately show ?case using es r by (intro exI [of _ "e # es"]) auto
  qed (use es r in auto)
qed simp

text \<open>C21: the messages of a batch that ask for a reply on the topic, from a node id, with a decodable request, and no
  others, are answered, once each and in order: every answer and every new state of the service is what the
  handler returns for that request at its time and revocations, in the state the request before it
  left, the first in the batch's; the replies are the encoded answers under their messages' tokens;
  the dirty flag is set when and only when a request that mutates was answered without an error, and a batch that leaves
  it clear left the service exactly as it was, so skipping the save loses nothing.\<close>

theorem batch_answers_in_order:
  assumes "serve_batch X as svc False = Returned (replies, svc', dirty)"
  shows "(\<exists>es. map ex_arrival es = filter (\<lambda>a. \<exists>token requester req. asks X (ar_message a) token requester req) as \<and>
      list_all (exchange_ok X) es \<and> map ex_before es @ [svc'] = svc # map ex_after es \<and>
      replies = map (\<lambda>e. (ex_token e, encode_reply X (ex_answer e))) es \<and>
      dirty = list_ex mutated es) \<and>
    service_run X svc svc' \<and> (\<not> dirty \<longrightarrow> svc' = svc)"
  using serve_batch_exchanges [OF assms] serve_batch_dirty [OF assms] serve_batch_run [OF assms service_run.idle] by simp

section \<open>Rounds\<close>

lemma since_trans: "all_since a P b \<Longrightarrow> all_since b P c \<Longrightarrow> all_since a P c"
  unfolding all_since_def by (metis Un_iff append.assoc set_append)

lemma since_mono: "all_since a P b \<Longrightarrow> (\<And>fs. P fs \<Longrightarrow> Q fs) \<Longrightarrow> all_since a Q b"
  unfolding all_since_def by blast

text \<open>One round: a failed poll touches neither the store nor the disk; a batch is served, then saved.\<close>

lemma serve_step_failed:
  "po_messages q = None \<Longrightarrow> serve_step X oq ors pid path poll q s = Returned s' \<Longrightarrow>
    sr_service s' = sr_service s \<and> sr_disk s' = sr_disk s"
  by (auto simp: serve_step_def)

lemma serve_step_batch:
  assumes "po_messages q = Some ms" and "serve_step X oq ors pid path poll q s = Returned s'"
  shows "\<exists>replies dirty. serve_batch X ms (sr_service s) False = Returned (replies, sr_service s', dirty) \<and>
    sr_disk s' = persist_batch X oq ors (po_faults q) pid path (sr_service s') dirty (sr_disk s)"
proof -
  from assms obtain replies svc dirty where "serve_batch X ms (sr_service s) False = Returned (replies, svc, dirty)"
    "sr_service s' = svc" "sr_disk s' = persist_batch X oq ors (po_faults q) pid path svc dirty (sr_disk s)"
    by (auto simp: serve_step_def)
  then show ?thesis by blast
qed

lemma persist_batch_cases:
  "persist_batch X oq ors ft pid (Some p) svc dirty d = d \<or>
    (\<exists>bs. dirty \<and> try_to_bytes X oq ors (ms_store svc) = Inr bs \<and>
      persist_batch X oq ors ft pid (Some p) svc dirty d = snd (atomic_write ft pid p bs d))"
  by (simp add: persist_batch_def split: sum.splits)

lemma serve_step_disk:
  assumes "serve_step X oq ors pid (Some p) poll q s = Returned s'"
  shows "sr_disk s' = sr_disk s \<or>
    (\<exists>bs. try_to_bytes X oq ors (ms_store (sr_service s')) = Inr bs \<and>
      sr_disk s' = snd (atomic_write (po_faults q) pid p bs (sr_disk s)))"
proof (cases "po_messages q")
  case None
  with assms serve_step_failed show ?thesis by blast
next
  case (Some ms)
  from serve_step_batch [OF Some assms] obtain dirty where
    "sr_disk s' = persist_batch X oq ors (po_faults q) pid (Some p) (sr_service s') dirty (sr_disk s)" by blast
  with persist_batch_cases [of X oq ors "po_faults q" pid p "sr_service s'" dirty "sr_disk s"] show ?thesis by auto
qed

lemma serve_step_run:
  assumes "serve_step X oq ors pid path poll q s = Returned s'" and "service_run X svc0 (sr_service s)"
  shows "service_run X svc0 (sr_service s')"
proof (cases "po_messages q")
  case None
  with serve_step_failed [OF None assms(1)] assms(2) show ?thesis by simp
next
  case (Some ms)
  from serve_step_batch [OF Some assms(1)] assms(2) show ?thesis by (blast intro: serve_batch_run)
qed

text \<open>What a list of server states may have saved.\<close>

definition saves :: "('i, 'c) crates \<Rightarrow> StoredEnvelope table_order \<Rightarrow> Receipt table_order \<Rightarrow> 't server list \<Rightarrow> bytes option set" where
  "saves X oq ors ss = {Some bs |bs s. s \<in> set ss \<and> try_to_bytes X oq ors (ms_store (sr_service s)) = Inr bs}"

lemma serve_step_holds:
  assumes "serve_step X oq ors pid (Some p) poll q s = Returned s'" and "path_file_name p = Some f"
    and "holds f R (dk_fs (sr_disk s))"
  shows "all_since (sr_disk s) (holds f (R \<union> saves X oq ors [s'])) (sr_disk s') \<and>
    holds f (R \<union> saves X oq ors [s']) (dk_fs (sr_disk s'))"
proof -
  from serve_step_disk [OF assms(1)] show ?thesis
  proof (elim disjE exE conjE)
    assume "sr_disk s' = sr_disk s"
    with assms(3) holds_mono [OF assms(3)] show ?thesis by simp
  next
    fix bs
    assume bs: "try_to_bytes X oq ors (ms_store (sr_service s')) = Inr bs"
      and d: "sr_disk s' = snd (atomic_write (po_faults q) pid p bs (sr_disk s))"
    obtain r where w: "atomic_write (po_faults q) pid p bs (sr_disk s) = (r, sr_disk s')"
      using d by (metis prod.collapse)
    have sub: "insert (Some bs) R \<subseteq> R \<union> saves X oq ors [s']" "R \<subseteq> R \<union> saves X oq ors [s']"
      using bs by (auto simp: saves_def)
    have "still f R (fs_read (dk_fs (sr_disk s)) f) (dk_fs (sr_disk s))" using assms(3) by (simp add: still_def)
    note res = atomic_write_result [OF assms(2) this w]
    then have "all_since (sr_disk s) (holds f (R \<union> saves X oq ors [s'])) (sr_disk s')"
      by (elim conjE) (rule since_mono, assumption, auto simp: still_def intro: holds_mono [OF _ sub(1)] holds_mono [OF _ sub(2)])
    moreover have "holds f (R \<union> saves X oq ors [s']) (dk_fs (sr_disk s'))"
      using res holds_mono [OF _ sub(1)] holds_mono [OF _ sub(2)] by (cases r) (auto simp: still_def)
    ultimately show ?thesis by blast
  qed
qed

lemma serve_rounds_holds:
  assumes "path_file_name p = Some f"
  shows "serve_rounds X oq ors pid (Some p) poll qs s = Returned ss \<Longrightarrow> holds f R (dk_fs (sr_disk s)) \<Longrightarrow>
    all_since (sr_disk s) (holds f (R \<union> saves X oq ors ss)) (sr_disk (last ss)) \<and>
    holds f (R \<union> saves X oq ors ss) (dk_fs (sr_disk (last ss)))"
proof (induction qs arbitrary: s ss R)
  case Nil
  then have "ss = [s]" by simp
  moreover have "holds f (R \<union> saves X oq ors ss) (dk_fs (sr_disk s))"
    by (rule holds_mono [OF Nil.prems(2)]) simp
  ultimately show ?case by simp
next
  case (Cons q qs)
  from Cons.prems(1) obtain s1 ss1 where step: "serve_step X oq ors pid (Some p) poll q s = Returned s1"
    and rest: "serve_rounds X oq ors pid (Some p) poll qs s1 = Returned ss1" and ss: "ss = s # ss1"
    by auto
  have hd: "s1 \<in> set ss1" "ss1 \<noteq> []" using rest by (cases qs; auto)+
  have sub: "R \<union> saves X oq ors [s1] \<union> saves X oq ors ss1 \<subseteq> R \<union> saves X oq ors ss"
    using hd(1) by (auto simp: saves_def ss)
  note one = serve_step_holds [OF step assms Cons.prems(2)]
  note IH = Cons.IH [OF rest, of "R \<union> saves X oq ors [s1]"]
  have "all_since (sr_disk s) (holds f (R \<union> saves X oq ors ss)) (sr_disk s1)"
    by (rule since_mono [OF conjunct1 [OF one]]) (erule holds_mono, use sub in blast)
  moreover note later = IH [OF conjunct2 [OF one]]
  have "all_since (sr_disk s1) (holds f (R \<union> saves X oq ors ss)) (sr_disk (last ss1))"
    by (rule since_mono [OF conjunct1 [OF later]]) (erule holds_mono, rule sub)
  ultimately have "all_since (sr_disk s) (holds f (R \<union> saves X oq ors ss)) (sr_disk (last ss1))"
    by (rule since_trans)
  moreover have "holds f (R \<union> saves X oq ors ss) (dk_fs (sr_disk (last ss1)))"
    by (rule holds_mono [OF conjunct2 [OF later] sub])
  ultimately show ?case using hd(2) by (simp add: ss)
qed

lemma serve_rounds_run:
  "serve_rounds X oq ors pid path poll qs s = Returned ss \<Longrightarrow> service_run X svc0 (sr_service s) \<Longrightarrow>
    (\<forall>s' \<in> set ss. service_run X svc0 (sr_service s'))"
proof (induction qs arbitrary: s ss)
  case (Cons q qs)
  then obtain s1 ss1 where "serve_step X oq ors pid path poll q s = Returned s1"
    "serve_rounds X oq ors pid path poll qs s1 = Returned ss1" "ss = s # ss1" by auto
  moreover from this(1) Cons.prems(2) have "service_run X svc0 (sr_service s1)" by (rule serve_step_run)
  ultimately show ?case using Cons.IH [of s1 ss1] Cons.prems(2) by simp
qed simp

text \<open>C6: a crash never tears a running mailbox's store: whatever fails at any moment of any number of
  rounds of the loop, a crash brings back the file that was there at the start or the bytes of the
  store as it was after some whole round, which load to that store's queues and receipts.\<close>

theorem crash_recovers_a_round:
  assumes "serve_rounds X oq ors pid (Some p) poll qs s = Returned ss" and "path_file_name p = Some f"
    and "holds f {start} (dk_fs (sr_disk s))"
  shows "\<exists>ms. dk_moments (sr_disk (last ss)) = ms @ dk_moments (sr_disk s) \<and>
    (\<forall>fs \<in> set ms. \<forall>x. crash_reads fs f x \<longrightarrow> x = start \<or>
      (\<exists>s' \<in> set ss. service_run X (sr_service s) (sr_service s') \<and>
        (\<exists>bs. x = Some bs \<and> try_to_bytes X oq ors (ms_store (sr_service s')) = Inr bs \<and>
          (bincode_ok X \<and> storable oq ors (ms_store (sr_service s')) \<longrightarrow>
            (\<exists>st. from_bytes X bs = Inr st \<and> mb_queues st = mb_queues (ms_store (sr_service s')) \<and>
              mb_receipts st = mb_receipts (ms_store (sr_service s')))))))"
proof -
  from serve_rounds_holds [OF assms(2,1,3)] obtain ms
    where ms: "dk_moments (sr_disk (last ss)) = ms @ dk_moments (sr_disk s)"
      "\<forall>fs \<in> set ms. holds f ({start} \<union> saves X oq ors ss) fs"
    unfolding all_since_def by blast
  have loads: "\<exists>st. from_bytes X bs = Inr st \<and> mb_queues st = mb_queues m \<and> mb_receipts st = mb_receipts m"
    if "bincode_ok X" "storable oq ors m" "try_to_bytes X oq ors m = Inr bs" for m bs
    using load_saved [OF that(1,2)] that(3) by (simp add: to_bytes_def rebuild_def)
  have "x = start \<or> (\<exists>s' \<in> set ss. service_run X (sr_service s) (sr_service s') \<and>
        (\<exists>bs. x = Some bs \<and> try_to_bytes X oq ors (ms_store (sr_service s')) = Inr bs \<and>
          (bincode_ok X \<and> storable oq ors (ms_store (sr_service s')) \<longrightarrow>
            (\<exists>st. from_bytes X bs = Inr st \<and> mb_queues st = mb_queues (ms_store (sr_service s')) \<and>
              mb_receipts st = mb_receipts (ms_store (sr_service s'))))))"
    if "fs \<in> set ms" and "crash_reads fs f x" for fs x
  proof -
    have "x \<in> {start} \<union> saves X oq ors ss" using ms(2) that holds_reads(2) by blast
    then consider "x = start" | bs s' where "x = Some bs" "s' \<in> set ss"
      "try_to_bytes X oq ors (ms_store (sr_service s')) = Inr bs" by (auto simp: saves_def)
    then show ?thesis
    proof cases
      case (2 bs s')
      with serve_rounds_run [OF assms(1) service_run.idle] loads show ?thesis by blast
    qed simp
  qed
  with ms(1) show ?thesis by blast
qed

text \<open>A round in which Alice's mail for Bob arrives.\<close>

definition mail_arrival :: "nat arrival" where
  "mail_arrival =
     \<lparr>ar_message = \<lparr>am_topic = MAIL_TOPIC, am_reply_token = Some 1, am_from = node_id_hex sample alice,
        am_payload = Inr (encode_request sample (Deliver (sample_mail 5) bob_grant))\<rparr>,
      ar_now = 10, ar_revoked = Some []\<rparr>"

lemma mail_arrival_accepted:
  "accepted_request sample (ar_message mail_arrival) =
     Some (1, node_id_of sample alice, Deliver (sample_mail 5) bob_grant)"
  using sample_mail_ok [of 5] encode_decode_request [OF sample_bincode_ok sample_caps_ok, of "Deliver (sample_mail 5) bob_grant"]
    parse_node_id_hex [OF sample_hex_ok sample_identity_ok, of alice]
  by (simp add: accepted_request_def mail_arrival_def ok_grant_def bob_grant_def usize_limit_def)

lemma not_revoked: "is_revoked X (Some []) = none_revoked"
  by (intro ext) (simp add: is_revoked_def)

lemma mail_batch:
  "serve_batch sample [mail_arrival] sample_service False =
     Returned ([(1, encode_reply sample (Delivered False))], sample_service\<lparr>ms_store := one_mail\<rparr>, True)"
  using sample_delivery mail_arrival_accepted
  by (simp add: serve_message_def not_revoked [of sample, simplified] mail_arrival_def not_revoked del: handle.simps)

lemma batch_answers_in_order_witness:
  "\<exists>e. exchange_ok sample e \<and> ex_arrival e = mail_arrival \<and> ex_token e = 1 \<and> ex_before e = sample_service \<and>
     ex_after e = sample_service\<lparr>ms_store := one_mail\<rparr> \<and>
     encode_reply sample (ex_answer e) = encode_reply sample (Delivered False)"
proof -
  from batch_answers_in_order [OF mail_batch] obtain es where es:
    "map ex_arrival es = filter (\<lambda>a. \<exists>token requester req. asks sample (ar_message a) token requester req) [mail_arrival]"
    "list_all (exchange_ok sample) es"
    "map ex_before es @ [sample_service\<lparr>ms_store := one_mail\<rparr>] = sample_service # map ex_after es"
    "[(1, encode_reply sample (Delivered False))] = map (\<lambda>e. (ex_token e, encode_reply sample (ex_answer e))) es"
    by (elim conjE exE) (rule that)
  from es(4) obtain e where e: "es = [e]" and
    r: "ex_token e = 1" "encode_reply sample (ex_answer e) = encode_reply sample (Delivered False)"
    using es(4) [symmetric]
    by (simp only: map_eq_Cons_conv map_is_Nil_conv prod.inject) (elim exE conjE, rule that, simp_all only:)
  from es(1) have "ex_arrival e = mail_arrival" unfolding e
    by (simp only: list.map filter.simps list.inject list.distinct split: if_splits)
  moreover have "exchange_ok sample e" using es(2) unfolding e by (simp only: list.pred_inject)
  moreover have "ex_before e = sample_service" "ex_after e = sample_service\<lparr>ms_store := one_mail\<rparr>"
    using es(3) unfolding e by (simp_all only: list.map append.simps list.inject)
  ultimately show ?thesis using r by blast
qed

definition mail_poll :: "faults \<Rightarrow> nat poll" where
  "mail_poll ft = \<lparr>po_messages = Some [mail_arrival], po_faults = ft\<rparr>"

definition sample_server :: "bytes \<Rightarrow> nat server" where
  "sample_server bs = start_server 500 sample_service (sample_disk bs)"

lemma mail_round:
  "\<exists>s1. serve_rounds sample by_key by_key 7 (Some ''data/mail'') 500 [mail_poll ft] (sample_server bs) =
      Returned [sample_server bs, s1] \<and> ms_store (sr_service s1) = one_mail \<and>
    sr_disk s1 = persist_batch sample by_key by_key ft 7 (Some ''data/mail'')
      (sample_service\<lparr>ms_store := one_mail\<rparr>) True (sample_disk bs)"
  using mail_batch
  by (simp add: serve_step_def mail_poll_def sample_server_def start_server_def del: serve_batch.simps)

lemma crash_recovers_a_round_witness:
  "\<exists>ss. serve_rounds sample by_key by_key 7 (Some ''data/mail'') 500 [mail_poll rename_fails] (sample_server [1]) = Returned ss \<and>
    (\<exists>ms. dk_moments (sr_disk (last ss)) = ms @ dk_moments (sample_disk [1]))"
proof -
  obtain s1 where r: "serve_rounds sample by_key by_key 7 (Some ''data/mail'') 500 [mail_poll rename_fails] (sample_server [1]) =
      Returned [sample_server [1], s1]" using mail_round by blast
  have "holds ''mail'' {Some [1]} (dk_fs (sr_disk (sample_server [1])))"
    using sample_disk_holds by (simp add: sample_server_def start_server_def)
  from crash_recovers_a_round [OF r mail_path(1) this] r show ?thesis
    by (auto simp: sample_server_def start_server_def)
qed

section \<open>The file and the store\<close>

text \<open>The file is current: it reads, now and after a crash, as the bytes of the store.\<close>

definition in_sync ::
  "('i, 'c) crates \<Rightarrow> StoredEnvelope table_order \<Rightarrow> Receipt table_order \<Rightarrow> string \<Rightarrow> 't server \<Rightarrow> bool" where
  "in_sync X oq ors f s \<longleftrightarrow>
     (\<exists>bs. try_to_bytes X oq ors (ms_store (sr_service s)) = Inr bs \<and> holds f {Some bs} (dk_fs (sr_disk s)))"

lemma in_sync_step:
  assumes "path_file_name p = Some f" and "path_parent p \<noteq> Some []"
    and "\<forall>op. \<not> ft_fails (po_faults q) op" and "in_sync X oq ors f s"
    and "serve_step X oq ors pid (Some p) poll q s = Returned s'"
    and "is_ok (try_to_bytes X oq ors (ms_store (sr_service s')))"
  shows "in_sync X oq ors f s'"
proof (cases "po_messages q")
  case None
  with serve_step_failed [OF None assms(5)] assms(4) show ?thesis by (simp add: in_sync_def)
next
  case (Some ms)
  from serve_step_batch [OF Some assms(5)] obtain replies dirty
    where b: "serve_batch X ms (sr_service s) False = Returned (replies, sr_service s', dirty)"
      and d: "sr_disk s' = persist_batch X oq ors (po_faults q) pid (Some p) (sr_service s') dirty (sr_disk s)"
    by blast
  show ?thesis
  proof (cases dirty)
    case False
    with b d serve_batch_dirty [OF b] assms(4) show ?thesis by (simp add: in_sync_def persist_batch_def)
  next
    case True
    from assms(6) obtain bs where bs: "try_to_bytes X oq ors (ms_store (sr_service s')) = Inr bs"
      by (auto simp: is_ok_iff)
    from assms(4) obtain old where old: "holds f {Some old} (dk_fs (sr_disk s))" by (auto simp: in_sync_def)
    obtain r where w: "atomic_write (po_faults q) pid p bs (sr_disk s) = (r, sr_disk s')"
      using d True bs by (simp add: persist_batch_def) (metis prod.collapse)
    have "r = Inr ()"
      using w assms(3) by (auto simp: atomic_write_def fs_op_def io_bind_def Let_def split: if_splits)
    with atomic_write_result [OF assms(1) _ w, of "{Some old}" "fs_read (dk_fs (sr_disk s)) f"] old assms(2,3)
    have "still f (insert (Some bs) {Some old}) (Some bs) (dk_fs (sr_disk s'))" "fs_unsynced (dk_fs (sr_disk s')) = []"
      by (simp_all add: still_def)
    from settled [OF this] bs show ?thesis by (auto simp: in_sync_def still_def)
  qed
qed

text \<open>C22: without faults the file follows the store: if it was current when the loop started, then after
  every round it is current again, whether the round saved or its dirty flag let it skip the save,
  and a crash between rounds loses nothing that was accepted.\<close>

theorem file_follows_store:
  assumes "path_file_name p = Some f" and "path_parent p \<noteq> Some []"
    and "\<forall>q \<in> set qs. \<forall>op. \<not> ft_fails (po_faults q) op"
    and "in_sync X oq ors f s" and "serve_rounds X oq ors pid (Some p) poll qs s = Returned ss"
    and "\<forall>s' \<in> set ss. is_ok (try_to_bytes X oq ors (ms_store (sr_service s')))"
  shows "\<forall>s' \<in> set ss. \<exists>bs. try_to_bytes X oq ors (ms_store (sr_service s')) = Inr bs \<and>
    fs_read (dk_fs (sr_disk s')) f = Some bs \<and>
    (\<forall>x. crash_reads (dk_fs (sr_disk s')) f x \<longrightarrow> x = Some bs)"
proof -
  have "\<forall>s' \<in> set ss. in_sync X oq ors f s'"
    using assms(3-6)
  proof (induction qs arbitrary: s ss)
    case (Cons q qs)
    then obtain s1 ss1 where step: "serve_step X oq ors pid (Some p) poll q s = Returned s1"
      and rest: "serve_rounds X oq ors pid (Some p) poll qs s1 = Returned ss1" and ss: "ss = s # ss1" by auto
    have "s1 \<in> set ss1" using rest by (cases qs) auto
    then have "is_ok (try_to_bytes X oq ors (ms_store (sr_service s1)))" using Cons.prems(4) ss by simp
    with in_sync_step [OF assms(1,2) _ Cons.prems(2) step] Cons.prems(1) have "in_sync X oq ors f s1" by simp
    with Cons.IH [OF _ this rest] Cons.prems ss show ?case by simp
  qed auto
  then show ?thesis unfolding in_sync_def using holds_reads by blast
qed

lemma sample_bytes: "try_to_bytes sample oq ors m =
    Inr (put (sv_parts oq ors (STORE_MAGIC, mb_self_id m, mb_queues m, mb_capacity m, mb_receipts m)))"
  by (simp add: try_to_bytes_def sample_def)

lemma file_follows_store_witness:
  "\<exists>s1 bs. serve_rounds sample by_key by_key 7 (Some ''data/mail'') 500 [mail_poll no_faults]
       (sample_server (to_bytes sample by_key by_key sample_store)) =
     Returned [sample_server (to_bytes sample by_key by_key sample_store), s1] \<and>
     fs_read (dk_fs (sr_disk s1)) ''mail'' = Some bs \<and> try_to_bytes sample by_key by_key one_mail = Inr bs"
proof -
  let ?s = "sample_server (to_bytes sample by_key by_key sample_store)"
  obtain s1 where r: "serve_rounds sample by_key by_key 7 (Some ''data/mail'') 500 [mail_poll no_faults] ?s =
      Returned [?s, s1]" and m: "ms_store (sr_service s1) = one_mail" using mail_round by blast
  have "in_sync sample by_key by_key ''mail'' ?s"
    using sample_disk_holds
    by (simp add: in_sync_def sample_server_def start_server_def sample_service_def with_limits_def
        to_bytes_def sample_bytes)
  from file_follows_store [OF mail_path(1) _ _ this r] mail_path(2) m r show ?thesis
    by (auto simp: mail_poll_def no_faults_def sample_bytes)
qed

section \<open>A save that fails\<close>

lemma reading_batch_clean:
  assumes "\<forall>a \<in> set as. \<forall>t n req. accepted_request X (ar_message a) = Some (t, n, req) \<longrightarrow> \<not> request_mutates req"
    and "serve_batch X as svc False = Returned (replies, svc', dirty)"
  shows "\<not> dirty"
  using assms
proof (induction as arbitrary: svc replies)
  case (Cons a as)
  then obtain rs svc1 d1 rs2 where m: "serve_message X a svc False = Returned (rs, svc1, d1)"
    "serve_batch X as svc1 d1 = Returned (rs2, svc', dirty)" by auto
  have "\<not> d1" using m(1) Cons.prems(1) by (auto simp: serve_message_def split: option.splits)
  with m(2) Cons show ?case by auto
qed simp

text \<open>C38: a save that fails is not made up for: the dirty flag starts clear in every round, so after a
  round that changed the store and whose rename failed, the file still reads as before the change
  through any number of fault-free rounds of reading, and a restart then forgets mail whose
  delivery was confirmed.\<close>

theorem failed_save_is_forgotten:
  assumes "path_file_name p = Some f" and "holds f R (dk_fs (sr_disk s))"
    and "ft_fails (po_faults q) RenameTemp"
    and "serve_step X oq ors pid (Some p) poll q s = Returned s1"
    and "\<forall>q \<in> set qs. \<forall>as. po_messages q = Some as \<longrightarrow> (\<forall>a \<in> set as. \<forall>t n req.
      accepted_request X (ar_message a) = Some (t, n, req) \<longrightarrow> \<not> request_mutates req)"
    and "serve_rounds X oq ors pid (Some p) poll qs s1 = Returned ss"
  shows "fs_read (dk_fs (sr_disk (last ss))) f = fs_read (dk_fs (sr_disk s)) f"
proof -
  have first: "fs_read (dk_fs (sr_disk s1)) f = fs_read (dk_fs (sr_disk s)) f"
    using serve_step_disk [OF assms(4)]
  proof (elim disjE exE conjE)
    fix bs
    assume d: "sr_disk s1 = snd (atomic_write (po_faults q) pid p bs (sr_disk s))"
    obtain r where w: "atomic_write (po_faults q) pid p bs (sr_disk s) = (r, sr_disk s1)"
      using d by (metis prod.collapse)
    have "\<exists>e. r = Inl e"
      using w assms(3) by (auto simp: atomic_write_def fs_op_def io_bind_def Let_def split: if_splits)
    with atomic_write_result [OF assms(1) _ w, of R] assms(2) show ?thesis by (auto simp: still_def)
  qed simp
  have "sr_disk (last ss) = sr_disk s1" using assms(5,6)
  proof (induction qs arbitrary: s1 ss)
    case (Cons q qs)
    then obtain s2 ss2 where step: "serve_step X oq ors pid (Some p) poll q s1 = Returned s2"
      and rest: "serve_rounds X oq ors pid (Some p) poll qs s2 = Returned ss2" and ss: "ss = s1 # ss2" by auto
    have "sr_disk s2 = sr_disk s1"
    proof (cases "po_messages q")
      case None
      with serve_step_failed [OF None step] show ?thesis by simp
    next
      case (Some ms)
      with serve_step_batch [OF Some step] Cons.prems(1) reading_batch_clean [of ms X "sr_service s1"]
      show ?thesis by (auto simp: persist_batch_def)
    qed
    moreover have "ss2 \<noteq> []" using rest by (cases qs) auto
    ultimately show ?case using Cons.IH [OF _ rest] Cons.prems(1) ss by simp
  qed simp
  with first show ?thesis by simp
qed

lemma failed_save_is_forgotten_witness:
  "\<exists>s1 s2. serve_rounds sample by_key by_key 7 (Some ''data/mail'') 500
       [mail_poll rename_fails, \<lparr>po_messages = Some [], po_faults = no_faults\<rparr>] (sample_server [1]) =
     Returned [sample_server [1], s1, s2] \<and> queue_of bob_hex (ms_store (sr_service s2)) \<noteq> [] \<and>
     fs_read (dk_fs (sr_disk s2)) ''mail'' = Some [1]"
proof -
  let ?q = "\<lparr>po_messages = Some [], po_faults = no_faults\<rparr> :: nat poll"
  obtain s1 where s1: "serve_step sample by_key by_key 7 (Some ''data/mail'') 500 (mail_poll rename_fails) (sample_server [1]) =
      Returned s1" "ms_store (sr_service s1) = one_mail"
    using mail_round [of rename_fails "[1]"] by auto
  obtain s2 where s2: "serve_step sample by_key by_key 7 (Some ''data/mail'') 500 ?q s1 = Returned s2"
    "sr_service s2 = sr_service s1"
    by (simp add: serve_step_def)
  have "fs_read (dk_fs (sr_disk (last [s1, s2]))) ''mail'' = fs_read (dk_fs (sr_disk (sample_server [1]))) ''mail''"
    by (rule failed_save_is_forgotten [OF mail_path(1) _ _ s1(1), where qs = "[?q]"])
      (use sample_disk_holds s2 in \<open>auto simp: sample_server_def start_server_def mail_poll_def rename_fails_def\<close>)
  then have "fs_read (dk_fs (sr_disk s2)) ''mail'' = Some [1]"
    by (simp add: sample_server_def start_server_def sample_disk_def fs_read_def)
  with s1 s2 one_mail_queue show ?thesis by (intro exI [of _ s1] exI [of _ s2]) simp
qed

section \<open>Backing off\<close>

text \<open>While polling keeps failing, the loop never stops or panics, it waits \<open>poll_ms\<close> first and then
  twice as long each time, never longer than thirty seconds from the second wait on, and changes
  neither the service nor the disk; \<open>poll_ms\<close> must be below half the range of \<open>u64\<close>.\<close>

lemma backoff_doubles_to_cap:
  assumes "poll * 2 < usize_limit" and "\<forall>q \<in> set qs. po_messages q = None"
  shows "\<exists>ss. serve_rounds X oq ors pid path poll qs (start_server poll svc d) = Returned ss \<and>
    sr_sleeps (last ss) = map (\<lambda>i. if i = 0 then poll else min (poll * 2 ^ i) MAX_BACKOFF_MS) [0..<length qs] \<and>
    sr_service (last ss) = svc \<and> sr_disk (last ss) = d"
proof -
  let ?wait = "\<lambda>i. if i = 0 then poll else min (poll * 2 ^ i) MAX_BACKOFF_MS"
  have double: "next_backoff (?wait k) = Returned (?wait (Suc k))" for k
    using assms(1) by (auto simp: next_backoff_def MAX_BACKOFF_MS_def usize_limit_def min_def)
  have "\<exists>ss. serve_rounds X oq ors pid path poll qs s = Returned ss \<and>
      sr_sleeps (last ss) = sr_sleeps s @ map ?wait [k..<k + length qs] \<and>
      sr_service (last ss) = sr_service s \<and> sr_disk (last ss) = sr_disk s"
    if "sr_backoff s = ?wait k" for s k
    using assms(2) that
  proof (induction qs arbitrary: s k)
    case (Cons q qs)
    let ?s1 = "s\<lparr>sr_backoff := ?wait (Suc k), sr_sleeps := sr_sleeps s @ [?wait k]\<rparr>"
    have step: "serve_step X oq ors pid path poll q s = Returned ?s1"
      using Cons.prems double [of k] by (simp add: serve_step_def)
    from Cons.IH [of ?s1 "Suc k"] Cons.prems(1) obtain ss
      where rest: "serve_rounds X oq ors pid path poll qs ?s1 = Returned ss"
        "sr_sleeps (last ss) = sr_sleeps ?s1 @ map ?wait [Suc k..<Suc k + length qs]"
        "sr_service (last ss) = sr_service ?s1" "sr_disk (last ss) = sr_disk ?s1" by auto
    have "ss \<noteq> []" using rest(1) by (cases qs) auto
    moreover have "[k..<k + length (q # qs)] = k # [Suc k..<Suc k + length qs]" by (simp add: upt_rec)
    ultimately show ?case using step rest by (intro exI [of _ "s # ss"]) simp
  qed simp
  from this [of "start_server poll svc d" 0] show ?thesis by (simp add: start_server_def)
qed

lemma backoff_doubles_to_cap_witness:
  "\<exists>ss. serve_rounds sample by_key by_key 7 None 10000 (replicate 3 \<lparr>po_messages = None, po_faults = no_faults\<rparr>)
       (start_server 10000 sample_service (sample_disk [])) = Returned (ss :: nat server list) \<and>
     sr_sleeps (last ss) = [10000, 20000, 30000]"
  using backoff_doubles_to_cap [of 10000 "replicate 3 \<lparr>po_messages = None, po_faults = no_faults\<rparr> :: nat poll list"
      sample by_key by_key 7 None sample_service "sample_disk []"]
  by (simp add: usize_limit_def upt_rec MAX_BACKOFF_MS_def) blast

end
