(* ===== verification/Inbox_Command.thy ===== *)
theory Inbox_Command
  imports Mail_Client
begin

text \<open>
  The \<open>inbox\<close> and \<open>read\<close> commands (src/src/main.rs): drain, list, save the snapshot, save the cursor,
  acknowledge; then find a message of the snapshot. The lines printed are collected; the two files
  are values, written by \<open>atomic_write\<close>, whose failure is an input; the JSON of the snapshot
  (serde_json) is read back as it was written. Also \<open>Message::body_text\<close>.
\<close>

section \<open>Lossy text\<close>

text \<open>
  \<open>String::from_utf8_lossy\<close>: well-formed sequences are kept, each maximal ill-formed one becomes
  U+FFFD.
\<close>

definition replacement :: string where
  "replacement = [CHR 0xEF, CHR 0xBF, CHR 0xBD]"

definition cont :: "char \<Rightarrow> bool" where
  "cont c \<longleftrightarrow> byte_in 128 191 c"

definition second_of_3 :: "char \<Rightarrow> char \<Rightarrow> bool" where
  "second_of_3 a b \<longleftrightarrow>
     byte_in 224 224 a \<and> byte_in 160 191 b
     \<or> (byte_in 225 236 a \<or> byte_in 238 239 a) \<and> byte_in 128 191 b
     \<or> byte_in 237 237 a \<and> byte_in 128 159 b"

definition second_of_4 :: "char \<Rightarrow> char \<Rightarrow> bool" where
  "second_of_4 a b \<longleftrightarrow>
     byte_in 240 240 a \<and> byte_in 144 191 b
     \<or> byte_in 241 243 a \<and> byte_in 128 191 b
     \<or> byte_in 244 244 a \<and> byte_in 128 143 b"

fun utf8_lossy :: "string \<Rightarrow> string" where
  "utf8_lossy [] = []"
| "utf8_lossy (a # s) =
     (if byte_in 0 127 a then a # utf8_lossy s
      else case s of
        [] \<Rightarrow> replacement
      | b # s2 \<Rightarrow>
          (if byte_in 194 223 a then
             (if cont b then a # b # utf8_lossy s2 else replacement @ utf8_lossy s)
           else if second_of_3 a b then
             (case s2 of
                [] \<Rightarrow> replacement
              | c # s3 \<Rightarrow> (if cont c then a # b # c # utf8_lossy s3 else replacement @ utf8_lossy s2))
           else if second_of_4 a b then
             (case s2 of
                [] \<Rightarrow> replacement
              | c # s3 \<Rightarrow>
                  (if \<not> cont c then replacement @ utf8_lossy s2
                   else case s3 of
                       [] \<Rightarrow> replacement
                     | d # s4 \<Rightarrow> (if cont d then a # b # c # d # utf8_lossy s4 else replacement @ utf8_lossy s3)))
           else replacement @ utf8_lossy s))"

definition body_text :: "Message \<Rightarrow> string" where
  "body_text m = utf8_lossy (map (\<lambda>b. char_of (unat b)) (msg_body m))"

section \<open>Slices and numbers\<close>

text \<open>\<open>&s[..n]\<close> panics past the end and inside a character.\<close>

definition is_char_boundary :: "string \<Rightarrow> nat \<Rightarrow> bool" where
  "is_char_boundary s n \<longleftrightarrow> n = 0 \<or> n = length s \<or> n < length s \<and> \<not> cont (s ! n)"

definition slice_to :: "string \<Rightarrow> nat \<Rightarrow> string outcome" where
  "slice_to s n = (if is_char_boundary s n then Returned (take n s) else Panicked)"

definition ellipsis :: string where
  "ellipsis = [CHR 0xE2, CHR 0x80, CHR 0xA6]"

definition truncate_text :: "string \<Rightarrow> nat \<Rightarrow> string outcome" where
  "truncate_text s n =
     (if length s \<le> n then Returned s else map_outcome_to (\<lambda>t. t @ ellipsis) (slice_to s n))"

text \<open>\<open>str::parse::<usize>\<close>\<close>

definition digit_value :: "char \<Rightarrow> nat" where
  "digit_value c = of_char c - 48"

definition parse_usize :: "string \<Rightarrow> nat option" where
  "parse_usize s =
     (let ds = (case s of c # cs \<Rightarrow> (if c = CHR ''+'' then cs else s) | [] \<Rightarrow> s);
          n = foldl (\<lambda>n c. 10 * n + digit_value c) 0 ds
      in if ds = [] \<or> \<not> list_all is_ascii_digit ds \<or> usize_limit \<le> n then None else Some n)"

section \<open>The local files\<close>

record SnapMsg =
  sn_id :: string
  sn_from :: string
  sn_subject :: string
  sn_in_reply_to :: string
  sn_body :: string

record LocalFiles =
  lf_cursor :: "string option"
  lf_snapshot :: "SnapMsg list option"

text \<open>The error of a failing write of either file.\<close>

record write_errors =
  we_snapshot :: "string option"
  we_cursor :: "string option"

definition snap_message :: "('i, 'c) crates \<Rightarrow> Message \<Rightarrow> SnapMsg" where
  "snap_message X m =
     \<lparr>sn_id = message_id_of X m, sn_from = eb_from (en_body (msg_envelope m)), sn_subject = message_subject m,
      sn_in_reply_to = eb_in_reply_to (en_body (msg_envelope m)), sn_body = body_text m\<rparr>"

definition save_snapshot :: "('i, 'c) crates \<Rightarrow> write_errors \<Rightarrow> Message list \<Rightarrow> (LocalFiles, unit) io" where
  "save_snapshot X we msgs = (\<lambda>files.
     case we_snapshot we of
       Some e \<Rightarrow> (Inl e, files)
     | None \<Rightarrow> (Inr (), files\<lparr>lf_snapshot := Some (map (snap_message X) msgs)\<rparr>))"

definition read_cursor :: "LocalFiles \<Rightarrow> nat" where
  "read_cursor files =
     (case lf_cursor files of
        Some s \<Rightarrow> (case parse_usize (trim s) of Some n \<Rightarrow> n | None \<Rightarrow> 0)
      | None \<Rightarrow> 0)"

definition write_cursor :: "write_errors \<Rightarrow> nat \<Rightarrow> (LocalFiles, unit) io" where
  "write_cursor we cursor = (\<lambda>files.
     case we_cursor we of
       Some e \<Rightarrow> (Inl e, files)
     | None \<Rightarrow> (Inr (), files\<lparr>lf_cursor := Some (show_nat cursor)\<rparr>))"

section \<open>The commands\<close>

definition message_line :: "('i, 'c) crates \<Rightarrow> Message \<Rightarrow> string outcome" where
  "message_line X m =
     (let i = message_id_of X m in
      and_then (slice_to i (min 16 (length i))) (\<lambda>short.
      map_outcome_to (\<lambda>sender. short @ ''  '' @ sender @ ''  '' @ message_subject m)
        (truncate_text (eb_from (en_body (msg_envelope m))) 12)))"

fun message_lines :: "('i, 'c) crates \<Rightarrow> Message list \<Rightarrow> string list outcome" where
  "message_lines X [] = Returned []"
| "message_lines X (m # ms) =
     and_then (message_line X m) (\<lambda>l. map_outcome_to (\<lambda>ls. l # ls) (message_lines X ms))"

definition print_inbox :: "('i, 'c) crates \<Rightarrow> Message list \<Rightarrow> string list outcome" where
  "print_inbox X msgs = (if msgs = [] then Returned [''(no new messages)''] else message_lines X msgs)"

text \<open>What the command leaves: its result, the lines printed, the local files, the network.\<close>

type_synonym 'w inbox_end = "unit result \<times> string list \<times> LocalFiles \<times> 'w"

definition inbox_command ::
  "('i, 'c) crates \<Rightarrow> 'w Host \<Rightarrow> 'i MailClient \<Rightarrow> string \<Rightarrow> nat option \<Rightarrow> 'c list \<Rightarrow> bool \<Rightarrow> write_errors \<Rightarrow>
   LocalFiles \<Rightarrow> 'w \<Rightarrow> 'w inbox_end outcome" where
  "inbox_command X H c mailbox since grant ack we files w =
     (let start = (case since of Some n \<Rightarrow> n | None \<Rightarrow> read_cursor files) in
      case drain_inbox X H c mailbox start grant w of
        (Inl e, w) \<Rightarrow> Returned (Inl ''drain inbox'', [], files, w)
      | (Inr (msgs, cursor), w) \<Rightarrow>
          map_outcome_to
            (\<lambda>lines.
               (case save_snapshot X we msgs files of
                  (Inl e, files) \<Rightarrow> (Inl e, lines, files, w)
                | (Inr _, files) \<Rightarrow>
                  (case write_cursor we cursor files of
                     (Inl e, files) \<Rightarrow> (Inl e, lines, files, w)
                   | (Inr _, files) \<Rightarrow>
                     (if ack \<and> start < cursor then
                        (case ack_inbox X H c mailbox cursor grant w of
                           (Inl e, w) \<Rightarrow> (Inl ''ack'', lines, files, w)
                         | (Inr _, w) \<Rightarrow> (Inr (), lines, files, w))
                      else (Inr (), lines, files, w)))))
            (print_inbox X msgs))"

definition starts_with :: "string \<Rightarrow> string \<Rightarrow> bool" where
  "starts_with s p \<longleftrightarrow> take (length p) s = p"

definition read_command :: "string \<Rightarrow> LocalFiles \<Rightarrow> SnapMsg result" where
  "read_command i files =
     (case lf_snapshot files of
        None \<Rightarrow> Inl ''no inbox snapshot''
      | Some msgs \<Rightarrow>
          (case find (\<lambda>m. sn_id m = i \<or> starts_with (sn_id m) i) msgs of
             Some m \<Rightarrow> Inr m
           | None \<Rightarrow> Inl (''no message with id starting '' @ i @ '' in the last inbox snapshot'')))"

section \<open>Lossy text keeps text\<close>

lemma lead_exclusive:
  "second_of_3 a b \<Longrightarrow> \<not> byte_in 0 127 a \<and> \<not> byte_in 194 223 a"
  "second_of_4 a b \<Longrightarrow> \<not> byte_in 0 127 a \<and> \<not> byte_in 194 223 a"
  by (auto simp: second_of_3_def second_of_4_def byte_in_def)

lemma second_exclusive: "second_of_4 a b \<Longrightarrow> \<not> second_of_3 a b"
  unfolding second_of_3_def second_of_4_def byte_in_def by linarith

lemma utf8_step:
  "is_utf8 (a # s) \<longleftrightarrow>
     (if byte_in 0 127 a then is_utf8 s
      else case s of
        [] \<Rightarrow> False
      | b # s2 \<Rightarrow>
          (if byte_in 194 223 a \<and> cont b then is_utf8 s2
           else case s2 of
             [] \<Rightarrow> False
           | c # s3 \<Rightarrow>
               (if second_of_3 a b \<and> cont c then is_utf8 s3
                else case s3 of
                  [] \<Rightarrow> False
                | d # s4 \<Rightarrow> second_of_4 a b \<and> cont c \<and> cont d \<and> is_utf8 s4)))"
  by (simp only: is_utf8.simps second_of_3_def second_of_4_def cont_def)

lemma utf8_cases:
  assumes "is_utf8 (a # s)"
  obtains (one) "byte_in 0 127 a" "is_utf8 s"
  | (two) b s2 where "s = b # s2" "byte_in 194 223 a" "cont b" "is_utf8 s2" "\<not> byte_in 0 127 a"
  | (three) b c s3 where "s = b # c # s3" "second_of_3 a b" "cont c" "is_utf8 s3"
  | (four) b c d s4 where "s = b # c # d # s4" "second_of_4 a b" "cont c" "cont d" "is_utf8 s4"
proof (cases "byte_in 0 127 a")
  case True
  with assms one show ?thesis by (simp add: utf8_step del: is_utf8.simps)
next
  case a: False
  with assms obtain b s2 where s: "s = b # s2" by (cases s) (simp_all add: utf8_step del: is_utf8.simps)
  show ?thesis
  proof (cases "byte_in 194 223 a \<and> cont b")
    case True
    with assms a s two show ?thesis by (simp add: utf8_step del: is_utf8.simps)
  next
    case ab: False
    with assms a s obtain c s3 where s2: "s2 = c # s3"
      by (cases s2) (simp_all add: utf8_step del: is_utf8.simps)
    show ?thesis
    proof (cases "second_of_3 a b \<and> cont c")
      case True
      with assms a ab s s2 three show ?thesis by (simp only: utf8_step list.case if_True if_False simp_thms)
    next
      case False
      with assms a ab s s2 obtain d s4 where "s3 = d # s4"
        by (cases s3) (simp_all only: utf8_step list.case if_False simp_thms)
      with False assms a ab s s2 four show ?thesis by (simp only: utf8_step list.case if_False simp_thms)
    qed
  qed
qed

lemma lossy_valid: "is_utf8 s \<Longrightarrow> utf8_lossy s = s"
proof (induction s rule: length_induct)
  case (1 s)
  show ?case
  proof (cases s)
    case (Cons a t)
    with 1(2) have "is_utf8 (a # t)" by simp
    then show ?thesis
    proof (cases rule: utf8_cases)
      case one
      then show ?thesis using 1(1) Cons by simp
    next
      case two
      then show ?thesis using 1(1) Cons by simp
    next
      case three
      then show ?thesis using 1(1) Cons lead_exclusive(1) by simp
    next
      case four
      then show ?thesis using 1(1) Cons lead_exclusive(2) second_exclusive by simp
    qed
  qed simp
qed

section \<open>Cursors are read as written\<close>

lemma digit_char: "d < 10 \<Longrightarrow> of_char (char_of (48 + d)) = 48 + (d :: nat)"
  by simp

lemma digit_ascii: "d < 10 \<Longrightarrow> is_ascii_digit (char_of (48 + d :: nat))"
  by (simp add: is_ascii_digit_def less_eq_char_def)

lemma show_nat_digits: "list_all is_ascii_digit (show_nat n)"
  by (induction n rule: show_nat.induct) (subst show_nat.simps, simp add: digit_ascii)

lemma show_nat_value: "foldl (\<lambda>n c. 10 * n + digit_value c) 0 (show_nat n) = n"
  by (induction n rule: show_nat.induct) (subst show_nat.simps, simp add: digit_value_def)

lemma digit_inert: "is_ascii_digit c \<Longrightarrow> inert c"
  by (auto simp: is_ascii_digit_def inert_def ws_lead_def ws_cont_def ascii_ws_def less_eq_char_def)

lemma trim_digits:
  assumes "list_all is_ascii_digit s"
  shows "trim s = s"
proof (cases s rule: rev_cases)
  case (snoc p c)
  with assms have "inert c" by (simp add: digit_inert)
  then have end0: "ws_end s = 0" by (simp add: snoc inert_not_end)
  obtain d q where s: "s = d # q" using snoc by (cases p) auto
  with assms have "inert d" by (simp add: digit_inert)
  then have "ws_len s = 0" using s by (simp add: inert_def)
  then show ?thesis using end0 by (simp add: trim_def trim_start_id trim_end_id)
qed (simp add: trim_def)

lemma read_written_cursor:
  assumes "write_cursor we n files = (Inr (), files')" and "n < usize_limit"
  shows "read_cursor files' = n"
proof -
  have files': "lf_cursor files' = Some (show_nat n)" using assms(1) by (auto simp: write_cursor_def split: option.splits)
  obtain c cs where s: "show_nat n = c # cs" by (cases "show_nat n") auto
  then have "is_ascii_digit c" using show_nat_digits [of n] by simp
  then have "c \<noteq> CHR ''+''" by (auto simp: is_ascii_digit_def less_eq_char_def)
  with s have "parse_usize (show_nat n) = Some n"
    using show_nat_digits [of n] show_nat_value [of n] assms(2) by (simp add: parse_usize_def Let_def)
  then show ?thesis using files' by (simp add: read_cursor_def trim_digits [OF show_nat_digits])
qed

end
