(* ===== verification/Inbox_Properties.thy ===== *)
theory Inbox_Properties
  imports Inbox_Command Client_Properties
begin

text \<open>
  The properties of the \<open>inbox\<close> and \<open>read\<close> commands: when listing panics, what a resumed listing
  shows, with and without \<open>--ack\<close>, and that a listed message can be read.
\<close>

section \<open>Listing\<close>

lemma hex_boundary:
  assumes "set s \<subseteq> set hex_digits" and "n \<le> length s"
  shows "is_char_boundary s n"
proof (cases "n = length s")
  case False
  then have "s ! n \<in> set hex_digits" using assms nth_mem [of n s] by auto
  then have "\<not> cont (s ! n)" by (auto simp: hex_digits_def cont_def byte_in_def)
  with False assms(2) show ?thesis by (simp add: is_char_boundary_def)
qed (simp add: is_char_boundary_def)

lemma truncate_panics:
  "truncate_text s n = Panicked \<longleftrightarrow> n < length s \<and> n \<noteq> 0 \<and> cont (s ! n)"
  by (auto simp: truncate_text_def slice_to_def is_char_boundary_def)

lemma message_line_panics:
  assumes "hex_ok X"
  shows "message_line X m = Panicked \<longleftrightarrow> truncate_text (eb_from (en_body (msg_envelope m))) 12 = Panicked"
proof -
  have "set (message_id_of X m) \<subseteq> set hex_digits"
    using hex_okD(3) [OF assms] by (auto simp: message_id_of_def envelope_message_id_def message_id_def)
  then have "slice_to (message_id_of X m) (min 16 (length (message_id_of X m))) \<noteq> Panicked"
    using hex_boundary [of "message_id_of X m"] by (simp add: slice_to_def)
  then obtain t where "slice_to (message_id_of X m) (min 16 (length (message_id_of X m))) = Returned t"
    by (cases "slice_to (message_id_of X m) (min 16 (length (message_id_of X m)))") auto
  then show ?thesis
    by (cases "truncate_text (eb_from (en_body (msg_envelope m))) 12") (simp_all add: message_line_def Let_def)
qed

lemma message_lines_panic:
  assumes "hex_ok X"
  shows "message_lines X ms = Panicked \<longleftrightarrow>
    (\<exists>m \<in> set ms. truncate_text (eb_from (en_body (msg_envelope m))) 12 = Panicked)"
proof (induction ms)
  case (Cons m ms)
  with message_line_panics [OF assms, of m] show ?case
    by (cases "message_line X m"; cases "message_lines X ms") auto
qed simp

definition list_start :: "nat option \<Rightarrow> LocalFiles \<Rightarrow> nat" where
  "list_start since files = (case since of Some n \<Rightarrow> n | None \<Rightarrow> read_cursor files)"

lemma list_start_simps [simp]: "list_start None files = read_cursor files" "list_start (Some n) files = n"
  by (simp_all add: list_start_def)

text \<open>C39: \<open>inbox\<close> panics exactly when a drained, authentic message names a sender whose text is longer
  than 12 bytes with a character straddling byte 12. Such a text still parses as a node id (the parser
  trims Unicode white space) and still verifies; the panic comes before the snapshot and the cursor
  are saved, so the next run panics too.\<close>

theorem inbox_panics_iff:
  assumes "hex_ok X"
    and "drain_inbox X H c mailbox (list_start since files) grant w = (Inr (msgs, cursor), w')"
  shows "inbox_command X H c mailbox since grant do_ack we files w = Panicked \<longleftrightarrow>
    (\<exists>m \<in> set msgs. 12 < length (eb_from (en_body (msg_envelope m))) \<and>
       cont (eb_from (en_body (msg_envelope m)) ! 12))"
proof -
  have "inbox_command X H c mailbox since grant do_ack we files w = Panicked \<longleftrightarrow> print_inbox X msgs = Panicked"
    using assms(2) by (cases "print_inbox X msgs") (simp_all add: inbox_command_def list_start_def Let_def)
  also have "\<dots> \<longleftrightarrow> message_lines X msgs = Panicked" by (simp add: print_inbox_def)
  finally show ?thesis unfolding message_lines_panic [OF assms(1)] truncate_panics by simp
qed

text \<open>A sender text of a space, four U+2003 and the hex digits.\<close>

definition crafted_sender :: string where
  "crafted_sender = CHR '' '' # concat (replicate 4 [CHR 0xE2, CHR 0x80, CHR 0x83]) @ node_id_hex sample alice"

definition crafted_body :: EnvelopeBody where
  "crafted_body = (sample_body 5)\<lparr>eb_from := crafted_sender, eb_to := bob_hex\<rparr>"

definition crafted_mail :: Envelope where
  "crafted_mail = \<lparr>en_body = crafted_body, en_sig = sign_with sample alice (envelope_signing_bytes sample crafted_body)\<rparr>"

lemma crafted_verifies: "verify_envelope sample crafted_mail = Inr ()"
  by code_simp

lemma crafted_panics: "12 < length crafted_sender" "cont (crafted_sender ! 12)"
  by (simp_all add: crafted_sender_def cont_def byte_in_def numeral_eq_Suc)

lemma crafted_ok: "ok_envelope crafted_mail"
proof -
  have "is_utf8 crafted_sender" by code_simp
  moreover have "length crafted_sender < usize_limit"
  proof -
    have "length (concat (replicate 4 [CHR 0xE2, CHR 0x80, CHR 0x83])) = 12" by code_simp
    then show ?thesis
      using node_hex_digits(2) [OF sample_identity_ok sample_hex_ok, of alice]
      by (simp add: crafted_sender_def usize_limit_def)
  qed
  moreover have "length (en_sig crafted_mail) = 64"
    using identity_okD(3) [OF sample_identity_ok] by (simp add: crafted_mail_def)
  ultimately show ?thesis
    using sample_mail_ok [of 5] bob_hex_rust
    by (simp add: crafted_mail_def crafted_body_def ok_envelope_def ok_body_def rust_string_def sample_mail_def
        seal_envelope_def Let_def)
qed

definition fresh_files :: LocalFiles where
  "fresh_files = \<lparr>lf_cursor = None, lf_snapshot = None\<rparr>"

definition ok_writes :: write_errors where
  "ok_writes = \<lparr>we_snapshot = None, we_cursor = None\<rparr>"

lemma inbox_panics_iff_witness:
  "inbox_command sample (parrot (Drained [crafted_mail] 9)) bob_client mailbox_hex None [] True
     ok_writes fresh_files sample_net = Panicked"
proof -
  let ?H = "parrot (Drained [crafted_mail] 9)"
  have "ok_reply (Drained [crafted_mail] 9)" using crafted_ok by (simp add: usize_limit_def)
  note rt = parrot_replies [OF this]
  obtain msgs w' where c: "compose_messages sample ?H bob_client [crafted_mail] sample_net = (msgs, w')"
    by (rule prod.exhaust)
  then have "map msg_envelope msgs = [crafted_mail]"
    using compose_messages_envelopes [of sample ?H bob_client "[crafted_mail]" sample_net] crafted_verifies by simp
  then obtain m where "m \<in> set msgs" "msg_envelope m = crafted_mail" by auto
  moreover have "eb_from (en_body crafted_mail) = crafted_sender" by (simp add: crafted_mail_def crafted_body_def)
  moreover have "drain_inbox sample ?H bob_client mailbox_hex (list_start None fresh_files) [] sample_net =
      (Inr (msgs, 9), w')" by (simp add: drain_inbox_def rt c del: compose_messages.simps)
  ultimately show ?thesis
    using inbox_panics_iff [OF sample_hex_ok] crafted_panics by fastforce
qed

section \<open>Resuming\<close>

lemma inbox_command_result:
  assumes "inbox_command X H c mailbox since grant do_ack we files w = Returned (Inr (), lines, files', w')"
  obtains msgs cursor w1 where
    "drain_inbox X H c mailbox (list_start since files) grant w = (Inr (msgs, cursor), w1)"
    "print_inbox X msgs = Returned lines"
    "files' = files\<lparr>lf_snapshot := Some (map (snap_message X) msgs), lf_cursor := Some (show_nat cursor)\<rparr>"
    "if do_ack \<and> list_start since files < cursor then \<exists>k. ack_inbox X H c mailbox cursor grant w1 = (Inr k, w')
     else w' = w1"
proof (cases "drain_inbox X H c mailbox (list_start since files) grant w")
  case (Pair r w1)
  with assms obtain msgs cursor where r: "r = Inr (msgs, cursor)"
    by (cases r) (auto simp: inbox_command_def list_start_def Let_def)
  show ?thesis
  proof (rule that [of msgs cursor w1])
    show "drain_inbox X H c mailbox (list_start since files) grant w = (Inr (msgs, cursor), w1)"
      using Pair r by simp
    with assms show "print_inbox X msgs = Returned lines"
      and "files' = files\<lparr>lf_snapshot := Some (map (snap_message X) msgs), lf_cursor := Some (show_nat cursor)\<rparr>"
      and "if do_ack \<and> list_start since files < cursor then \<exists>k. ack_inbox X H c mailbox cursor grant w1 = (Inr k, w')
        else w' = w1"
      by (auto simp: inbox_command_def list_start_def Let_def save_snapshot_def write_cursor_def
          split: option.splits if_splits sum.splits prod.splits)
  qed
qed

lemma inbox_command_run:
  assumes "drain_inbox X H c mailbox (list_start since files) grant w = (Inr (msgs, cursor), w1)"
    and "print_inbox X msgs = Returned lines" and "\<not> (do_ack \<and> list_start since files < cursor)"
  shows "inbox_command X H c mailbox since grant do_ack ok_writes files w =
    Returned (Inr (), lines,
      files\<lparr>lf_snapshot := Some (map (snap_message X) msgs), lf_cursor := Some (show_nat cursor)\<rparr>, w1)"
  using assms by (auto simp: inbox_command_def list_start_def [symmetric] Let_def save_snapshot_def write_cursor_def ok_writes_def)

lemma cursor_of_show:
  assumes "n < usize_limit" and "lf_cursor files = Some (show_nat n)"
  shows "read_cursor files = n"
proof -
  have "write_cursor ok_writes n files = (Inr (), files\<lparr>lf_cursor := Some (show_nat n)\<rparr>)"
    by (simp add: write_cursor_def ok_writes_def)
  from read_written_cursor [OF this assms(1)] assms(2) show ?thesis by (simp add: read_cursor_def)
qed

text \<open>What a drain of one's own inbox over the in-memory network lists, as envelopes.\<close>

lemma memory_drain:
  assumes "crates_ok X" and "net_up w" and "fmlookup (fn_services w) mailbox = Some svc" and "service_typed svc"
    and "mc_identity c = j" and "since < usize_limit" and "ok_grant grant"
  shows "\<exists>msgs w1. drain_inbox X (fake_handle X cid rnd dbs dbr (node_id_of X j)) c mailbox since grant w =
      (Inr (msgs, length (queue_of (node_id_hex X j) (ms_store svc))), w1) \<and>
    map msg_envelope msgs = filter (\<lambda>e. is_ok (verify_envelope X e))
      (map se_envelope (drop since (queue_of (node_id_hex X j) (ms_store svc)))) \<and>
    fn_services w1 = fn_services w \<and> net_up w1"
proof -
  let ?H = "fake_handle X cid rnd dbs dbr (node_id_of X j)"
    and ?es = "map se_envelope (drop since (queue_of (node_id_hex X j) (ms_store svc)))"
  from memory.drain_result [where cid = cid and rnd = rnd and dbg_string = dbs and dbg_reply = dbr, OF _ _ _ _ _ assms(2,3,4,5,6,7)]
    assms(1) [unfolded crates_ok_def]
  obtain w1 where "drain_inbox X ?H c mailbox since grant w =
      (Inr (fst (compose_messages X ?H c ?es w1), length (queue_of (node_id_hex X j) (ms_store svc))), w1)"
    "fmlookup (fn_services w1) = fmlookup (fn_services w)" "net_up w1" by blast
  moreover from this have "fn_services w1 = fn_services w" by (simp add: fmlookup_inject)
  ultimately show ?thesis using compose_messages_envelopes [of X ?H c ?es w1] by blast
qed

text \<open>C28: a later \<open>inbox\<close> resumes where the last one stopped: after a successful listing without \<open>--ack\<close>,
  when the mailbox's queue has only grown since and the sender texts of the new messages can be cut for
  the listing, the next listing of the reachable mailbox shows exactly the authentic ones among the
  new messages, in order, and saves them for \<open>read\<close>.\<close>

theorem inbox_resumes:
  assumes "crates_ok X" and "mc_identity c = j" and "ok_grant grant" and "list_start since files < usize_limit"
    and "net_up w" and "fmlookup (fn_services w) mailbox = Some svc" and "service_typed svc"
    and first: "inbox_command X (fake_handle X cid rnd dbs dbr (node_id_of X j)) c mailbox since grant False we files w =
      Returned (Inr (), lines, files1, w1)"
    and "net_up w2" and "fmlookup (fn_services w2) mailbox = Some svc2" and "service_typed svc2"
    and grown: "queue_of (node_id_hex X j) (ms_store svc2) = queue_of (node_id_hex X j) (ms_store svc) @ new"
    and "\<forall>x \<in> set new. truncate_text (eb_from (en_body (se_envelope x))) 12 \<noteq> Panicked"
  shows "\<exists>msgs lines2 files2 w3.
    inbox_command X (fake_handle X cid rnd dbs dbr (node_id_of X j)) c mailbox None grant False ok_writes files1 w2 =
      Returned (Inr (), lines2, files2, w3) \<and>
    print_inbox X msgs = Returned lines2 \<and> lf_snapshot files2 = Some (map (snap_message X) msgs) \<and>
    map msg_envelope msgs = filter (\<lambda>e. is_ok (verify_envelope X e)) (map se_envelope new)"
proof -
  let ?H = "fake_handle X cid rnd dbs dbr (node_id_of X j)" and ?q = "queue_of (node_id_hex X j) (ms_store svc)"
  obtain d w' where "drain_inbox X ?H c mailbox (list_start since files) grant w = (Inr (d, length ?q), w')"
    using memory_drain [OF assms(1,5,6,7,2,4,3)] by blast
  with first have files1: "lf_cursor files1 = Some (show_nat (length ?q))"
    by (auto elim!: inbox_command_result)
  have len: "length ?q < usize_limit" by (rule service_typedD(3) [OF assms(7)])
  have start: "list_start None files1 = length ?q" using cursor_of_show [OF len files1] by simp
  obtain msgs w3 where d: "drain_inbox X ?H c mailbox (length ?q) grant w2 =
        (Inr (msgs, length (queue_of (node_id_hex X j) (ms_store svc2))), w3)"
    and m: "map msg_envelope msgs = filter (\<lambda>e. is_ok (verify_envelope X e)) (map se_envelope new)"
    using memory_drain [OF assms(1,9,10,11,2) len assms(3)] unfolding grown by fastforce
  have "truncate_text (eb_from (en_body (msg_envelope x))) 12 \<noteq> Panicked" if "x \<in> set msgs" for x
  proof -
    have "msg_envelope x \<in> set (map msg_envelope msgs)" using that by simp
    then show ?thesis unfolding m using assms(13) by auto
  qed
  then have "print_inbox X msgs \<noteq> Panicked"
    using message_lines_panic [of X msgs] assms(1) by (auto simp: print_inbox_def crates_ok_def)
  then obtain lines2 where "print_inbox X msgs = Returned lines2" by (cases "print_inbox X msgs") auto
  with inbox_command_run [OF d [folded start], of lines2 False] m show ?thesis by auto
qed

text \<open>A network of Bob's mailbox alone, before and after one message.\<close>

definition one_mail_service :: MailService where
  "one_mail_service = bobs_service\<lparr>ms_store :=
     push_envelope sample bob_hex \<lparr>se_envelope = sample_mail 5, se_stored_at = 10\<rparr> (ms_store bobs_service)\<rparr>"

definition one_mail_net :: FakeNet where
  "one_mail_net = install_service mailbox_hex one_mail_service new_net"

lemma inbox_nets:
  "net_up sample_net" "net_up one_mail_net" "mc_identity bob_client = bob" "ok_grant []"
  "fmlookup (fn_services sample_net) mailbox_hex = Some bobs_service"
  "fmlookup (fn_services one_mail_net) mailbox_hex = Some one_mail_service"
  "list_start None fresh_files < usize_limit"
  by (simp_all add: sample_net_def one_mail_net_def install_service_def new_net_def bob_client_def new_client_def
      ok_grant_def fresh_files_def read_cursor_def usize_limit_def)

lemma one_mail_service_typed: "service_typed one_mail_service"
  unfolding one_mail_service_def by (rule push_envelope_typed [OF bobs_service_typed]) (simp add: sample_mail_ok)

lemma inbox_queues:
  "queue_of (node_id_hex sample bob) (ms_store bobs_service) = []"
  "queue_of (node_id_hex sample bob) (ms_store one_mail_service) = [\<lparr>se_envelope = sample_mail 5, se_stored_at = 10\<rparr>]"
proof -
  show empty: "queue_of (node_id_hex sample bob) (ms_store bobs_service) = []"
    by (simp add: bobs_service_def with_limits_def sample_store_def new_store_def)
  have "stored_id sample \<lparr>se_envelope = sample_mail 5, se_stored_at = 10\<rparr> \<notin> seen_of bob_hex (ms_store bobs_service)"
    "mb_capacity (ms_store bobs_service) = 2"
    by (simp_all add: bobs_service_def with_limits_def sample_store_def new_store_def)
  with empty inbox.push_items [where X = sample and r = bob_hex and s = "ms_store bobs_service"
      and x = "\<lparr>se_envelope = sample_mail 5, se_stored_at = 10\<rparr>"]
  show "queue_of (node_id_hex sample bob) (ms_store one_mail_service) = [\<lparr>se_envelope = sample_mail 5, se_stored_at = 10\<rparr>]"
    by (simp add: one_mail_service_def bob_hex_def keep_last_def)
qed

lemma alice_prints: "truncate_text (eb_from (en_body (sample_mail t))) 12 \<noteq> Panicked"
proof -
  have "eb_from (en_body (sample_mail t)) = node_id_hex sample alice"
    by (simp add: sample_mail_def seal_envelope_def Let_def)
  with node_hex_digits [OF sample_identity_ok sample_hex_ok, of alice] hex_boundary [of "node_id_hex sample alice" 12]
  show ?thesis by (simp add: truncate_text_def slice_to_def)
qed

lemma first_listing:
  "\<exists>files1 w1. inbox_command sample (sample_handle (node_id_of sample bob)) bob_client mailbox_hex None [] False
     ok_writes fresh_files sample_net = Returned (Inr (), [''(no new messages)''], files1, w1)"
proof -
  obtain msgs n w1 where d: "drain_inbox sample (sample_handle (node_id_of sample bob)) bob_client mailbox_hex
      (list_start None fresh_files) [] sample_net = (Inr (msgs, n), w1)" "map msg_envelope msgs = []"
    using memory_drain [OF sample_crates_ok inbox_nets(1,5) bobs_service_typed inbox_nets(3,7,4)]
    unfolding sample_handle_def by (fastforce simp: inbox_queues)
  then have "print_inbox sample msgs = Returned [''(no new messages)'']" by (simp add: print_inbox_def)
  from inbox_command_run [OF d(1) this, of False] show ?thesis by simp
qed

lemma inbox_resumes_witness:
  "\<exists>files1 w1 lines files2 w3.
    inbox_command sample (sample_handle (node_id_of sample bob)) bob_client mailbox_hex None [] False
      ok_writes fresh_files sample_net = Returned (Inr (), [''(no new messages)''], files1, w1) \<and>
    inbox_command sample (sample_handle (node_id_of sample bob)) bob_client mailbox_hex None [] False
      ok_writes files1 one_mail_net = Returned (Inr (), lines, files2, w3) \<and>
    map_option length (lf_snapshot files2) = Some 1"
proof -
  obtain files1 w1 where first: "inbox_command sample (sample_handle (node_id_of sample bob)) bob_client mailbox_hex
      None [] False ok_writes fresh_files sample_net = Returned (Inr (), [''(no new messages)''], files1, w1)"
    using first_listing by blast
  have ex: "\<exists>msgs lines2 files2 w3.
      inbox_command sample (sample_handle (node_id_of sample bob)) bob_client mailbox_hex None [] False
        ok_writes files1 one_mail_net = Returned (Inr (), lines2, files2, w3) \<and>
      print_inbox sample msgs = Returned lines2 \<and> lf_snapshot files2 = Some (map (snap_message sample) msgs) \<and>
      map msg_envelope msgs = filter (\<lambda>e. is_ok (verify_envelope sample e))
        (map se_envelope [\<lparr>se_envelope = sample_mail 5, se_stored_at = 10\<rparr>])"
    unfolding sample_handle_def
    by (rule inbox_resumes [OF sample_crates_ok inbox_nets(3,4,7,1,5) bobs_service_typed
      first [unfolded sample_handle_def] inbox_nets(2,6) one_mail_service_typed])
      (use alice_prints inbox_queues in auto)
  have shown: "filter (\<lambda>e. is_ok (verify_envelope sample e))
      (map se_envelope [\<lparr>se_envelope = sample_mail 5, se_stored_at = 10\<rparr>]) = [sample_mail 5]"
    using sample_mail_verifies by simp
  from ex [unfolded shown] obtain msgs lines2 files2 w3 where
    "inbox_command sample (sample_handle (node_id_of sample bob)) bob_client mailbox_hex None [] False
      ok_writes files1 one_mail_net = Returned (Inr (), lines2, files2, w3)"
    "lf_snapshot files2 = Some (map (snap_message sample) msgs)" "map msg_envelope msgs = [sample_mail 5]"
    by (elim exE conjE) (rule that)
  moreover from this(3) have "length msgs = 1" by auto
  ultimately show ?thesis using first by auto
qed

text \<open>C40: but \<open>inbox --ack\<close> leaves a cursor past what it removed: the mailbox's queue starts again at
  position 0, so as long as no more messages have come than were listed before, the next \<open>inbox\<close> says
  that there are none, empties the snapshot \<open>read\<close> works on, and moves the cursor past them.\<close>

theorem ack_then_inbox_skips:
  assumes "crates_ok X" and "mc_identity c = j" and "ok_grant grant" and "list_start since files < usize_limit"
    and "net_up w" and "fmlookup (fn_services w) mailbox = Some svc" and "service_typed svc"
    and "list_start since files < pending_count (node_id_hex X j) (ms_store svc)"
    and first: "inbox_command X (fake_handle X cid rnd dbs dbr (node_id_of X j)) c mailbox since grant True we files w =
      Returned (Inr (), lines, files1, w1)"
    and "net_up w2" and "fmlookup (fn_services w2) mailbox = Some svc2" and "service_typed svc2"
    and few: "pending_count (node_id_hex X j) (ms_store svc2) \<le> pending_count (node_id_hex X j) (ms_store svc)"
  shows "(\<exists>svc1. fmlookup (fn_services w1) mailbox = Some svc1 \<and> pending_count (node_id_hex X j) (ms_store svc1) = 0) \<and>
    (\<exists>files2 w3. inbox_command X (fake_handle X cid rnd dbs dbr (node_id_of X j)) c mailbox None grant do_ack ok_writes files1 w2 =
        Returned (Inr (), [''(no new messages)''], files2, w3) \<and>
      lf_snapshot files2 = Some [] \<and> fn_services w3 = fn_services w2 \<and>
      read_cursor files2 = pending_count (node_id_hex X j) (ms_store svc2))"
proof -
  let ?H = "fake_handle X cid rnd dbs dbr (node_id_of X j)" and ?r = "node_id_hex X j"
  have count: "pending_count ?r s = length (queue_of ?r s)" for s
    by (simp add: pending_count_def fm_get_def split: option.splits)
  let ?n = "length (queue_of ?r (ms_store svc))" and ?k = "length (queue_of ?r (ms_store svc2))"
  have n: "?n < usize_limit" and k: "?k < usize_limit" by (rule service_typedD(3) [OF assms(7)] service_typedD(3) [OF assms(12)])+
  obtain d w' where D: "drain_inbox X ?H c mailbox (list_start since files) grant w = (Inr (d, ?n), w')"
    "fn_services w' = fn_services w" "net_up w'"
    using memory_drain [OF assms(1,5,6,7,2,4,3)] by blast
  from first have files1: "lf_cursor files1 = Some (show_nat ?n)"
    and a: "\<exists>r. ack_inbox X ?H c mailbox ?n grant w' = (Inr r, w1)"
    using D(1) assms(8) by (auto simp: count elim!: inbox_command_result)
  have "fmlookup (fn_services w') mailbox = Some svc" using D(2) assms(6) by simp
  from memory.ack_result [where cid = cid and rnd = rnd and dbg_string = dbs and dbg_reply = dbr,
      OF _ _ _ _ _ D(3) this assms(7,2) n assms(3)] assms(1) [unfolded crates_ok_def] a
  have "fmlookup (fn_services w1) mailbox = Some (svc\<lparr>ms_store := snd (ack ?r ?n (ms_store svc))\<rparr>)" by fastforce
  then have removed: "\<exists>svc1. fmlookup (fn_services w1) mailbox = Some svc1 \<and> pending_count ?r (ms_store svc1) = 0"
    by (simp add: count inbox.ack_items)
  have start: "list_start None files1 = ?n" using cursor_of_show [OF n files1] by simp
  obtain msgs w3 where d: "drain_inbox X ?H c mailbox ?n grant w2 = (Inr (msgs, ?k), w3)"
    "map msg_envelope msgs = []" "fn_services w3 = fn_services w2"
    using memory_drain [OF assms(1,10,11,12,2) n assms(3)] few by (fastforce simp: count)
  have "print_inbox X msgs = Returned [''(no new messages)'']" using d(2) by (simp add: print_inbox_def)
  from inbox_command_run [OF d(1) [folded start] this, of do_ack] start few d(2,3) cursor_of_show [OF k] removed
  show ?thesis by (auto simp: count)
qed

lemma ack_then_inbox_skips_witness:
  "\<exists>lines files1 w1 files2 w3.
    inbox_command sample (sample_handle (node_id_of sample bob)) bob_client mailbox_hex None [] True
      ok_writes fresh_files one_mail_net = Returned (Inr (), lines, files1, w1) \<and>
    inbox_command sample (sample_handle (node_id_of sample bob)) bob_client mailbox_hex None [] True
      ok_writes files1 one_mail_net = Returned (Inr (), [''(no new messages)''], files2, w3)"
proof -
  let ?H = "sample_handle (node_id_of sample bob)"
  have count: "pending_count (node_id_hex sample bob) (ms_store one_mail_service) = 1"
    using inbox_queues(2) by (simp add: pending_count_def fm_get_def split: option.splits)
  have start: "list_start None fresh_files = 0" by (simp add: fresh_files_def read_cursor_def)
  obtain msgs w1 where d: "drain_inbox sample ?H bob_client mailbox_hex (list_start None fresh_files) [] one_mail_net =
      (Inr (msgs, 1), w1)" "map msg_envelope msgs = [sample_mail 5]"
      "fn_services w1 = fn_services one_mail_net" "net_up w1"
    using memory_drain [OF sample_crates_ok inbox_nets(2,6) one_mail_service_typed inbox_nets(3,7,4)] start
      sample_mail_verifies
    unfolding sample_handle_def by (fastforce simp: inbox_queues)
  have "print_inbox sample msgs \<noteq> Panicked"
    using d(2) alice_prints message_lines_panic [OF sample_hex_ok, of msgs] by (auto simp: print_inbox_def)
  then obtain lines where p: "print_inbox sample msgs = Returned lines" by (cases "print_inbox sample msgs") auto
  have "fmlookup (fn_services w1) mailbox_hex = Some one_mail_service" using d(3) inbox_nets(6) by simp
  from memory.ack_result [where X = sample and cid = s_cid and rnd = of_nat and dbg_string = id and
      dbg_reply = "\<lambda>_. ''reply''", OF _ _ _ _ _ d(4) this one_mail_service_typed inbox_nets(3) _ inbox_nets(4), of 1]
    sample_crates_ok
  obtain k w2 where a: "ack_inbox sample ?H bob_client mailbox_hex 1 [] w1 = (Inr k, w2)"
    unfolding sample_handle_def crates_ok_def by (auto simp: usize_limit_def)
  from d(1) p a start obtain files1 where first: "inbox_command sample ?H bob_client mailbox_hex None [] True
      ok_writes fresh_files one_mail_net = Returned (Inr (), lines, files1, w2)"
    by (simp add: inbox_command_def list_start_def [symmetric] Let_def save_snapshot_def write_cursor_def ok_writes_def)
  from ack_then_inbox_skips [OF sample_crates_ok inbox_nets(3,4,7,2,6) one_mail_service_typed _
      first [unfolded sample_handle_def] inbox_nets(2,6) one_mail_service_typed, of True] count start
  show ?thesis using first unfolding sample_handle_def by fastforce
qed

end
