(* ===== verification/Shared_Mailbox.thy ===== *)
theory Shared_Mailbox
  imports Mailbox_Format "HOL-Library.Multiset"
begin

text \<open>
  The store behind a lock (src/src/mailbox.rs, \<open>SharedMailbox\<close>): every operation takes the lock, works on
  the store and puts it back; a panic inside poisons the lock for good. Threads are programs of such
  operations, which they run in small steps that interleave: take the mutex, read the shared value,
  write the result back, release. The specification is the plain store with no lock, run one
  operation after the other. The lemmas derive mutual exclusion from the mutex word alone, and from it that
  every execution is a sequential one of the plain store.
\<close>

section \<open>The operations\<close>

record SharedMailbox =
  sh_store :: MailboxStore
  sh_poisoned :: bool

lemma same_store [simp]: "sh\<lparr>sh_store := sh_store sh\<rparr> = sh"
  by simp

definition new_shared :: "MailboxStore \<Rightarrow> SharedMailbox" where
  "new_shared store = \<lparr>sh_store = store, sh_poisoned = False\<rparr>"

definition with_lock ::
  "(MailboxStore \<Rightarrow> ('r \<times> MailboxStore) outcome) \<Rightarrow> SharedMailbox \<Rightarrow> 'r result outcome \<times> SharedMailbox" where
  "with_lock f sh =
     (if sh_poisoned sh then (Returned (Inl ''mailbox lock poisoned''), sh)
      else case f (sh_store sh) of
          Returned (r, store) \<Rightarrow> (Returned (Inr r), sh\<lparr>sh_store := store\<rparr>)
        | Panicked \<Rightarrow> (Panicked, sh\<lparr>sh_poisoned := True\<rparr>))"

text \<open>The \<open>?\<close> after a \<open>with\<close> whose closure is fallible itself.\<close>

definition flatten_lock :: "'r result result outcome \<times> SharedMailbox \<Rightarrow> 'r result outcome \<times> SharedMailbox" where
  "flatten_lock = map_prod (map_outcome_to (\<lambda>r. try_bind r (\<lambda>x. x))) id"

definition shared_accept ::
  "('i, 'c) crates \<Rightarrow> Envelope \<Rightarrow> u64 \<Rightarrow> SharedMailbox \<Rightarrow> Accepted result outcome \<times> SharedMailbox" where
  "shared_accept X envelope now sh =
     flatten_lock (with_lock (\<lambda>s. Returned (accept X envelope now s)) sh)"

definition shared_ack :: "string \<Rightarrow> nat \<Rightarrow> SharedMailbox \<Rightarrow> nat result outcome \<times> SharedMailbox" where
  "shared_ack recipient_hex up_to_cursor sh = with_lock (\<lambda>s. Returned (ack recipient_hex up_to_cursor s)) sh"

definition shared_read_page ::
  "string \<Rightarrow> nat \<Rightarrow> nat \<Rightarrow> SharedMailbox \<Rightarrow> (StoredEnvelope list \<times> nat \<times> bool) result outcome \<times> SharedMailbox" where
  "shared_read_page recipient_hex since limit sh =
     with_lock (\<lambda>s. map_outcome_to (\<lambda>p. (p, s)) (read_page recipient_hex since limit s)) sh"

definition shared_pending_count :: "string \<Rightarrow> SharedMailbox \<Rightarrow> nat result outcome \<times> SharedMailbox" where
  "shared_pending_count recipient_hex sh = with_lock (\<lambda>s. Returned (pending_count recipient_hex s, s)) sh"

definition shared_to_bytes ::
  "('i, 'c) crates \<Rightarrow> StoredEnvelope table_order \<Rightarrow> Receipt table_order \<Rightarrow> SharedMailbox \<Rightarrow>
   bytes result outcome \<times> SharedMailbox" where
  "shared_to_bytes X oq ors sh =
     flatten_lock (with_lock (\<lambda>s. Returned (try_to_bytes X oq ors s, s)) sh)"

section \<open>Threads\<close>

datatype store_op =
  OpAccept Envelope u64
| OpAck string nat
| OpPage string nat nat
| OpCount string
| OpBytes

datatype answer =
  Told Accepted
| Removed nat
| PageOf "StoredEnvelope list \<times> nat \<times> bool"
| Count nat
| Saved bytes

definition answered :: "('r \<Rightarrow> answer) \<Rightarrow> 'r result outcome \<times> SharedMailbox \<Rightarrow> answer result outcome \<times> SharedMailbox" where
  "answered f = map_prod (map_outcome_to (map_sum id f)) id"

fun shared_call ::
  "('i, 'c) crates \<Rightarrow> StoredEnvelope table_order \<Rightarrow> Receipt table_order \<Rightarrow> store_op \<Rightarrow> SharedMailbox \<Rightarrow>
   answer result outcome \<times> SharedMailbox" where
  "shared_call X oq ors (OpAccept e now) sh = answered Told (shared_accept X e now sh)"
| "shared_call X oq ors (OpAck r n) sh = answered Removed (shared_ack r n sh)"
| "shared_call X oq ors (OpPage r since limit) sh = answered PageOf (shared_read_page r since limit sh)"
| "shared_call X oq ors (OpCount r) sh = answered Count (shared_pending_count r sh)"
| "shared_call X oq ors OpBytes sh = answered Saved (shared_to_bytes X oq ors sh)"

text \<open>
  The mutex is one word, taken when it is found free (the standard library's compare and exchange) and
  cleared on release; nothing else of it is assumed. A thread that has taken it reads the shared
  value, computes on its own copy, writes the copy back and releases, in separate steps that check
  nothing but the thread's own progress, so other threads may move in between. A panic is caught by the caller, as
  the runtime of the service does for a task.
\<close>

datatype phase =
  Outside
| Entered
| Working SharedMailbox
| Leaving

record threads_state =
  cs_shared :: SharedMailbox
  cs_locked :: bool
  cs_phase :: "nat \<Rightarrow> phase"
  cs_todo :: "nat \<Rightarrow> store_op list"
  cs_log :: "(nat \<times> store_op \<times> answer result outcome) list"

definition start_threads :: "SharedMailbox \<Rightarrow> (nat \<Rightarrow> store_op list) \<Rightarrow> threads_state" where
  "start_threads sh progs =
     \<lparr>cs_shared = sh, cs_locked = False, cs_phase = (\<lambda>_. Outside), cs_todo = progs, cs_log = []\<rparr>"

text \<open>The log grows when a result is written back.\<close>

inductive thread_step ::
  "('i, 'c) crates \<Rightarrow> StoredEnvelope table_order \<Rightarrow> Receipt table_order \<Rightarrow> threads_state \<Rightarrow> threads_state \<Rightarrow> bool"
  for X oq ors where
  lock: "cs_phase c t = Outside \<Longrightarrow> cs_todo c t \<noteq> [] \<Longrightarrow> \<not> cs_locked c \<Longrightarrow>
    thread_step X oq ors c (c\<lparr>cs_locked := True, cs_phase := (cs_phase c)(t := Entered)\<rparr>)"
| load: "cs_phase c t = Entered \<Longrightarrow>
    thread_step X oq ors c (c\<lparr>cs_phase := (cs_phase c)(t := Working (cs_shared c))\<rparr>)"
| put_back: "cs_phase c t = Working found \<Longrightarrow> cs_todo c t = op # ops \<Longrightarrow> shared_call X oq ors op found = (r, sh) \<Longrightarrow>
    thread_step X oq ors c
      (c\<lparr>cs_shared := sh, cs_phase := (cs_phase c)(t := Leaving), cs_todo := (cs_todo c)(t := ops),
         cs_log := cs_log c @ [(t, op, r)]\<rparr>)"
| unlock: "cs_phase c t = Leaving \<Longrightarrow>
    thread_step X oq ors c (c\<lparr>cs_locked := False, cs_phase := (cs_phase c)(t := Outside)\<rparr>)"

abbreviation thread_steps ::
  "('i, 'c) crates \<Rightarrow> StoredEnvelope table_order \<Rightarrow> Receipt table_order \<Rightarrow> threads_state \<Rightarrow> threads_state \<Rightarrow> bool" where
  "thread_steps X oq ors \<equiv> (thread_step X oq ors)\<^sup>*\<^sup>*"

text \<open>What a log says: the operations in order, a thread's own, and the results.\<close>

definition log_ops :: "(nat \<times> store_op \<times> answer result outcome) list \<Rightarrow> store_op list" where
  "log_ops l = map (\<lambda>(t, op, r). op) l"

definition log_results :: "(nat \<times> store_op \<times> answer result outcome) list \<Rightarrow> answer result outcome list" where
  "log_results l = map (\<lambda>(t, op, r). r) l"

definition thread_ops :: "nat \<Rightarrow> (nat \<times> store_op \<times> answer result outcome) list \<Rightarrow> store_op list" where
  "thread_ops t l = log_ops (filter (\<lambda>e. fst e = t) l)"

lemma log_simps [simp]:
  "log_ops [] = []" "log_ops (l @ [(t, op, r)]) = log_ops l @ [op]"
  "log_results [] = []" "log_results (l @ [(t, op, r)]) = log_results l @ [r]"
  "thread_ops t' [] = []" "thread_ops t' (l @ [(t, op, r)]) = (if t = t' then thread_ops t' l @ [op] else thread_ops t' l)"
  by (simp_all add: log_ops_def log_results_def thread_ops_def)

section \<open>The sequential store\<close>

text \<open>
  The specification knows no lock: an operation is the one of \<open>MailboxStore\<close>, and a panic leaves the
  store as it is.
\<close>

fun store_call ::
  "('i, 'c) crates \<Rightarrow> StoredEnvelope table_order \<Rightarrow> Receipt table_order \<Rightarrow> store_op \<Rightarrow> MailboxStore \<Rightarrow>
   (answer result \<times> MailboxStore) outcome" where
  "store_call X oq ors (OpAccept e now) s = Returned (apfst (map_sum id Told) (accept X e now s))"
| "store_call X oq ors (OpAck r n) s = Returned (apfst (\<lambda>k. Inr (Removed k)) (ack r n s))"
| "store_call X oq ors (OpPage r since limit) s =
     map_outcome_to (\<lambda>p. (Inr (PageOf p), s)) (read_page r since limit s)"
| "store_call X oq ors (OpCount r) s = Returned (Inr (Count (pending_count r s)), s)"
| "store_call X oq ors OpBytes s = Returned (map_sum id Saved (try_to_bytes X oq ors s), s)"

text \<open>Operations one after the other: their results, the store they leave, and whether one panicked,
  after which every operation is refused.\<close>

fun store_calls ::
  "('i, 'c) crates \<Rightarrow> StoredEnvelope table_order \<Rightarrow> Receipt table_order \<Rightarrow> store_op list \<Rightarrow> MailboxStore \<Rightarrow>
   answer result outcome list \<times> MailboxStore \<times> bool" where
  "store_calls X oq ors [] s = ([], s, False)"
| "store_calls X oq ors (op # ops) s =
     (case store_call X oq ors op s of
        Returned (r, s') \<Rightarrow> apfst ((#) (Returned r)) (store_calls X oq ors ops s')
      | Panicked \<Rightarrow> (Panicked # map (\<lambda>_. Returned (Inl ''mailbox lock poisoned'')) ops, s, True))"

text \<open>The locked operations implement it.\<close>

lemma shared_call_store:
  "shared_call X oq ors op sh =
     (if sh_poisoned sh then (Returned (Inl ''mailbox lock poisoned''), sh)
      else case store_call X oq ors op (sh_store sh) of
          Returned (r, s') \<Rightarrow> (Returned r, sh\<lparr>sh_store := s'\<rparr>)
        | Panicked \<Rightarrow> (Panicked, sh\<lparr>sh_poisoned := True\<rparr>))"
  by (cases op) (auto simp: answered_def flatten_lock_def shared_accept_def shared_ack_def shared_read_page_def
      shared_pending_count_def shared_to_bytes_def with_lock_def map_sum_def apfst_def
      split: outcome.splits prod.splits sum.splits)

lemma store_calls_snoc:
  "store_calls X oq ors (ops @ [op]) s =
     (case store_calls X oq ors ops s of (rs, s', poisoned) \<Rightarrow>
        if poisoned then (rs @ [Returned (Inl ''mailbox lock poisoned'')], s', True)
        else case store_call X oq ors op s' of
            Returned (r, s'') \<Rightarrow> (rs @ [Returned r], s'', False)
          | Panicked \<Rightarrow> (rs @ [Panicked], s', True))"
  by (induction ops arbitrary: s) (auto split: outcome.splits prod.splits)

lemma mailbox_results_ok:
  "accept X e now s = (r, s') \<Longrightarrow> mailbox_ok X s \<Longrightarrow> mailbox_ok X s'"
  "ack name n s = (k, s') \<Longrightarrow> mailbox_ok X s \<Longrightarrow> mailbox_ok X s'"
  using accept_ok ack_ok by (metis snd_conv)+

lemma store_call_ok:
  "store_call X oq ors op s = Returned (r, s') \<Longrightarrow> mailbox_ok X s \<Longrightarrow> mailbox_ok X s'"
  by (cases op) (auto simp: apfst_def map_prod_def split: prod.splits outcome.splits intro: mailbox_results_ok)

lemma store_calls_ok:
  "store_calls X oq ors ops s = (rs, s', poisoned) \<Longrightarrow> mailbox_ok X s \<Longrightarrow> mailbox_ok X s'"
  by (induction ops arbitrary: s rs) (auto simp: apfst_def map_prod_def split: prod.splits outcome.splits dest: store_call_ok)

section \<open>Every execution is sequential\<close>

text \<open>A taken mutex has exactly one thread inside, and the shared value is still the one that thread read.\<close>

definition mutex_inv :: "threads_state \<Rightarrow> bool" where
  "mutex_inv c \<longleftrightarrow>
     (if cs_locked c
      then \<exists>t. cs_phase c = (\<lambda>_. Outside)(t := cs_phase c t) \<and>
        (cs_phase c t = Leaving \<or> cs_todo c t \<noteq> [] \<and> cs_phase c t \<in> {Entered, Working (cs_shared c)})
      else cs_phase c = (\<lambda>_. Outside))"

lemma mutex_inside:
  assumes "mutex_inv c" and "cs_phase c t \<noteq> Outside"
  shows "cs_locked c" and "cs_phase c = (\<lambda>_. Outside)(t := cs_phase c t)"
    and "cs_phase c t = Leaving \<or> cs_todo c t \<noteq> [] \<and> cs_phase c t \<in> {Entered, Working (cs_shared c)}"
proof -
  show locked: "cs_locked c" using assms by (auto simp: mutex_inv_def split: if_splits)
  then obtain u where u: "cs_phase c = (\<lambda>_. Outside)(u := cs_phase c u)"
    "cs_phase c u = Leaving \<or> cs_todo c u \<noteq> [] \<and> cs_phase c u \<in> {Entered, Working (cs_shared c)}"
    using assms(1) unfolding mutex_inv_def by auto
  moreover have "t = u" using assms(2) u(1) by (metis fun_upd_other)
  ultimately show "cs_phase c = (\<lambda>_. Outside)(t := cs_phase c t)"
    "cs_phase c t = Leaving \<or> cs_todo c t \<noteq> [] \<and> cs_phase c t \<in> {Entered, Working (cs_shared c)}"
    by simp_all
qed

lemma mutex_inv_insideI:
  "cs_locked c \<Longrightarrow> cs_phase c = (\<lambda>_. Outside)(t := p) \<Longrightarrow>
    p = Leaving \<or> cs_todo c t \<noteq> [] \<and> p \<in> {Entered, Working (cs_shared c)} \<Longrightarrow> mutex_inv c"
  unfolding mutex_inv_def by (simp add: exI [of _ t])

lemma mutex_inv_start: "mutex_inv (start_threads sh progs)"
  by (simp add: mutex_inv_def start_threads_def)

lemma mutex_inv_step:
  assumes "thread_step X oq ors c c'" and "mutex_inv c"
  shows "mutex_inv c'"
  using assms(1)
proof (cases rule: thread_step.cases)
  case (lock t)
  with assms(2) show ?thesis by (intro mutex_inv_insideI [of _ t Entered]) (simp_all add: mutex_inv_def)
next
  case (load t)
  with mutex_inside [OF assms(2), of t] show ?thesis
    by (intro mutex_inv_insideI [of _ t "Working (cs_shared c)"]) (auto simp: fun_eq_iff)
next
  case (put_back t found op ops r sh)
  with mutex_inside [OF assms(2), of t] show ?thesis
    by (intro mutex_inv_insideI [of _ t Leaving]) (auto simp: fun_eq_iff)
next
  case (unlock t)
  with mutex_inside [OF assms(2), of t] show ?thesis by (auto simp: mutex_inv_def fun_eq_iff)
qed

text \<open>What was written so far is the sequential store's doing, and every thread is where its program says.\<close>

definition threads_inv ::
  "('i, 'c) crates \<Rightarrow> StoredEnvelope table_order \<Rightarrow> Receipt table_order \<Rightarrow> MailboxStore \<Rightarrow> (nat \<Rightarrow> store_op list) \<Rightarrow>
   threads_state \<Rightarrow> bool" where
  "threads_inv X oq ors s progs c \<longleftrightarrow>
     store_calls X oq ors (log_ops (cs_log c)) s =
       (log_results (cs_log c), sh_store (cs_shared c), sh_poisoned (cs_shared c)) \<and>
     (\<forall>t. thread_ops t (cs_log c) @ cs_todo c t = progs t)"

lemma threads_inv_start: "threads_inv X oq ors s progs (start_threads (new_shared s) progs)"
  by (simp add: threads_inv_def start_threads_def new_shared_def)

lemma threads_inv_step:
  assumes "thread_step X oq ors c c'" and "mutex_inv c" and "threads_inv X oq ors s progs c"
  shows "threads_inv X oq ors s progs c'"
  using assms(1)
proof (cases rule: thread_step.cases)
  case (put_back t found op ops r sh)
  then have "shared_call X oq ors op (cs_shared c) = (r, sh)" using mutex_inside(3) [OF assms(2), of t] by auto
  then have "store_calls X oq ors (log_ops (cs_log c) @ [op]) s =
      (log_results (cs_log c) @ [r], sh_store sh, sh_poisoned sh)"
    using assms(3)
    by (auto simp: threads_inv_def store_calls_snoc shared_call_store split: if_splits outcome.splits prod.splits)
  moreover have "thread_ops t (cs_log c) @ op # ops = progs t"
    using assms(3) put_back(3) unfolding threads_inv_def by metis
  ultimately show ?thesis using assms(3) put_back by (auto simp: threads_inv_def)
qed (use assms(3) in \<open>simp_all add: threads_inv_def\<close>)

text \<open>The steps an execution has taken: four for each operation written back, less the release still to come, and
  those of the one inside.\<close>

fun phase_steps :: "phase \<Rightarrow> int" where
  "phase_steps Outside = 0"
| "phase_steps Entered = 1"
| "phase_steps (Working found) = 2"
| "phase_steps Leaving = -1"

definition steps_inv :: "nat \<Rightarrow> threads_state \<Rightarrow> bool" where
  "steps_inv n c \<longleftrightarrow>
     (if cs_locked c
      then \<forall>t. cs_phase c t \<noteq> Outside \<longrightarrow> int n = 4 * int (length (cs_log c)) + phase_steps (cs_phase c t)
      else n = 4 * length (cs_log c))"

lemma steps_inside:
  "mutex_inv c \<Longrightarrow> steps_inv n c \<Longrightarrow> cs_phase c t \<noteq> Outside \<Longrightarrow>
    int n = 4 * int (length (cs_log c)) + phase_steps (cs_phase c t)"
  using mutex_inside(1) [of c t] by (simp add: steps_inv_def)

lemma steps_inv_step:
  assumes "thread_step X oq ors c c'" and "mutex_inv c" and "steps_inv n c"
  shows "steps_inv (Suc n) c'"
  using assms(1)
proof (cases rule: thread_step.cases)
  case (lock t)
  with assms(2,3) show ?thesis by (simp add: steps_inv_def mutex_inv_def)
next
  case (load t)
  with mutex_inside(1,2) [OF assms(2), of t] steps_inside [OF assms(2,3), of t] show ?thesis
    by (auto simp: steps_inv_def fun_eq_iff)
next
  case (put_back t found op ops r sh)
  with mutex_inside(1,2) [OF assms(2), of t] steps_inside [OF assms(2,3), of t] show ?thesis
    by (auto simp: steps_inv_def fun_eq_iff)
next
  case (unlock t)
  with mutex_inside(1,2) [OF assms(2), of t] steps_inside [OF assms(2,3), of t] show ?thesis
    by (auto simp: steps_inv_def fun_eq_iff)
qed

lemma steps_bound:
  assumes "mutex_inv c" and "steps_inv n c"
  shows "n \<le> 4 * length (cs_log c) + 2"
proof (cases "cs_locked c")
  case True
  with assms(1) obtain t where t: "cs_phase c t \<noteq> Outside" by (auto simp: mutex_inv_def)
  from steps_inside [OF assms t] show ?thesis by (cases "cs_phase c t") simp_all
next
  case False
  with assms(2) show ?thesis by (simp add: steps_inv_def)
qed

lemma execution_invs:
  "((thread_step X oq ors) ^^ n) (start_threads (new_shared s) progs) c \<Longrightarrow>
    mutex_inv c \<and> threads_inv X oq ors s progs c \<and> steps_inv n c"
proof (induction n arbitrary: c)
  case 0
  then show ?case
    by (auto simp: mutex_inv_start threads_inv_start) (simp add: steps_inv_def start_threads_def)
next
  case (Suc n)
  from Suc.prems obtain c1 where "(thread_step X oq ors ^^ n) (start_threads (new_shared s) progs) c1"
    "thread_step X oq ors c1 c" by auto
  with Suc.IH show ?case using mutex_inv_step threads_inv_step steps_inv_step by blast
qed

lemma threads_inv_steps:
  "thread_steps X oq ors (start_threads (new_shared s) progs) c \<Longrightarrow> threads_inv X oq ors s progs c"
  using rtranclp_imp_relpowp execution_invs by metis

text \<open>No thread waits for ever, on a poisoned lock either: a step is possible until all are done.\<close>

lemma step_possible:
  assumes "mutex_inv c" and "cs_todo c t \<noteq> []"
  shows "\<exists>c'. thread_step X oq ors c c'"
proof (cases "cs_locked c")
  case False
  with assms show ?thesis using thread_step.lock [of c t X oq ors] by (auto simp: mutex_inv_def)
next
  case True
  with assms(1) obtain u where u: "cs_phase c u \<noteq> Outside" by (auto simp: mutex_inv_def)
  show ?thesis
  proof (cases "cs_phase c u")
    case (Working found)
    with mutex_inside(3) [OF assms(1) u] obtain op ops where todo: "cs_todo c u = op # ops"
      by (cases "cs_todo c u") auto
    obtain r sh where "shared_call X oq ors op found = (r, sh)" by (rule prod.exhaust)
    from thread_step.put_back [OF Working todo this] show ?thesis by blast
  qed (use u thread_step.load thread_step.unlock in blast)+
qed

text \<open>A thread that takes the mutex when all are outside finishes its operation.\<close>

lemma turn:
  assumes "cs_phase c = (\<lambda>_. Outside)" and "\<not> cs_locked c" and "cs_todo c t = op # ops"
    and "shared_call X oq ors op (cs_shared c) = (r, sh)"
  shows "thread_steps X oq ors c
    (c\<lparr>cs_shared := sh, cs_todo := (cs_todo c)(t := ops), cs_log := cs_log c @ [(t, op, r)]\<rparr>)"
proof -
  let ?c1 = "c\<lparr>cs_locked := True, cs_phase := (cs_phase c)(t := Entered)\<rparr>"
  let ?c2 = "?c1\<lparr>cs_phase := (cs_phase ?c1)(t := Working (cs_shared ?c1))\<rparr>"
  let ?c3 = "?c2\<lparr>cs_shared := sh, cs_phase := (cs_phase ?c2)(t := Leaving), cs_todo := (cs_todo ?c2)(t := ops),
    cs_log := cs_log ?c2 @ [(t, op, r)]\<rparr>"
  let ?c4 = "?c3\<lparr>cs_locked := False, cs_phase := (cs_phase ?c3)(t := Outside)\<rparr>"
  have "thread_step X oq ors c ?c1" by (rule thread_step.lock) (simp_all add: assms)
  moreover have "thread_step X oq ors ?c1 ?c2" by (rule thread_step.load) simp
  moreover have "thread_step X oq ors ?c2 ?c3" by (rule thread_step.put_back [where found = "cs_shared c"]) (simp_all add: assms)
  moreover have "thread_step X oq ors ?c3 ?c4" by (rule thread_step.unlock) simp
  ultimately have "thread_steps X oq ors c ?c4" by (meson rtranclp.rtrancl_into_rtrancl rtranclp.rtrancl_refl)
  moreover have "?c4 = c\<lparr>cs_shared := sh, cs_todo := (cs_todo c)(t := ops), cs_log := cs_log c @ [(t, op, r)]\<rparr>"
    using assms(1,2) by (cases c) (auto simp: fun_eq_iff)
  ultimately show ?thesis by simp
qed

end
