(* ===== verification/Shared_Properties.thy ===== *)
theory Shared_Properties
  imports Shared_Mailbox Mailbox_Properties "HOL-Library.Sublist"
begin

text \<open>
  The properties of the shared store: concurrent use is sequential use of the plain store, in
  an order that respects every thread's own, and concurrent deliveries are all kept.
\<close>

text \<open>C16: the shared mailbox is linearizable. In any execution of any threads, whose small steps interleave as
  they like, no two threads are ever inside the lock. The answers given so far, and the store and
  poisoning they left, are those of the plain store's accept, ack, read_page, pending_count and
  try_to_bytes run one after the other, without a lock, in the order in which the threads wrote back:
  no update is lost, and after the first panic every operation is refused and the store stays. Each
  thread's operations are in its own order, and the store stays well-formed. As long as a thread has work
  left some step is possible, and an execution of n steps has completed k operations with
  n <= 4 k + 2, so none is stuck or busy for ever.\<close>

theorem concurrent_use_is_sequential:
  assumes "(thread_step X oq ors ^^ n) (start_threads (new_shared s) progs) c"
  shows "store_calls X oq ors (log_ops (cs_log c)) s =
      (log_results (cs_log c), sh_store (cs_shared c), sh_poisoned (cs_shared c)) \<and>
    (\<forall>t. thread_ops t (cs_log c) @ cs_todo c t = progs t) \<and>
    (\<forall>t u. cs_phase c t \<noteq> Outside \<and> cs_phase c u \<noteq> Outside \<longrightarrow> t = u) \<and>
    (mailbox_ok X s \<longrightarrow> mailbox_ok X (sh_store (cs_shared c))) \<and>
    (\<forall>t. cs_todo c t \<noteq> [] \<longrightarrow> (\<exists>c'. thread_step X oq ors c c')) \<and>
    n \<le> 4 * length (cs_log c) + 2"
proof -
  have m: "mutex_inv c" and t: "threads_inv X oq ors s progs c" and n: "steps_inv n c"
    using execution_invs [OF assms] by simp_all
  have calls: "store_calls X oq ors (log_ops (cs_log c)) s =
      (log_results (cs_log c), sh_store (cs_shared c), sh_poisoned (cs_shared c))"
    "\<forall>t. thread_ops t (cs_log c) @ cs_todo c t = progs t"
    using t by (simp_all add: threads_inv_def)
  have alone: "t = u" if "cs_phase c t \<noteq> Outside" "cs_phase c u \<noteq> Outside" for t u
    using mutex_inside(2) [OF m that(1)] that(2) by (metis fun_upd_other)
  from calls alone store_calls_ok [OF calls(1)] step_possible [OF m] steps_bound [OF m n] show ?thesis by blast
qed

section \<open>Concurrent deliveries\<close>

definition deliver_op :: "StoredEnvelope \<Rightarrow> store_op" where
  "deliver_op x = OpAccept (se_envelope x) (se_stored_at x)"

fun op_mail :: "store_op \<Rightarrow> StoredEnvelope" where
  "op_mail (OpAccept e now) = \<lparr>se_envelope = e, se_stored_at = now\<rparr>"
| "op_mail _ = undefined"

lemma op_mail_deliver [simp]: "op_mail (deliver_op x) = x"
  by (simp add: deliver_op_def)

lemma run_deliveries:
  assumes "\<forall>x \<in> set xs. verify_envelope X (se_envelope x) = Inr () \<and> eb_to (en_body (se_envelope x)) = r"
    and "r \<noteq> []"
  shows "snd (store_calls X oq ors (map deliver_op xs) s) = (fold (push_envelope X r) xs s, False)"
  using assms
proof (induction xs arbitrary: s)
  case (Cons x xs)
  have "\<exists>res. store_call X oq ors (deliver_op x) s = Returned (res, push_envelope X r x s)"
    using Cons.prems by (cases "store_envelope X r x s") (simp add: deliver_op_def accept_cases)
  with Cons show ?case by auto
qed simp

lemma mset_by_thread:
  "\<forall>e \<in> set l. fst e < n \<Longrightarrow> mset l = (\<Sum>t<n. mset (filter (\<lambda>e. fst e = t) l))" for l :: "(nat \<times> 'a) list"
proof (induction l)
  case (Cons a l)
  have "(\<Sum>t<n. mset (filter (\<lambda>e. fst e = t) (a # l))) =
      (\<Sum>t<n. (if fst a = t then {#a#} else {#}) + mset (filter (\<lambda>e. fst e = t) l))"
    by (rule sum.cong) auto
  also have "\<dots> = {#a#} + mset l" using Cons by (simp add: sum.distrib)
  finally show ?case by simp
qed simp

text \<open>The log of threads that only deliver: what was delivered, by whom.\<close>

definition log_mails :: "(nat \<times> store_op \<times> answer result outcome) list \<Rightarrow> (nat \<times> StoredEnvelope) list" where
  "log_mails l = map (\<lambda>(t, op, r). (t, op_mail op)) l"

lemma log_mails_thread: "map snd (filter (\<lambda>e. fst e = t) (log_mails l)) = map op_mail (thread_ops t l)"
  by (induction l) (auto simp: log_mails_def thread_ops_def log_ops_def)

lemma log_mails_ops:
  assumes "\<forall>t. thread_ops t l = (if t < n then map deliver_op (mails t) else [])"
  shows "log_ops l = map deliver_op (map snd (log_mails l))" and "\<forall>e \<in> set (log_mails l). fst e < n"
proof -
  have entry: "t < n \<and> op = deliver_op (op_mail op)" if "(t, op, r) \<in> set l" for t op r
  proof -
    have "op \<in> set (thread_ops t l)" using that by (force simp: thread_ops_def log_ops_def)
    then show ?thesis using assms by (auto split: if_splits)
  qed
  then show "log_ops l = map deliver_op (map snd (log_mails l))"
    by (fastforce simp: log_ops_def log_mails_def)
  show "\<forall>e \<in> set (log_mails l). fst e < n" using entry by (auto simp: log_mails_def)
qed

lemma log_mails_complete:
  assumes "\<forall>t. thread_ops t l = (if t < n then map deliver_op (mails t) else [])"
  shows "mset (map snd (log_mails l)) = mset (concat (map mails [0..<n]))"
    and "t < n \<Longrightarrow> subseq (mails t) (map snd (log_mails l))"
proof -
  have own: "map snd (filter (\<lambda>e. fst e = t) (log_mails l)) = mails t" if "t < n" for t
    using that assms by (simp add: log_mails_thread comp_def)
  have "mset (map snd (log_mails l)) = image_mset snd (\<Sum>t<n. mset (filter (\<lambda>e. fst e = t) (log_mails l)))"
    using mset_by_thread [OF log_mails_ops(2) [OF assms]] by simp
  also have "\<dots> = (\<Sum>t<n. mset (map snd (filter (\<lambda>e. fst e = t) (log_mails l))))"
    by (induction n) simp_all
  also have "\<dots> = (\<Sum>t<n. mset (mails t))" by (rule sum.cong) (simp_all only: own lessThan_iff)
  also have "\<dots> = mset (concat (map mails [0..<n]))" by (induction n) (simp_all add: add.commute)
  finally show "mset (map snd (log_mails l)) = mset (concat (map mails [0..<n]))" .
  show "subseq (mails t) (map snd (log_mails l))" if "t < n"
    using subseq_map [OF subseq_filter_left [of "\<lambda>e. fst e = t" "log_mails l"], of snd] own [OF that] by simp
qed

text \<open>Two threads that deliver one message each, the second one first.\<close>

definition two_mails :: "nat \<Rightarrow> StoredEnvelope list" where
  "two_mails t = [\<lparr>se_envelope = sample_mail (of_nat t), se_stored_at = 10\<rparr>]"

definition two_threads :: "nat \<Rightarrow> store_op list" where
  "two_threads t = (if t < 2 then map deliver_op (two_mails t) else [])"

lemma two_threads_run:
  "\<exists>c. thread_steps sample by_key by_key (start_threads (new_shared sample_store) two_threads) c \<and>
     (\<forall>t. cs_todo c t = []) \<and> map fst (cs_log c) = [1, 0]"
proof -
  let ?c0 = "start_threads (new_shared sample_store) two_threads"
  let ?op = "\<lambda>t. OpAccept (sample_mail (of_nat t)) 10"
  obtain r1 sh1 where 1: "shared_call sample by_key by_key (?op 1) (cs_shared ?c0) = (r1, sh1)" by (rule prod.exhaust)
  obtain r2 sh2 where 2: "shared_call sample by_key by_key (?op 0) sh1 = (r2, sh2)" by (rule prod.exhaust)
  let ?c1 = "?c0\<lparr>cs_shared := sh1, cs_todo := two_threads(1 := []), cs_log := [(1, ?op 1, r1)]\<rparr>"
  let ?c2 = "?c1\<lparr>cs_shared := sh2, cs_todo := two_threads(1 := [], 0 := []), cs_log := [(1, ?op 1, r1), (0, ?op 0, r2)]\<rparr>"
  have "thread_steps sample by_key by_key ?c0 ?c1"
    using turn [OF _ _ _ 1, of 1 "[]"] by (simp add: start_threads_def two_threads_def two_mails_def deliver_op_def)
  moreover have "thread_steps sample by_key by_key ?c1 ?c2"
    using turn [where c = ?c1 and t = 0 and ops = "[]" and op = "?op 0" and r = r2 and sh = sh2
        and X = sample and oq = by_key and ors = by_key] 2
    by (simp add: start_threads_def two_threads_def two_mails_def deliver_op_def)
  ultimately have "thread_steps sample by_key by_key ?c0 ?c2" by (rule rtranclp_trans)
  then show ?thesis by (intro exI [of _ ?c2] conjI) (auto simp: two_threads_def)
qed

lemma concurrent_use_is_sequential_witness:
  "\<exists>c. thread_steps sample by_key by_key (start_threads (new_shared sample_store) two_threads) c \<and>
     log_ops (cs_log c) = two_threads 1 @ two_threads 0 \<and>
     store_calls sample by_key by_key (two_threads 1 @ two_threads 0) sample_store =
       (log_results (cs_log c), sh_store (cs_shared c), sh_poisoned (cs_shared c)) \<and>
     mailbox_ok sample (sh_store (cs_shared c))"
proof -
  obtain c where c: "thread_steps sample by_key by_key (start_threads (new_shared sample_store) two_threads) c"
    "\<forall>t. cs_todo c t = []" "map fst (cs_log c) = [1, 0]"
    using two_threads_run by (elim exE conjE) (rule that)
  from rtranclp_imp_relpowp [OF c(1)] obtain n where
    n: "(thread_step sample by_key by_key ^^ n) (start_threads (new_shared sample_store) two_threads) c" by blast
  from c(3) obtain o1 r1 o0 r0 where l: "cs_log c = [(1, o1, r1), (0, o0, r0)]" by (auto simp: map_eq_Cons_conv)
  note seq = concurrent_use_is_sequential [OF n]
  have own: "thread_ops t (cs_log c) = two_threads t" and ok: "mailbox_ok sample (sh_store (cs_shared c))" for t
    using seq c(2) sample_store_ok by (metis append_Nil2)+
  have ops: "log_ops (cs_log c) = two_threads 1 @ two_threads 0"
    unfolding own [symmetric] l by (simp add: log_ops_def thread_ops_def)
  moreover have "store_calls sample by_key by_key (log_ops (cs_log c)) sample_store =
      (log_results (cs_log c), sh_store (cs_shared c), sh_poisoned (cs_shared c))" using seq by blast
  ultimately show ?thesis using c(1) ok by metis
qed

text \<open>C17: concurrent deliveries are never lost or doubled: when threads that deliver distinct new
  messages to one recipient with room for all of them have finished, in whatever order their
  operations took the lock, its inbox is the old one followed by all the messages, each once, every
  thread's in its own order.\<close>

theorem concurrent_deliveries_kept:
  assumes "thread_steps X oq ors (start_threads (new_shared s) progs) c" and "\<forall>t. cs_todo c t = []"
    and "mailbox_ok X s" and "r \<noteq> []"
    and "\<forall>t. progs t = (if t < n then map deliver_op (mails t) else [])"
    and "\<forall>x \<in> set (concat (map mails [0..<n])).
      verify_envelope X (se_envelope x) = Inr () \<and> eb_to (en_body (se_envelope x)) = r"
    and "distinct (map (stored_id X) (concat (map mails [0..<n])))"
    and "stored_id X ` set (concat (map mails [0..<n])) \<inter> seen_of r s = {}"
    and "length (queue_of r s) + length (concat (map mails [0..<n])) \<le> mb_capacity s"
  shows "\<exists>xs. queue_of r (sh_store (cs_shared c)) = queue_of r s @ xs \<and>
    mset xs = mset (concat (map mails [0..<n])) \<and> (\<forall>t < n. subseq (mails t) xs)"
proof -
  let ?xs = "map snd (log_mails (cs_log c))" and ?all = "concat (map mails [0..<n])"
  have calls: "store_calls X oq ors (log_ops (cs_log c)) s =
      (log_results (cs_log c), sh_store (cs_shared c), sh_poisoned (cs_shared c))"
    and progs: "\<forall>t. thread_ops t (cs_log c) @ cs_todo c t = progs t"
    using threads_inv_steps [OF assms(1)] by (simp_all add: threads_inv_def)
  have own: "\<forall>t. thread_ops t (cs_log c) = (if t < n then map deliver_op (mails t) else [])"
    using progs assms(2,5) by (metis append_Nil2)
  note all = log_mails_complete [OF own]
  have same: "set ?xs = set ?all" by (rule mset_eq_setD [OF all(1)])
  have "mset (map (stored_id X) ?xs) = mset (map (stored_id X) ?all)" using all(1) by (simp only: mset_map)
  then have dist: "distinct (map (stored_id X) ?xs)" using assms(7) mset_eq_imp_distinct_iff by blast
  have mails: "\<forall>x \<in> set ?xs. verify_envelope X (se_envelope x) = Inr () \<and> eb_to (en_body (se_envelope x)) = r"
    unfolding same by (rule assms(6))
  have "sh_store (cs_shared c) = fold (push_envelope X r) ?xs s"
    using calls run_deliveries [OF mails assms(4), of oq ors s] log_mails_ops(1) [OF own] by simp
  moreover have "queue_of r (fold (push_envelope X r) ?xs s) = keep_last (mb_capacity s) (queue_of r s @ ?xs)"
    by (rule inbox.push_all_items [OF mailbox_ok_queue_inv(1) [OF assms(3)] dist]) (use assms(8) same in simp)
  moreover have "length ?xs = length ?all" using all(1) by (rule mset_eq_length)
  ultimately have "queue_of r (sh_store (cs_shared c)) = queue_of r s @ ?xs"
    using assms(9) by (simp add: keep_last_all)
  with all show ?thesis by blast
qed

lemma concurrent_deliveries_kept_witness:
  "\<exists>c. thread_steps sample by_key by_key (start_threads (new_shared sample_store) two_threads) c \<and>
     mset (queue_of bob_hex (sh_store (cs_shared c))) = mset (two_mails 0 @ two_mails 1)"
proof -
  obtain c where c: "thread_steps sample by_key by_key (start_threads (new_shared sample_store) two_threads) c"
    "\<forall>t. cs_todo c t = []" using two_threads_run by (elim exE conjE) (rule that)
  have mails: "concat (map two_mails [0..<2]) = two_mails 0 @ two_mails 1" by (simp add: numeral_2_eq_2)
  have empty: "queue_of bob_hex sample_store = []" "seen_of bob_hex sample_store = {}" "mb_capacity sample_store = 2"
    by (simp_all add: sample_store_def new_store_def)
  have "distinct (map (stored_id sample) (two_mails 0 @ two_mails 1))" by code_simp
  then have "\<exists>xs. queue_of bob_hex (sh_store (cs_shared c)) = queue_of bob_hex sample_store @ xs \<and>
      mset xs = mset (concat (map two_mails [0..<2])) \<and> (\<forall>t < 2. subseq (two_mails t) xs)"
    by (intro concurrent_deliveries_kept [OF c sample_store_ok bob_hex_nonempty])
      (auto simp: mails two_threads_def, simp_all add: two_mails_def sample_mail_verifies sample_mail_to empty)
  with c(1) show ?thesis unfolding mails by (auto simp: empty)
qed

end
