(* ===== verification/Receipt_Journey.thy ===== *)
theory Receipt_Journey
  imports Journey_Properties
begin

text \<open>
  The way of a receipt over the in-memory network: issued and deposited by the recipient's client,
  kept by the mailbox node, collected and checked by the sender's client.
\<close>

lemma receipt_stored:
  assumes "mailbox_ok X s" and "verify_receipt X r = Inr ()" and "sender \<noteq> []"
  shows "\<exists>x \<in> set (receipts_of sender (push_receipt sender r s)). dedup_key x = dedup_key r"
    and "receipt_box_ok X (push_receipt sender r s) sender"
proof -
  have "dedup_key r \<in> receipt_keys_of sender (push_receipt sender r s)"
    by (rule receipt_box.push_then_known [OF mailbox_ok_queue_inv(2) [OF assms(1)]])
  moreover show box: "receipt_box_ok X (push_receipt sender r s) sender"
    by (rule mailbox_okD(3) [OF push_receipt_ok [OF assms]])
  ultimately show "\<exists>x \<in> set (receipts_of sender (push_receipt sender r s)). dedup_key x = dedup_key r"
    by (auto simp: receipt_box_ok_def)
qed

text \<open>C18: a receipt works end to end over the in-memory network: when \<open>send_receipt\<close> reports success, new
  or duplicate, the sender's next \<open>collect_receipts\<close> returns a receipt that verifies, for that message,
  of that kind, signed by the recipient; no two collected receipts say the same; and a second
  collection returns nothing.\<close>

theorem receipt_arrives:
  assumes "crates_ok X" and "hex_strict X" and "net_up w" and "fmlookup (fn_services w) mailbox = Some svc"
    and "service_typed svc" and "mailbox_ok X (ms_store svc)"
    and "rust_string mid" and "ok_grant grant" and "ok_grant grant'" and "mc_identity sender = a"
    and "send_receipt X (fake_handle X cid rnd dbs dbr me) recipient mailbox (node_id_hex X a) mid kind grant w =
      (Inr duplicate, w')"
  shows "\<exists>rs w''. collect_client_receipts X (fake_handle X cid rnd dbs dbr (node_id_of X a)) sender mailbox grant' w' =
      (Inr rs, w'') \<and>
    (\<exists>r \<in> set rs. verify_receipt X r = Inr () \<and> rb_message_id (rc_body r) = mid \<and> rb_kind (rc_body r) = kind \<and>
      rb_by (rc_body r) = client_hex X recipient) \<and>
    distinct (map dedup_key rs) \<and>
    (\<exists>w3. collect_client_receipts X (fake_handle X cid rnd dbs dbr (node_id_of X a)) sender mailbox grant' w'' =
      (Inr [], w3))"
proof -
  let ?H = "fake_handle X cid rnd dbs dbr (node_id_of X a)" and ?a = "node_id_hex X a"
  note laws = assms(1) [unfolded crates_ok_def]
  define r where "r = issue_receipt X (mc_identity recipient) mid kind (now_secs (fake_handle X cid rnd dbs dbr me) w)"
  let ?store = "push_receipt ?a r (ms_store svc)"
  have ids: "identity_ok X" "hex_ok X" using laws by simp_all
  have a: "rust_string ?a" by (rule node_hex_rust_string [OF ids])
  from memory.send_receipt_result [OF _ _ _ _ _ assms(3-5) a assms(7,8,11)] laws
  have D: "depositable X svc ?a r grant 1000 never_revoked" "ok_receipt r" "net_up w'"
    "fmlookup (fn_services w') = (fmlookup (fn_services w))(mailbox \<mapsto> svc\<lparr>ms_store := ?store\<rparr>)"
    unfolding r_def by blast+
  have v: "verify_receipt X r = Inr ()" "?a \<noteq> []" using D(1) by (simp_all add: depositable_def)
  have typed: "service_typed (svc\<lparr>ms_store := ?store\<rparr>)" by (rule push_receipt_typed [OF assms(5) D(2)])
  have there: "fmlookup (fn_services w') mailbox = Some (svc\<lparr>ms_store := ?store\<rparr>)" by (simp add: D(4))
  note box = receipt_stored [OF assms(6) v]
  have all: "filter (\<lambda>r. is_ok (verify_receipt X r)) (receipts_of ?a ?store) = receipts_of ?a ?store"
    using box(2) by (simp add: receipt_box_ok_def filter_id_conv)
  let ?svc2 = "svc\<lparr>ms_store := snd (collect_receipts ?a ?store)\<rparr>"
  from memory.collect_result [where X = X and cid = cid and rnd = rnd and dbg_string = dbs and dbg_reply = dbr,
      OF _ _ _ _ _ D(3) there typed assms(10,9)] laws
  obtain w'' where c: "collect_client_receipts X ?H sender mailbox grant' w' = (Inr (receipts_of ?a ?store), w'')"
    and w'': "net_up w''" "fmlookup (fn_services w'') = (fmlookup (fn_services w'))(mailbox \<mapsto> ?svc2)"
    by (auto simp: all)
  have typed2: "service_typed ?svc2" using typed
    by (auto simp: service_typed_def collect_receipts_def)
  have "receipts_of ?a (ms_store ?svc2) = []" by (simp add: receipt_box.collect_items)
  with memory.collect_result [where X = X and cid = cid and rnd = rnd and dbg_string = dbs and dbg_reply = dbr,
      OF _ _ _ _ _ w''(1) _ typed2 assms(10,9), of mailbox] laws w''(2)
  have again: "\<exists>w3. collect_client_receipts X ?H sender mailbox grant' w'' = (Inr [], w3)" by fastforce
  obtain x where x: "x \<in> set (receipts_of ?a ?store)" "dedup_key x = dedup_key r" using box(1) by blast
  then have vx: "verify_receipt X x = Inr ()" using box(2) by (simp add: receipt_box_ok_def)
  from dedup_key_injective [OF x(2) verified_by_no_colon [OF assms(2) vx] verified_by_no_colon [OF assms(2) v(1)]]
  have "rb_message_id (rc_body x) = mid \<and> rb_kind (rc_body x) = kind \<and> rb_by (rc_body x) = client_hex X recipient"
    by (simp add: r_def issue_receipt_def Let_def client_hex_def)
  with c x(1) vx again box(2) show ?thesis by (auto simp: receipt_box_ok_def)
qed

definition alice_hex :: string where
  "alice_hex = node_id_hex sample alice"

definition alice_grant :: "sample_cap list" where
  "alice_grant = map (cap_issuer_update (\<lambda>_. alice)) long_grant"

lemma alice_grant_accepts: "accepts_for sample sample_store alice_hex alice_grant 1000 never_revoked"
proof -
  have "parse_node_id sample alice_hex = Inr (node_id_of sample alice)"
    unfolding alice_hex_def by (rule parse_node_id_hex [OF sample_hex_ok sample_identity_ok])
  then show ?thesis
    by (simp add: accepts_for_def alice_grant_def long_grant_def bob_grant_def sample_store_def new_store_def)
      (simp add: sample_def s_authorize_def mailbox_seed_def alice_def never_revoked_def)
qed

lemma receipt_arrives_witness:
  "\<exists>duplicate w' rs w''.
    send_receipt sample (sample_handle (node_id_of sample bob)) bob_client mailbox_hex alice_hex ''m1'' KRead alice_grant
      sample_net = (Inr duplicate, w') \<and>
    collect_client_receipts sample (sample_handle (node_id_of sample alice)) alice_client mailbox_hex [] w' = (Inr rs, w'') \<and>
    ''m1'' \<in> (rb_message_id \<circ> rc_body) ` set rs"
proof -
  have svc: "fmlookup (fn_services sample_net) mailbox_hex = Some bobs_service" "net_up sample_net"
    by (simp_all add: sample_net_def install_service_def new_net_def)
  have clients: "mc_identity alice_client = alice" "mc_identity bob_client = bob"
    by (simp_all add: bob_client_def alice_client_def new_client_def client_with_limits_def)
  have store: "ms_store bobs_service = sample_store" by (simp add: bobs_service_def with_limits_def)
  have grants: "ok_grant alice_grant" "ok_grant []"
    by (simp_all add: ok_grant_def alice_grant_def long_grant_def bob_grant_def usize_limit_def)
  have mid: "rust_string ''m1''" by (simp add: rust_string_def byte_in_def usize_limit_def)
  have hexes: "rust_string alice_hex" "alice_hex \<noteq> []"
    using node_hex_rust_string [OF sample_identity_ok sample_hex_ok, of alice]
      node_hex_digits(2) [OF sample_identity_ok sample_hex_ok, of alice] by (auto simp: alice_hex_def)
  have "depositable sample bobs_service alice_hex (issue_receipt sample bob ''m1'' KRead t) alice_grant 1000 never_revoked" for t
    using alice_grant_accepts issue_receipt_verifies [OF sample_hex_ok sample_identity_ok] hexes(2)
    by (simp add: depositable_def store)
  then obtain d w' where run: "send_receipt sample (sample_handle (node_id_of sample bob)) bob_client mailbox_hex
      alice_hex ''m1'' KRead alice_grant sample_net = (Inr d, w')"
    using memory.send_receipt_succeeds [OF sample_bincode_ok sample_hex_ok sample_identity_ok sample_caps_ok svc(2,1)
        hexes(1) mid grants(1), where cl = bob_client and kind = KRead]
    unfolding sample_handle_def clients by blast
  have "hex_strict sample" using s_hex_no_colon by (auto simp: hex_strict_def sample_def)
  moreover have "mailbox_ok sample (ms_store bobs_service)" unfolding store by (rule sample_store_ok)
  ultimately show ?thesis
    using receipt_arrives [OF sample_crates_ok _ svc(2,1) bobs_service_typed _ mid grants clients(1)
        run [unfolded sample_handle_def alice_hex_def]] run
    unfolding sample_handle_def [symmetric] by force
qed

end
