(* ===== verification/Command_Line.thy ===== *)
theory Command_Line
  imports Inbox_Command Serve_Loop
begin

text \<open>
  The subcommands of the \<open>ce-mail\<close> program (src/src/main.rs) as they come out of the argument parser:
  \<open>id\<close>, \<open>send\<close>, \<open>inbox\<close>, \<open>read\<close> and \<open>grant-mailbox\<close>, with what they print on standard output, and
  \<open>serve-mailbox\<close>, which starts the loop of Serve_Loop. Standard input, the files to attach and the
  clock are inputs. ce_iam_core's token functions are the parameter \<open>cap_tools\<close>.
\<close>

section \<open>Tokens\<close>

text \<open>
  \<open>encode_chain\<close>, \<open>decode_chain\<close>, and \<open>SignedCapability::issue\<close> by an identity to an audience for some
  abilities on \<open>Resource::Node\<close>, expiring at a time (0 for never), with a nonce and no parent.
\<close>

record ('i, 'c) cap_tools =
  encode_chain :: "'c list \<Rightarrow> string"
  decode_chain :: "string \<Rightarrow> 'c list result"
  issue_cap :: "'i \<Rightarrow> node_id \<Rightarrow> string list \<Rightarrow> node_id \<Rightarrow> u64 \<Rightarrow> u64 \<Rightarrow> 'c"

text \<open>
  Documented behaviour: a token reads back; a capability to accept mail that a node issued on itself
  to another node authorizes that node, before it expires and unless it is revoked.
\<close>

definition tokens_ok :: "('i, 'c) cap_tools \<Rightarrow> bool" where
  "tokens_ok T \<longleftrightarrow> (\<forall>cs. decode_chain T (encode_chain T cs) = Inr cs)"

definition issuing_ok :: "('i, 'c) crates \<Rightarrow> ('i, 'c) cap_tools \<Rightarrow> bool" where
  "issuing_ok X T \<longleftrightarrow>
     (\<forall>i k expiry nonce now revoked.
        (expiry = 0 \<or> now < expiry) \<and> \<not> revoked (node_id_of X i) nonce \<longrightarrow>
        authorize X (node_id_of X i) [node_id_of X i] now (node_id_of X k) ABILITY_ACCEPT
          [issue_cap T i (node_id_of X k) [ABILITY_ACCEPT] (node_id_of X i) expiry nonce] revoked = Inr ())"

section \<open>Arguments\<close>

record SendArgs =
  sa_to :: string
  sa_subject :: string
  sa_body :: "string option"
  sa_in_reply_to :: string
  sa_mailbox :: "string option"
  sa_grant :: "string option"
  sa_postage :: string
  sa_attach :: "string list"
  sa_seal_subject :: bool

datatype Command =
  CmdId
| CmdSend SendArgs
| CmdInbox string "nat option" "string option" bool
| CmdRead string
| CmdGrantMailbox string u64 u64

definition decode_grant :: "('i, 'c) cap_tools \<Rightarrow> string option \<Rightarrow> 'c list result" where
  "decode_grant T grant =
     (case grant of
        Some g \<Rightarrow> map_err (\<lambda>_. ''decode --grant'') (decode_chain T g)
      | None \<Rightarrow> Inr [])"

section \<open>\<open>send\<close>\<close>

definition attachment_name :: "string \<Rightarrow> string" where
  "attachment_name path = (case path_file_name path of Some n \<Rightarrow> utf8_lossy n | None \<Rightarrow> ''attachment'')"

fun read_attachments :: "(string \<Rightarrow> bytes result) \<Rightarrow> string list \<Rightarrow> Attachment list result" where
  "read_attachments files [] = Inr []"
| "read_attachments files (path # paths) =
     try_bind (map_err (\<lambda>_. ''read attachment '' @ path) (files path)) (\<lambda>bs.
     try_bind (read_attachments files paths) (\<lambda>atts. Inr (from_file (attachment_name path) bs # atts)))"

definition send_body :: "bytes result \<Rightarrow> SendArgs \<Rightarrow> bytes result" where
  "send_body stdin a = (case sa_body a of Some b \<Rightarrow> Inr (byte_string b) | None \<Rightarrow> stdin)"

definition send_options :: "SendArgs \<Rightarrow> bytes \<Rightarrow> 'c list \<Rightarrow> Attachment list \<Rightarrow> 'c SendOptions" where
  "send_options a body grant_chain attachments =
     \<lparr>so_to = sa_to a, so_subject = sa_subject a, so_body = body, so_attachments = attachments,
      so_in_reply_to = sa_in_reply_to a, so_seal_subject = sa_seal_subject a,
      so_postage_receipt = sa_postage a, so_mailbox = sa_mailbox a, so_grant = grant_chain\<rparr>"

definition send_command ::
  "('i, 'c) crates \<Rightarrow> ('i, 'c) cap_tools \<Rightarrow> 'w Host \<Rightarrow> 'i \<Rightarrow> bytes result \<Rightarrow> (string \<Rightarrow> bytes result) \<Rightarrow> SendArgs \<Rightarrow>
   ('w, string) io" where
  "send_command X T H identity stdin files a =
     io_bind (io_lift (send_body stdin a)) (\<lambda>body.
     io_bind (io_lift (decode_grant T (sa_grant a))) (\<lambda>grant_chain.
     io_bind (io_lift (read_attachments files (sa_attach a))) (\<lambda>attachments.
     (\<lambda>w. case send_mail X H (new_client identity) (send_options a body grant_chain attachments) w of
        (Inl _, w) \<Rightarrow> (Inl ''send'', w)
      | (Inr mid, w) \<Rightarrow> (Inr (''sent '' @ mid), w)))))"

section \<open>\<open>grant-mailbox\<close>\<close>

text \<open>The product and the sum are of \<open>u64\<close>: overflow panics where it is checked and wraps otherwise.\<close>

definition grant_expiry :: "bool \<Rightarrow> u64 \<Rightarrow> u64 \<Rightarrow> u64 outcome" where
  "grant_expiry overflow_checks now expires_days =
     (if expires_days = 0 then Returned 0
      else if overflow_checks \<and> 2 ^ 64 \<le> unat now + unat expires_days * 86400 then Panicked
      else Returned (now + expires_days * 86400))"

definition grant_mailbox_command ::
  "('i, 'c) crates \<Rightarrow> ('i, 'c) cap_tools \<Rightarrow> bool \<Rightarrow> 'i \<Rightarrow> u64 \<Rightarrow> string \<Rightarrow> u64 \<Rightarrow> u64 \<Rightarrow> string result outcome" where
  "grant_mailbox_command X T overflow_checks identity now mailbox expires_days nonce =
     (case parse_node_id X mailbox of
        Inl _ \<Rightarrow> Returned (Inl ''parse mailbox id'')
      | Inr audience \<Rightarrow>
          map_outcome_to
            (\<lambda>not_after.
               let cap = issue_cap T identity audience [ABILITY_ACCEPT] (node_id_of X identity) not_after nonce
               in Inr (encode_chain T [cap]))
            (grant_expiry overflow_checks now expires_days))"

section \<open>\<open>read\<close>\<close>

definition read_lines :: "SnapMsg \<Rightarrow> string list" where
  "read_lines m =
     [''From:    '' @ sn_from m, ''Subject: '' @ sn_subject m] @
     (if sn_in_reply_to m \<noteq> [] then [''In-Reply-To: '' @ sn_in_reply_to m] else []) @
     [[], sn_body m]"

section \<open>\<open>serve-mailbox\<close>\<close>

record ServeArgs =
  va_capacity :: nat
  va_store :: "string option"
  va_revocation_refresh_secs :: u64
  va_poll_ms :: nat

definition poll_interval :: "ServeArgs \<Rightarrow> nat" where
  "poll_interval a = max (va_poll_ms a) 50"

definition refresh_interval :: "ServeArgs \<Rightarrow> u64" where
  "refresh_interval a = max (va_revocation_refresh_secs a) 5"

text \<open>
  A start that fails returns an error: the subscription or the store's file; otherwise the states
  before, between and after the rounds of the loop, for as many polls as are given.
\<close>

definition serve_mailbox_command ::
  "('i, 'c) crates \<Rightarrow> StoredEnvelope table_order \<Rightarrow> Receipt table_order \<Rightarrow> nat \<Rightarrow> 'i \<Rightarrow> ServeArgs \<Rightarrow>
   unit result \<Rightarrow> string option \<Rightarrow> 't poll list \<Rightarrow> disk \<Rightarrow> 't server list outcome result" where
  "serve_mailbox_command X oq ors pid identity a subscribed read_error polls d =
     try_bind (map_err (\<lambda>_. ''subscribe to mail topic'') subscribed) (\<lambda>_.
     try_bind (start_service X identity (va_capacity a) (va_store a) read_error d) (\<lambda>svc.
       Inr (serve_rounds X oq ors pid (va_store a) (poll_interval a) polls
              (start_server (poll_interval a) svc d))))"

section \<open>The subcommands that end\<close>

text \<open>What a run depends on besides the network and the local files.\<close>

record ('i, 'c) setting =
  st_tools :: "('i, 'c) cap_tools"
  st_identity :: 'i
  st_stdin :: "bytes result"
  st_files :: "string \<Rightarrow> bytes result"
  st_writes :: write_errors
  st_clock :: u64
  st_overflow_checks :: bool

fun run_command ::
  "('i, 'c) crates \<Rightarrow> 'w Host \<Rightarrow> ('i, 'c) setting \<Rightarrow> Command \<Rightarrow> LocalFiles \<Rightarrow> 'w \<Rightarrow> 'w inbox_end outcome" where
  "run_command X H st CmdId files w =
     Returned (Inr (), [node_id_hex X (st_identity st)], files, w)"
| "run_command X H st (CmdSend a) files w =
     (case send_command X (st_tools st) H (st_identity st) (st_stdin st) (st_files st) a w of
        (Inl e, w) \<Rightarrow> Returned (Inl e, [], files, w)
      | (Inr line, w) \<Rightarrow> Returned (Inr (), [line], files, w))"
| "run_command X H st (CmdInbox mailbox start grant do_ack) files w =
     (case decode_grant (st_tools st) grant of
        Inl e \<Rightarrow> Returned (Inl e, [], files, w)
      | Inr chain \<Rightarrow>
          inbox_command X H (new_client (st_identity st)) mailbox start chain do_ack (st_writes st) files w)"
| "run_command X H st (CmdRead i) files w =
     (case read_command i files of
        Inl e \<Rightarrow> Returned (Inl e, [], files, w)
      | Inr m \<Rightarrow> Returned (Inr (), read_lines m, files, w))"
| "run_command X H st (CmdGrantMailbox mailbox expires_days nonce) files w =
     map_outcome_to
       (\<lambda>r. case r of
          Inl e \<Rightarrow> (Inl e, [], files, w)
        | Inr token \<Rightarrow> (Inr (), [token], files, w))
       (grant_mailbox_command X (st_tools st) (st_overflow_checks st) (st_identity st) (st_clock st)
          mailbox expires_days nonce)"

section \<open>What the commands come to\<close>

lemma send_command_result:
  assumes "send_command X T H identity stdin files a w = (Inr line, w')"
  obtains body chain atts mid where
    "send_body stdin a = Inr body" "decode_grant T (sa_grant a) = Inr chain"
    "read_attachments files (sa_attach a) = Inr atts"
    "send_mail X H (new_client identity) (send_options a body chain atts) w = (Inr mid, w')"
    "line = ''sent '' @ mid"
  using assms unfolding send_command_def
  by (elim io_bind_InrE) (auto split: prod.splits sum.splits)

text \<open>A local failure of \<open>send\<close> comes before anything reaches the network.\<close>

lemma send_command_local_error:
  assumes "\<not> is_ok (send_body stdin a) \<or> \<not> is_ok (decode_grant T (sa_grant a)) \<or>
    \<not> is_ok (read_attachments files (sa_attach a))"
  shows "\<exists>e. send_command X T H identity stdin files a w = (Inl e, w)"
  using assms
  by (cases "send_body stdin a"; cases "decode_grant T (sa_grant a)"; cases "read_attachments files (sa_attach a)")
    (simp_all add: send_command_def)

lemma read_attachments_names:
  assumes "read_attachments files paths = Inr atts"
  shows "list_all2 (\<lambda>p a. files p = Inr (at_bytes a) \<and> at_filename a = attachment_name p) paths atts"
  using assms by (induction paths arbitrary: atts) (auto simp: from_file_def)

lemma send_options_simps [simp]:
  "so_to (send_options a body chain atts) = sa_to a" "so_subject (send_options a body chain atts) = sa_subject a"
  "so_body (send_options a body chain atts) = body" "so_attachments (send_options a body chain atts) = atts"
  "so_in_reply_to (send_options a body chain atts) = sa_in_reply_to a"
  "so_seal_subject (send_options a body chain atts) = sa_seal_subject a"
  "so_postage_receipt (send_options a body chain atts) = sa_postage a"
  "so_mailbox (send_options a body chain atts) = sa_mailbox a" "so_grant (send_options a body chain atts) = chain"
  by (simp_all add: send_options_def)

end
