(* ===== verification/Command_Properties.thy ===== *)
theory Command_Properties
  imports Command_Line Inbox_Properties
begin

text \<open>
  The properties of the program's subcommands together: what \<open>send\<close> sends, \<open>inbox\<close> lists and \<open>read\<close>
  prints; and what a token of \<open>grant-mailbox\<close> is good for.
\<close>

section \<open>From \<open>send\<close> to \<open>read\<close>\<close>

lemma id_length:
  assumes "crates_ok X"
  shows "length (message_id_of X m) = 64"
  using assms hex_okD(2) [of X] keys_okD(1) [of X]
  by (simp add: crates_ok_def message_id_of_def envelope_message_id_def message_id_def)

lemma starts_with_same: "length s = length p \<Longrightarrow> starts_with s p \<longleftrightarrow> s = p"
  by (simp add: starts_with_def)

text \<open>Reading the snapshot of a listing by a full id, when the ids listed are distinct.\<close>

lemma read_listed:
  assumes "crates_ok X" and "distinct (map (message_id_of X) msgs)" and "m \<in> set msgs"
    and "lf_snapshot files = Some (map (snap_message X) msgs)"
  shows "read_command (message_id_of X m) files = Inr (snap_message X m)"
proof -
  let ?P = "\<lambda>s. sn_id s = message_id_of X m \<or> starts_with (sn_id s) (message_id_of X m)"
  have P: "?P (snap_message X x) \<longleftrightarrow> message_id_of X x = message_id_of X m" for x
    using id_length [OF assms(1)] by (simp add: snap_message_def starts_with_same)
  have inj: "x = m" if "x \<in> set msgs" "message_id_of X x = message_id_of X m" for x
    using assms(2,3) that by (simp add: distinct_map inj_on_def)
  have "find ?P (map (snap_message X) msgs) \<noteq> None"
    using assms(3) P [of m] by (auto simp: find_None_iff)
  then obtain s where s: "find ?P (map (snap_message X) msgs) = Some s" by blast
  then obtain i where i: "i < length msgs" "s = snap_message X (msgs ! i)" "?P s"
    by (auto simp: find_Some_iff)
  then have "msgs ! i \<in> set msgs" "message_id_of X (msgs ! i) = message_id_of X m" using P by simp_all
  with inj [of "msgs ! i"] i(2) have "s = snap_message X m" by blast
  with s show ?thesis by (simp add: read_command_def assms(4))
qed

lemma drained_ids_distinct:
  assumes "mailbox_ok X s" and "map msg_envelope msgs = filter P (map se_envelope (drop since (queue_of r s)))"
  shows "distinct (map (message_id_of X) msgs)"
proof -
  have "distinct (map (stored_id X) (queue_of r s))"
    using mailbox_okD(2) [OF assms(1), of r] by (simp add: inbox_ok_def)
  then have "distinct (drop since (map (stored_id X) (queue_of r s)))" by (rule distinct_drop)
  then have "distinct (map (envelope_message_id X) (map se_envelope (drop since (queue_of r s))))"
    by (simp add: drop_map stored_id_def [abs_def] comp_def)
  then have "distinct (map (envelope_message_id X) (map msg_envelope msgs))"
    unfolding assms(2) by (rule distinct_map_filter)
  then show ?thesis by (simp add: message_id_of_def [abs_def] comp_def)
qed

text \<open>The body as \<open>read\<close> shows it.\<close>

definition shown_body :: "SendArgs \<Rightarrow> bytes \<Rightarrow> string" where
  "shown_body a body = (case sa_body a of Some t \<Rightarrow> t | None \<Rightarrow> utf8_lossy (map (\<lambda>b. char_of (unat b)) body))"

lemma shown_body_text:
  assumes "send_body stdin a = Inr body" and "\<forall>t. sa_body a = Some t \<longrightarrow> is_utf8 t" and "msg_body m = body"
  shows "body_text m = shown_body a body"
proof (cases "sa_body a")
  case None
  then show ?thesis by (simp add: body_text_def shown_body_def assms(3))
next
  case (Some t)
  then have "body = map of_char t" using assms(1) by (simp add: send_body_def byte_string_def)
  then have "map (\<lambda>b. char_of (unat b)) body = t" by (simp add: char_byte comp_def)
  with Some assms(2,3) show ?thesis by (simp add: body_text_def shown_body_def lossy_valid)
qed

text \<open>C2: the program works end to end over the in-memory network: when \<open>ce-mail send\<close> prints that it sent
  a message that is new to the mailbox, and the recipient's \<open>ce-mail inbox\<close> from any position before
  the end of its queue succeeds, then \<open>ce-mail read\<close> with the printed id prints the sender's node id,
  the original subject, the reply pointer and the body: a text body unchanged, bytes from standard
  input with what is not UTF-8 replaced.\<close>

theorem send_inbox_read:
  assumes "crates_ok X" and "cids_ok X cid" and "net_up w"
    and "sa_to a = node_id_hex X j" and "st_identity reader = j"
    and body: "send_body (st_stdin st) a = Inr body" "\<forall>t. sa_body a = Some t \<longrightarrow> is_utf8 t"
    and inputs: "decode_grant (st_tools st) (sa_grant a) = Inr chain"
      "read_attachments (st_files st) (sa_attach a) = Inr atts"
    and opts: "ok_options (send_options a body chain atts)" "\<not> sa_seal_subject a \<Longrightarrow> body_is_raw X body"
    and there: "fst (send_target (send_options a body chain atts)) = mailbox"
      "fmlookup (fn_services w) mailbox = Some svc" "service_typed svc" "mailbox_ok X (ms_store svc)"
    and sent: "run_command X (fake_handle X cid rnd dbs dbr me) st (CmdSend a) files w =
      Returned (Inr (), [''sent '' @ mid], files, w')"
    and fresh: "mid \<notin> seen_of (sa_to a) (ms_store svc)"
    and svc': "fmlookup (fn_services w') mailbox = Some svc'"
    and before_end: "list_start start inbox_files < pending_count (sa_to a) (ms_store svc')"
    and listed: "run_command X (fake_handle X cid rnd dbs dbr (node_id_of X j)) reader
      (CmdInbox mailbox start None do_ack) inbox_files w' = Returned (Inr (), shown, files', w'')"
  shows "run_command X (fake_handle X cid rnd dbs dbr (node_id_of X j)) reader (CmdRead mid) files' w'' =
    Returned (Inr (), [''From:    '' @ node_id_hex X (st_identity st), ''Subject: '' @ sa_subject a] @
      (if sa_in_reply_to a \<noteq> [] then [''In-Reply-To: '' @ sa_in_reply_to a] else []) @
      [[], shown_body a body], files', w'')"
proof -
  let ?H = "fake_handle X cid rnd dbs dbr" and ?opts = "send_options a body chain atts"
    and ?sender = "new_client (st_identity st)" and ?cl = "new_client j"
  let ?from = "list_start start inbox_files"
  have send: "send_mail X (?H me) ?sender ?opts w = (Inr mid, w')"
    using sent body(1) inputs by (auto simp: send_command_def split: prod.splits sum.splits)
  have grant: "ok_grant []" by (simp add: ok_grant_def usize_limit_def)
  have client: "mc_identity ?cl = j" "client_hex X ?sender = node_id_hex X (st_identity st)"
    by (simp_all add: new_client_def client_hex_def)
  have to: "so_to ?opts = node_id_hex X j" by (simp add: assms(4))
  have raw: "body_is_raw X (so_body ?opts)" if "\<not> so_seal_subject ?opts" using opts(2) that by simp
  note D = delivered_mail [where recipient = ?cl and grant = "[]" and since = ?from and rnd = rnd and dbs = dbs and dbr = dbr,
      OF assms(1-3) to opts(1) raw there send _ svc' _ client(1) grant]
  obtain ms m cursor w1 e where drain: "drain_inbox X (?H (node_id_of X j)) ?cl mailbox ?from [] w' =
        (Inr (ms @ [m], cursor), w1)"
    and m: "message_id_of X m = mid" "eb_from (en_body (msg_envelope m)) = node_id_hex X (st_identity st)"
      "eb_in_reply_to (en_body (msg_envelope m)) = sa_in_reply_to a" "message_subject m = sa_subject a"
      "msg_body m = body"
    and e: "svc' = svc\<lparr>ms_store := push_envelope X (sa_to a) e (ms_store svc)\<rparr>"
      "verify_envelope X (se_envelope e) = Inr ()" "eb_to (en_body (se_envelope e)) = sa_to a"
      "ok_envelope (se_envelope e)" "net_up w'"
    using D fresh before_end client(2) by auto
  have ids: "identity_ok X" "hex_ok X" using assms(1) by (simp_all add: crates_ok_def)
  have "sa_to a \<noteq> []" using node_hex_digits(2) [OF ids, of j] assms(4) by auto
  then have ok': "mailbox_ok X (ms_store svc')" "service_typed svc'"
    using push_envelope_ok [OF there(4) e(2,3)] push_envelope_typed [OF there(3) e(4)] by (simp_all add: e(1))
  have "?from < length (queue_of (sa_to a) (ms_store svc'))"
    using before_end by (simp add: pending_count_def fm_get_def split: option.splits)
  then have small: "?from < usize_limit" using service_typedD(3) [OF ok'(2), of "sa_to a"] by simp
  have "map msg_envelope (ms @ [m]) = filter (\<lambda>e. is_ok (verify_envelope X e))
      (map se_envelope (drop ?from (queue_of (node_id_hex X j) (ms_store svc'))))"
    using memory_drain [OF assms(1) e(5) svc' ok'(2) client(1) small grant, of cid rnd dbs dbr] drain by auto
  then have dist: "distinct (map (message_id_of X) (ms @ [m]))" by (rule drained_ids_distinct [OF ok'(1)])
  have "inbox_command X (?H (node_id_of X j)) ?cl mailbox start [] do_ack (st_writes reader) inbox_files w' =
      Returned (Inr (), shown, files', w'')"
    using listed assms(5) by (simp add: decode_grant_def)
  then have "lf_snapshot files' = Some (map (snap_message X) (ms @ [m]))"
    using drain by (elim inbox_command_result) simp
  from read_listed [OF assms(1) dist _ this, of m] have "read_command mid files' = Inr (snap_message X m)"
    using m(1) by simp
  then show ?thesis
    using m shown_body_text [OF body m(5)] by (simp add: read_lines_def snap_message_def)
qed

section \<open>Grants\<close>

text \<open>C20: the token that \<open>ce-mail grant-mailbox\<close> prints lets the named mailbox store mail for the issuer,
  whoever presents it, until it expires or is revoked; and it lets the mailbox node itself act for
  the issuer at any other mailbox, which hands it the issuer's mail. With 0 days it never expires;
  otherwise it expires that many days from now, provided that the second lies within \<open>u64\<close>.\<close>

theorem granted_mailbox_accepts:
  assumes "hex_ok X" and "identity_ok X" and "tokens_ok T" and "issuing_ok X T"
    and "grant_mailbox_command X T checks owner now mailbox days nonce = Returned (Inr token)"
    and "parse_node_id X mailbox = Inr (mb_self_id s)" and "mb_self_id s = node_id_of X k"
    and "unat now + unat days * 86400 < 2 ^ 64"
    and "days \<noteq> 0 \<Longrightarrow> unat later < unat now + unat days * 86400"
    and "\<not> revoked (node_id_of X owner) nonce"
  shows "\<exists>chain. decode_grant T (Some token) = Inr chain \<and>
    check_accept_grant X s (node_id_of X owner) chain later revoked = Inr () \<and>
    (\<forall>svc start. handle_drain X (mb_self_id s) (node_id_hex X owner) start chain later revoked svc =
      (let (stored, cursor) = read_from (node_id_hex X owner) start (ms_store svc)
       in (Drained (map se_envelope stored) cursor, svc)))"
proof -
  note self = assms(7)
  let ?expiry = "if days = 0 then 0 else now + days * 86400"
  let ?cap = "issue_cap T owner (mb_self_id s) [ABILITY_ACCEPT] (node_id_of X owner) ?expiry nonce"
  have token: "token = encode_chain T [?cap]"
    using assms(5,6,8) by (auto simp: grant_mailbox_command_def grant_expiry_def Let_def split: if_splits)
  have "later < now + days * 86400" if "days \<noteq> 0"
  proof -
    have "unat (now + days * 86400) = unat now + unat days * 86400"
      using assms(8) by (simp add: unat_word_ariths)
    with assms(9) [OF that] show ?thesis by (simp add: word_less_nat_alt)
  qed
  then have "authorize X (node_id_of X owner) [node_id_of X owner] later (mb_self_id s) ABILITY_ACCEPT [?cap] revoked = Inr ()"
    using assms(4,10) unfolding issuing_ok_def self by auto
  moreover have "parse_node_id X (node_id_hex X owner) = Inr (node_id_of X owner)"
    by (rule parse_node_id_hex [OF assms(1,2)])
  ultimately show ?thesis
    using assms(3) by (intro exI [of _ "[?cap]"])
      (simp add: token tokens_ok_def decode_grant_def check_accept_grant_Inr handle_drain_def refused_delegate_def
        gate_delegate_def)
qed

text \<open>
  A number of days that is too large is not refused: where overflow is not checked the grant may
  expire at once.
\<close>

lemma grant_expiry_wraps:
  "grant_expiry False 1700000000 213503982334601 = Returned 1699974784"
  "grant_expiry True 1700000000 213503982334601 = Panicked"
  by (simp_all add: grant_expiry_def)

section \<open>A concrete run\<close>

text \<open>A token format for the sample capabilities, and what the sample's issuer puts into them.\<close>

definition get_caps :: "sample_cap list getter" where
  "get_caps = get_counted (\<lambda>bs. case get (cap_ty sample) bs of
     Some (v, r) \<Rightarrow> (case s_cap_un v of Inr c \<Rightarrow> Some (c, r) | Inl _ \<Rightarrow> None)
   | None \<Rightarrow> None)"

definition sample_tools :: "(u8, sample_cap) cap_tools" where
  "sample_tools =
     \<lparr>encode_chain = (\<lambda>cs. s_hex_encode (put_nat (length cs) @ concat (map (\<lambda>c. put (s_cap_sv c)) cs))),
      decode_chain = (\<lambda>t. case Option.bind (s_hex_decode t) get_caps of
        Some (cs, _) \<Rightarrow> Inr cs | None \<Rightarrow> Inl ''bad token''),
      issue_cap = (\<lambda>i audience abilities resource expiry nonce.
        \<lparr>cap_issuer = i, cap_audience = hd audience, cap_accepts = (ABILITY_ACCEPT \<in> set abilities),
         cap_expiry = (if expiry = 0 then - 1 else expiry), cap_nonce = nonce\<rparr>)\<rparr>"

lemma sample_tokens_ok: "tokens_ok sample_tools"
proof -
  have "get (cap_ty sample) (put (s_cap_sv c) @ r) = Some (s_cap_sv c, r)" for c r
    using get_put [of "cap_ty sample" "s_cap_sv c" r] by (simp add: s_cap_sv_def sample_def)
  moreover have "s_cap_un (s_cap_sv c) = Inr c" for c by (simp add: s_cap_sv_def)
  ultimately have "get_caps (put_nat (length cs) @ concat (map (\<lambda>c. put (s_cap_sv c)) cs) @ []) = Some (cs, [])" for cs
    using get_rep_concat [of cs _ "\<lambda>c. put (s_cap_sv c)" "[]"]
    by (simp add: get_caps_def get_counted_def get_put_nat del: append_Nil2)
  then show ?thesis by (simp add: tokens_ok_def sample_tools_def s_hex_roundtrip)
qed

lemma sample_issuing_ok: "issuing_ok sample sample_tools"
  by (auto simp: issuing_ok_def sample_tools_def)
    (auto simp: sample_def s_authorize_def)

lemma granted_mailbox_accepts_witness:
  "\<exists>token chain.
    grant_mailbox_command sample sample_tools True bob 500 mailbox_hex 1 7 = Returned (Inr token) \<and>
    decode_grant sample_tools (Some token) = Inr chain \<and>
    check_accept_grant sample sample_store (node_id_of sample bob) chain 1000 never_revoked = Inr ()"
proof -
  have p: "parse_node_id sample mailbox_hex = Inr (node_id_of sample mailbox_seed)"
    unfolding mailbox_hex_def by (rule parse_node_id_hex [OF sample_hex_ok sample_identity_ok])
  have self: "mb_self_id sample_store = node_id_of sample mailbox_seed"
    by (simp add: sample_store_def new_store_def)
  obtain token where t: "grant_mailbox_command sample sample_tools True bob 500 mailbox_hex 1 7 = Returned (Inr token)"
    by (simp add: grant_mailbox_command_def p grant_expiry_def)
  from granted_mailbox_accepts [OF sample_hex_ok sample_identity_ok sample_tokens_ok sample_issuing_ok t,
      of sample_store mailbox_seed 1000 never_revoked] p self t
  show ?thesis by (auto simp: never_revoked_def)
qed

definition letter_args :: SendArgs where
  "letter_args = \<lparr>sa_to = bob_hex, sa_subject = ''plans'', sa_body = None, sa_in_reply_to = ''m0'',
     sa_mailbox = Some mailbox_hex, sa_grant = Some (encode_chain sample_tools long_grant), sa_postage = [],
     sa_attach = [''docs/a.txt''], sa_seal_subject = True\<rparr>"

definition sample_setting :: "u8 \<Rightarrow> (u8, sample_cap) setting" where
  "sample_setting i = \<lparr>st_tools = sample_tools, st_identity = i, st_stdin = Inr [7, 8, 9],
     st_files = (\<lambda>_. Inr [1, 2]), st_writes = ok_writes, st_clock = 500, st_overflow_checks = True\<rparr>"

lemma letter_inputs:
  "send_body (st_stdin (sample_setting i)) letter_args = Inr [7, 8, 9]"
  "decode_grant (st_tools (sample_setting i)) (sa_grant letter_args) = Inr long_grant"
  "read_attachments (st_files (sample_setting i)) (sa_attach letter_args) =
     Inr [\<lparr>at_filename = ''a.txt'', at_content_type = ''text/plain'', at_bytes = [1, 2]\<rparr>]"
proof -
  show "send_body (st_stdin (sample_setting i)) letter_args = Inr [7, 8, 9]"
    by (simp add: send_body_def sample_setting_def letter_args_def)
  show "decode_grant (st_tools (sample_setting i)) (sa_grant letter_args) = Inr long_grant"
    using sample_tokens_ok by (simp add: decode_grant_def sample_setting_def letter_args_def tokens_ok_def)
  have "from_file (attachment_name ''docs/a.txt'') [1, 2] =
      \<lparr>at_filename = ''a.txt'', at_content_type = ''text/plain'', at_bytes = [1, 2]\<rparr>" by code_simp
  then show "read_attachments (st_files (sample_setting i)) (sa_attach letter_args) =
     Inr [\<lparr>at_filename = ''a.txt'', at_content_type = ''text/plain'', at_bytes = [1, 2]\<rparr>]"
    by (simp add: sample_setting_def letter_args_def)
qed

lemma letter_options:
  "send_options letter_args [7, 8, 9] long_grant
     [\<lparr>at_filename = ''a.txt'', at_content_type = ''text/plain'', at_bytes = [1, 2]\<rparr>] = letter"
  by (simp add: send_options_def letter_args_def letter_def)

text \<open>Bob's listing of the letter.\<close>

lemma letter_listed:
  assumes "send_mail sample (sample_handle (node_id_of sample alice)) (new_client alice) letter sample_net =
    (Inr (envelope_message_id sample letter_mail), w')"
  shows "\<exists>shown files' w''. run_command sample (sample_handle (node_id_of sample bob)) (sample_setting bob)
    (CmdInbox mailbox_hex None None False) fresh_files w' = Returned (Inr (), shown, files', w'')"
proof -
  let ?H = "sample_handle (node_id_of sample bob)"
  have client: "mc_identity (new_client alice) = alice" "mc_identity (new_client bob) = bob"
    by (simp_all add: new_client_def)
  let ?svc = "\<lambda>x. bobs_service\<lparr>ms_store := push_envelope sample (so_to letter) x sample_store\<rparr>"
  have to: "so_to letter = node_id_hex sample bob" by (simp add: letter_def bob_hex_def)
  obtain x where svc': "fmlookup (fn_services w') mailbox_hex = Some (?svc x)"
    and q: "queue_of (node_id_hex sample bob) (ms_store (?svc x)) = [x]"
    and x: "eb_from (en_body (se_envelope x)) = node_id_hex sample alice" "ok_envelope (se_envelope x)" "net_up w'"
    using letter_kept [OF client(1) assms] to by auto
  have store: "ms_store bobs_service = sample_store" by (simp add: bobs_service_def with_limits_def)
  have typed: "service_typed (?svc x)"
    using push_envelope_typed [OF bobs_service_typed x(2)] by (simp add: store)
  have start: "list_start None fresh_files = 0" by (simp add: fresh_files_def read_cursor_def)
  obtain msgs n w'' where d: "drain_inbox sample ?H (new_client bob) mailbox_hex (list_start None fresh_files) [] w' =
        (Inr (msgs, n), w'')"
    and m: "map msg_envelope msgs = filter (\<lambda>e. is_ok (verify_envelope sample e)) (map se_envelope [x])"
    using memory_drain [OF sample_crates_ok x(3) svc' typed client(2) inbox_nets(7,4)] start
    unfolding sample_handle_def q by fastforce
  have "truncate_text (eb_from (en_body (msg_envelope y))) 12 \<noteq> Panicked" if "y \<in> set msgs" for y
  proof -
    have "msg_envelope y \<in> set (map msg_envelope msgs)" using that by simp
    then have "eb_from (en_body (msg_envelope y)) = node_id_hex sample alice"
      unfolding m using x(1) by (auto split: if_splits)
    with alice_prints [of 0] show ?thesis by (simp add: sample_mail_def seal_envelope_def Let_def)
  qed
  then have "print_inbox sample msgs \<noteq> Panicked"
    using message_lines_panic [OF sample_hex_ok, of msgs] by (auto simp: print_inbox_def)
  then obtain shown where "print_inbox sample msgs = Returned shown" by (cases "print_inbox sample msgs") auto
  from inbox_command_run [OF d this, of False] show ?thesis
    by (simp add: decode_grant_def sample_setting_def)
qed

lemma send_inbox_read_witness:
  "\<exists>mid files w shown files' w' lines.
    run_command sample (sample_handle (node_id_of sample alice)) (sample_setting alice) (CmdSend letter_args)
      fresh_files sample_net = Returned (Inr (), [''sent '' @ mid], files, w) \<and>
    run_command sample (sample_handle (node_id_of sample bob)) (sample_setting bob)
      (CmdInbox mailbox_hex None None False) fresh_files w = Returned (Inr (), shown, files', w') \<and>
    run_command sample (sample_handle (node_id_of sample bob)) (sample_setting bob) (CmdRead mid) files' w' =
      Returned (Inr (), lines, files', w') \<and>
    lines ! 1 = ''Subject: plans'' \<and> lines ! 2 = ''In-Reply-To: m0''"
proof -
  let ?mid = "envelope_message_id sample letter_mail" and ?A = "sample_handle (node_id_of sample alice)"
    and ?B = "sample_handle (node_id_of sample bob)"
  have alice: "mc_identity (new_client alice) = alice" by (simp add: new_client_def)
  have "check_payload ?A (mc_limits (new_client alice)) letter = Inr ()"
    by (simp add: check_payload_def new_client_def letter_def default_limits_def)
  then obtain w' where run: "send_mail sample ?A (new_client alice) letter sample_net = (Inr ?mid, w')"
    using letter_sent_by [OF alice] by blast
  then have send: "run_command sample ?A (sample_setting alice) (CmdSend letter_args) fresh_files sample_net =
      Returned (Inr (), [''sent '' @ ?mid], fresh_files, w')"
    using letter_inputs [of alice] letter_options by (simp add: send_command_def sample_setting_def)
  obtain shown files' w'' where listed: "run_command sample ?B (sample_setting bob)
      (CmdInbox mailbox_hex None None False) fresh_files w' = Returned (Inr (), shown, files', w'')"
    using letter_listed [OF run] by blast
  have letter: "sa_to letter_args = node_id_hex sample bob" "so_to letter = bob_hex" "sa_seal_subject letter_args"
    "fst (send_target letter) = mailbox_hex" "sa_body letter_args = None" "st_identity (sample_setting bob) = bob"
    "sa_subject letter_args = ''plans''" "sa_in_reply_to letter_args = ''m0''"
    by (simp_all add: letter_args_def letter_def bob_hex_def send_target_def sample_setting_def)
  obtain x where svc': "fmlookup (fn_services w') mailbox_hex = Some (bobs_service\<lparr>ms_store :=
      push_envelope sample (so_to letter) x sample_store\<rparr>)"
    and q: "queue_of (so_to letter) (push_envelope sample (so_to letter) x sample_store) = [x]"
    using letter_kept [OF alice run] by blast
  have store: "ms_store bobs_service = sample_store" by (simp add: bobs_service_def with_limits_def)
  have before_end: "list_start None fresh_files <
      pending_count (so_to letter) (push_envelope sample (so_to letter) x sample_store)"
    using q by (auto simp: pending_count_def fm_get_def fresh_files_def read_cursor_def split: option.splits)
  have "run_command sample ?B (sample_setting bob) (CmdRead ?mid) files' w'' =
    Returned (Inr (), [''From:    '' @ node_id_hex sample (st_identity (sample_setting alice)),
        ''Subject: '' @ sa_subject letter_args] @
      (if sa_in_reply_to letter_args \<noteq> [] then [''In-Reply-To: '' @ sa_in_reply_to letter_args] else []) @
      [[], shown_body letter_args [7, 8, 9]], files', w'')"
    unfolding sample_handle_def
    by (rule send_inbox_read [OF sample_crates_ok s_cid_ok inbox_nets(1) letter(1,6) letter_inputs(1) _
      letter_inputs(2,3) _ _ _ inbox_nets(5) bobs_service_typed _ send [unfolded sample_handle_def] _ svc' _
      listed [unfolded sample_handle_def]])
      (use letter letter_ok letter_new before_end sample_store_ok in \<open>simp_all add: letter_options store bob_hex_def\<close>)
  then show ?thesis using send listed by (intro exI conjI) (assumption | simp add: letter)+
qed

end
