(* ===== verification/Restart_Properties.thy ===== *)
theory Restart_Properties
  imports Serve_Properties Command_Line
begin

text \<open>
  \<open>serve-mailbox\<close> across crashes: it starts again from whatever a crash left, with the mail of some
  round.
\<close>

text \<open>A start that succeeds had no trouble reading the file.\<close>

lemma start_service_read:
  "start_service X identity cap path read_error d = Inr svc \<Longrightarrow> start_service X identity cap path None d = Inr svc"
  by (auto simp: start_service_def split: option.splits)

lemma serve_command_run:
  assumes "serve_mailbox_command X oq ors pid identity a subscribed read_error polls d = Inr (Returned ss)"
  obtains svc where "start_service X identity (va_capacity a) (va_store a) None d = Inr svc"
    "serve_rounds X oq ors pid (va_store a) (poll_interval a) polls (start_server (poll_interval a) svc d) =
      Returned ss"
  using assms unfolding serve_mailbox_command_def by (auto dest: start_service_read)

lemma serve_rounds_hd:
  assumes "serve_rounds X oq ors pid path poll qs s = Returned ss"
  shows "hd ss = s \<and> hd ss \<in> set ss"
  using assms by (cases qs) auto

text \<open>The start depends on the disk by what the store's file reads as.\<close>

lemma start_service_file:
  assumes "path_file_name p = Some f"
  shows "start_service X identity cap (Some p) None d =
    (case fs_read (dk_fs d) f of
       None \<Rightarrow> Inr (new_service (new_store (node_id_of X identity) cap))
     | Some bs \<Rightarrow> try_bind (map_err (\<lambda>_. ''load mailbox store'') (from_bytes X bs)) (\<lambda>s. Inr (new_service s)))"
  by (simp add: start_service_def assms split: option.splits)

lemma start_service_saved:
  assumes "bincode_ok X" and "storable oq ors s" and "try_to_bytes X oq ors s = Inr bs"
    and "path_file_name p = Some f" and "fs_read (dk_fs d) f = Some bs"
  shows "start_service X identity cap (Some p) None d =
    Inr (new_service (rebuild X (mb_self_id s) (mb_queues s) (mb_capacity s) (mb_receipts s)))"
  using load_saved [OF assms(1,2)] assms(3-5) by (simp add: start_service_file to_bytes_def)

text \<open>What the running system reads may also be read after a crash.\<close>

lemma holds_crash:
  assumes "holds f R fs"
  shows "crash_reads fs f (fs_read fs f)"
  unfolding crash_reads_def fs_read_def
  using assms by (intro bexI [of _ "fs_dir fs"]) (auto simp: holds_def entry_ok_def split: option.splits)

text \<open>C7: a crash does not keep a mailbox from starting again: after \<open>serve-mailbox\<close> started and ran any
  number of rounds, with any of its file operations failing, and crashed at any moment, the same
  command starts from what the crash left of the file, as the same node, with the queues and
  receipts of the store as some round left it, and well-formed if that store was.\<close>

theorem mailbox_restarts:
  assumes "bincode_ok X" and "va_store a = Some p" and "path_file_name p = Some f"
    and "holds f {start} (dk_fs d)"
    and run: "serve_mailbox_command X oq ors pid identity a subscribed read_error polls d = Inr (Returned ss)"
    and "\<forall>s \<in> set ss. storable oq ors (ms_store (sr_service s))"
    and moment: "dk_moments (sr_disk (last ss)) = ms @ dk_moments d" "fs \<in> set ms"
    and crash: "crash_reads fs f (fs_read (dk_fs d') f)"
  shows "\<exists>svc. start_service X identity (va_capacity a) (va_store a) None d' = Inr svc \<and>
    ms_limits svc = default_limits \<and>
    (\<exists>s \<in> set ss. service_run X (sr_service (hd ss)) (sr_service s) \<and>
      mb_self_id (ms_store svc) = mb_self_id (ms_store (sr_service s)) \<and>
      mb_queues (ms_store svc) = mb_queues (ms_store (sr_service s)) \<and>
      mb_receipts (ms_store svc) = mb_receipts (ms_store (sr_service s)) \<and>
      (mailbox_ok X (ms_store (sr_service s)) \<longrightarrow> mailbox_ok X (ms_store svc)))"
proof -
  from run obtain svc0 where first: "start_service X identity (va_capacity a) (Some p) None d = Inr svc0"
    and rounds: "serve_rounds X oq ors pid (Some p) (poll_interval a) polls (start_server (poll_interval a) svc0 d) =
      Returned ss" by (rule serve_command_run) (use assms(2) in auto)
  have hd: "sr_service (hd ss) = svc0" "hd ss \<in> set ss"
    using serve_rounds_hd [OF rounds] by (auto simp: start_server_def)
  have svc0: "ms_limits svc0 = default_limits"
    using first by (auto simp: start_service_file [OF assms(3)] new_service_def split: option.splits)
  have disk: "sr_disk (start_server (poll_interval a) svc0 d) = d" by (simp add: start_server_def)
  have "holds f ({start} \<union> saves X oq ors ss) fs"
    using serve_rounds_holds [OF assms(3) rounds, of "{start}"] assms(4) moment by (auto simp: all_since_def disk)
  with crash have "fs_read (dk_fs d') f \<in> {start} \<union> saves X oq ors ss" by (blast dest: holds_reads(2))
  then consider "fs_read (dk_fs d') f = fs_read (dk_fs d) f" | bs s where "fs_read (dk_fs d') f = Some bs"
    "s \<in> set ss" "try_to_bytes X oq ors (ms_store (sr_service s)) = Inr bs"
    using holds_reads(1) [OF assms(4)] by (auto simp: saves_def)
  then show ?thesis
  proof cases
    case 1
    then have "start_service X identity (va_capacity a) (Some p) None d' = Inr svc0"
      using first by (simp add: start_service_file [OF assms(3)])
    with hd svc0 assms(2) show ?thesis by (auto intro!: bexI [of _ "hd ss"] intro: service_run.idle)
  next
    case (2 bs s)
    have "service_run X (sr_service (hd ss)) (sr_service s)"
      using serve_rounds_run [OF rounds, of "sr_service (hd ss)"] hd 2(2)
      by (auto simp: start_server_def intro: service_run.idle)
    moreover note start_service_saved [OF assms(1) bspec [OF assms(6) 2(2)] 2(3) assms(3) 2(1), of identity "va_capacity a"]
    ultimately show ?thesis
      using 2(2) rebuild_ok [of X "ms_store (sr_service s)"] assms(2)
      by (auto simp: new_service_def intro!: bexI [of _ s])
  qed
qed

section \<open>A concrete run\<close>

text \<open>Alice's mail arrives at a mailbox that starts without a file, and every rename fails.\<close>

definition empty_disk :: disk where
  "empty_disk = \<lparr>dk_fs = \<lparr>fs_dir = fmempty, fs_unsynced = [], fs_files = (\<lambda>_. \<lparr>fl_data = [], fl_synced = True\<rparr>),
     fs_next = 0\<rparr>, dk_moments = []\<rparr>"

lemma empty_disk_holds: "holds ''mail'' {None} (dk_fs empty_disk)"
  by (simp add: holds_def fs_ok_def entry_ok_def empty_disk_def)

definition mail_args :: ServeArgs where
  "mail_args = \<lparr>va_capacity = 2, va_store = Some ''data/mail'', va_revocation_refresh_secs = 60, va_poll_ms = 500\<rparr>"

lemma mail_round_fresh:
  "\<exists>s0 s1. serve_mailbox_command sample by_key by_key 7 mailbox_seed mail_args (Inr ()) None [mail_poll ft] empty_disk =
      Inr (Returned [s0, s1]) \<and> sr_service s0 = new_service sample_store \<and>
    ms_store (sr_service s1) = one_mail \<and>
    sr_disk s1 = persist_batch sample by_key by_key ft 7 (Some ''data/mail'')
      (new_service one_mail) True empty_disk"
proof -
  have "deliverable sample (new_service sample_store) (sample_mail 5) bob_grant 10 none_revoked"
    using sample_deliverable
    by (simp add: deliverable_def within_limits_def sample_service_def new_service_def with_limits_def)
  from handle_deliver_ok [OF this] have "handle sample (node_id_of sample alice) (Deliver (sample_mail 5) bob_grant) 10
      none_revoked (new_service sample_store) = Returned (Delivered False, new_service one_mail)"
    using sample_mail_verifies bob_hex_nonempty
    by (simp add: new_service_def sample_mail_to one_mail_def accept_cases) (simp add: sample_store_def new_store_def)
  then have "serve_batch sample [mail_arrival] (new_service sample_store) False =
     Returned ([(1, encode_reply sample (Delivered False))], new_service one_mail, True)"
    using mail_arrival_accepted
    by (simp add: serve_message_def not_revoked [of sample, simplified] mail_arrival_def not_revoked del: handle.simps)
  moreover have "start_service sample mailbox_seed 2 (Some ''data/mail'') None empty_disk = Inr (new_service sample_store)"
    by (simp add: start_service_file [OF mail_path(1)] empty_disk_def fs_read_def sample_store_def)
  ultimately show ?thesis
    by (simp add: serve_mailbox_command_def mail_args_def poll_interval_def serve_step_def mail_poll_def
        start_server_def new_service_def del: serve_batch.simps)
qed

lemma mailbox_restarts_witness:
  "\<exists>ss d' svc. serve_mailbox_command sample by_key by_key 7 mailbox_seed mail_args (Inr ()) None [mail_poll rename_fails] empty_disk =
      Inr (Returned ss) \<and> length ss = 2 \<and> dk_fs d' \<in> set (dk_moments (sr_disk (last ss))) \<and>
    start_service sample mailbox_seed 2 (Some ''data/mail'') None d' = Inr svc"
proof -
  obtain s0 s1 where run: "serve_mailbox_command sample by_key by_key 7 mailbox_seed mail_args (Inr ()) None [mail_poll rename_fails]
      empty_disk = Inr (Returned [s0, s1])"
    and s: "sr_service s0 = new_service sample_store" "ms_store (sr_service s1) = one_mail"
      "sr_disk s1 = persist_batch sample by_key by_key rename_fails 7 (Some ''data/mail'') (new_service one_mail) True empty_disk"
    using mail_round_fresh by blast
  let ?d' = "\<lparr>dk_fs = hd (dk_moments (sr_disk s1)), dk_moments = []\<rparr>"
  have moments: "dk_moments (sr_disk s1) \<noteq> []"
    by (simp add: s(3) persist_batch_def sample_bytes new_service_def atomic_write_def fs_op_def io_bind_def Let_def
        rename_fails_def split: if_splits)
  have "storable by_key by_key sample_store"
    by (simp add: storable_def sample_store_def new_store_def ok_table_def usize_limit_def)
  then have fits: "\<forall>x \<in> set [s0, s1]. storable by_key by_key (ms_store (sr_service x))"
    using one_mail_storable by (simp add: s new_service_def)
  obtain svc where "serve_rounds sample by_key by_key 7 (Some ''data/mail'') 500 [mail_poll rename_fails]
      (start_server 500 svc empty_disk) = Returned [s0, s1]"
    using run by (rule serve_command_run) (simp add: mail_args_def poll_interval_def)
  from serve_rounds_holds [OF mail_path(1) this, of "{None}"] empty_disk_holds moments
  have "crash_reads (hd (dk_moments (sr_disk s1))) ''mail'' (fs_read (dk_fs ?d') ''mail'')"
    by (auto simp: all_since_def start_server_def empty_disk_def intro: holds_crash)
  from mailbox_restarts [OF sample_bincode_ok _ mail_path(1) empty_disk_holds run fits _ _ this] moments
  obtain svc' where "start_service sample mailbox_seed 2 (Some ''data/mail'') None ?d' = Inr svc'"
    by (auto simp: mail_args_def empty_disk_def)
  with run moments show ?thesis by (intro exI [of _ "[s0, s1]"] exI [of _ ?d'] exI [of _ svc']) simp
qed

end
