(* ===== verification/Paging_Properties.thy ===== *)
theory Paging_Properties
  imports Inbox_Properties
begin

text \<open>Draining an inbox page by page (\<open>MailClient::drain_inbox_page\<close>) over the in-memory network.\<close>

section \<open>Reading leaves the network alone\<close>

lemma read_leaves_net:
  assumes "bincode_ok X" and "caps_ok X" and "net_up w" and "fmlookup (fn_services w) to = Some svc"
    and "handle X me req 1000 never_revoked svc = Returned (reply, svc)" and "ok_reply reply" and "ok_request req"
  shows "round_trip X (fake_handle X cid rnd dbs dbr me) cl to req w = (Inr reply, w)"
proof -
  have "fmupd to svc (fn_services w) = fn_services w" by (rule fmap_ext) (auto simp: assms(4))
  then have "w\<lparr>fn_services := fmupd to svc (fn_services w)\<rparr> = w" by simp
  then show ?thesis
    using assms(3-5) encode_decode_request [OF assms(1,2,7)] encode_decode_reply [OF assms(1,6)]
    by (simp add: round_trip_def fake_handle_def fake_request_def io_bind_def del: handle.simps)
qed

lemma memory_compose:
  "\<exists>out. compose_messages X (fake_handle X cid rnd dbs dbr me) c es w = (out, w)"
  using memory.compose_messages_world by (metis prod.collapse)

section \<open>The loop over the pages\<close>

text \<open>
  The loop the client's tests and its documentation describe: take a page, continue from its cursor
  as long as more is announced. \<open>None\<close> when the rounds allowed do not suffice.
\<close>

fun drain_pages ::
  "nat \<Rightarrow> ('i, 'c) crates \<Rightarrow> 'w Host \<Rightarrow> 'i MailClient \<Rightarrow> string \<Rightarrow> nat \<Rightarrow> 'c list \<Rightarrow> nat \<Rightarrow> 'w \<Rightarrow>
   (Message list result \<times> 'w) option" where
  "drain_pages 0 X H c mailbox limit grant cursor w = None"
| "drain_pages (Suc rounds) X H c mailbox limit grant cursor w =
     (case drain_inbox_page X H c mailbox cursor limit grant w of
        (Inl e, w) \<Rightarrow> Some (Inl e, w)
      | (Inr (msgs, next_cursor, further), w) \<Rightarrow>
          (if further then
             map_option (\<lambda>(r, w). (try_bind r (\<lambda>rest. Inr (msgs @ rest)), w))
               (drain_pages rounds X H c mailbox limit grant next_cursor w)
           else Some (Inr msgs, w)))"

lemma drain_pages_read:
  assumes "crates_ok X" and "net_up w" and "fmlookup (fn_services w) mailbox = Some svc" and "service_typed svc"
    and "mc_identity c = j" and "limit < usize_limit" and "ok_grant grant"
    and "clamp_page (ms_limits svc) limit = Returned k"
  shows "read_pages rounds (\<lambda>n. read_page (node_id_hex X j) n k (ms_store svc)) cursor = Some (Returned xs) \<Longrightarrow>
    cursor < usize_limit \<Longrightarrow>
    drain_pages rounds X (fake_handle X cid rnd dbs dbr (node_id_of X j)) c mailbox limit grant cursor w =
      Some (Inr (fst (compose_messages X (fake_handle X cid rnd dbs dbr (node_id_of X j)) c (map se_envelope xs) w)), w)"
proof (induction rounds arbitrary: cursor xs)
  case (Suc rounds)
  let ?r = "node_id_hex X j" and ?me = "node_id_of X j" and ?H = "fake_handle X cid rnd dbs dbr (node_id_of X j)"
  have laws: "hex_ok X" "identity_ok X" "texts_ok X" "bincode_ok X" "caps_ok X"
    using assms(1) by (simp_all add: crates_ok_def)
  from Suc.prems(1) obtain ys next_cursor further where
    page: "read_page ?r cursor k (ms_store svc) = Returned (ys, next_cursor, further)"
    by (auto split: outcome.splits)
  note P = own_page [OF laws(1-3) assms(4) Suc.prems(2) assms(6,7,8) page]
  have rt: "round_trip X ?H c mailbox (DrainPage ?r cursor limit grant) w =
      (Inr (Page (map se_envelope ys) next_cursor further), w)"
    by (rule read_leaves_net [OF laws(4,5) assms(2,3) P])
  obtain out where out: "compose_messages X ?H c (map se_envelope ys) w = (out, w)" using memory_compose by blast
  have step: "drain_inbox_page X ?H c mailbox cursor limit grant w = (Inr (out, next_cursor, further), w)"
    using rt by (simp add: drain_inbox_page_def client_hex_def assms(5) out)
  show ?case
  proof (cases further)
    case False
    with Suc.prems(1) page step out show ?thesis by simp
  next
    case True
    with Suc.prems(1) page obtain zs where
      rest: "read_pages rounds (\<lambda>n. read_page ?r n k (ms_store svc)) next_cursor = Some (Returned zs)"
      and xs: "xs = ys @ zs" by (auto elim!: map_outcome_to.elims)
    have "next_cursor \<le> length (queue_of ?r (ms_store svc))"
      using page by (auto simp: read_page_result split: if_splits)
    then have "next_cursor < usize_limit" using service_typedD(3) [OF assms(4), of ?r] by simp
    from Suc.IH [OF rest this] True step out show ?thesis
      by (simp add: xs memory.compose_messages_append)
  qed
qed simp

text \<open>C14: over the in-memory network, draining one's inbox page by page, whatever page size is asked
  for, ends after at most one page per message plus one, leaves the network as it was, and yields
  exactly what \<open>drain_inbox\<close> yields at once: the same messages, opened, in the same order.\<close>

theorem paged_drain_complete:
  assumes "crates_ok X" and "net_up w" and "fmlookup (fn_services w) mailbox = Some svc" and "service_typed svc"
    and "mc_identity c = j" and "ok_grant grant" and "limit < usize_limit" and "cursor < usize_limit"
    and "1 \<le> max_page (ms_limits svc)"
    and "pending_count (node_id_hex X j) (ms_store svc) + max_page (ms_limits svc) \<le> usize_limit"
    and "pending_count (node_id_hex X j) (ms_store svc) - cursor < rounds"
  shows "\<exists>msgs. drain_pages rounds X (fake_handle X cid rnd dbs dbr (node_id_of X j)) c mailbox limit grant cursor w =
      Some (Inr msgs, w) \<and>
    drain_inbox X (fake_handle X cid rnd dbs dbr (node_id_of X j)) c mailbox cursor grant w =
      (Inr (msgs, pending_count (node_id_hex X j) (ms_store svc)), w)"
proof -
  let ?H = "fake_handle X cid rnd dbs dbr (node_id_of X j)" and ?r = "node_id_hex X j"
  let ?q = "queue_of ?r (ms_store svc)"
  have count: "pending_count ?r (ms_store svc) = length ?q"
    by (simp add: pending_count_def fm_get_def split: option.splits)
  have laws: "hex_ok X" "identity_ok X" "texts_ok X" "bincode_ok X" "caps_ok X"
    using assms(1) by (simp_all add: crates_ok_def)
  obtain k where k: "clamp_page (ms_limits svc) limit = Returned k" "1 \<le> k" "k \<le> max_page (ms_limits svc)"
    using assms(9) by (auto simp: clamp_page_def)
  have "read_pages rounds (\<lambda>n. read_page ?r n k (ms_store svc)) cursor = Some (Returned (drop cursor ?q))"
    using inbox_pages.read_pages_complete [where r = ?r and s = "ms_store svc" and limit = k] assms(10,11) k(2,3)
    by (simp add: count max_def)
  note pages = drain_pages_read [OF assms(1-5,7,6) k(1) this assms(8)]
  note D = own_drain [OF laws(1-3) assms(4,8,6), where j = j]
  obtain out where out: "compose_messages X ?H c (map se_envelope (drop cursor ?q)) w = (out, w)"
    using memory_compose by blast
  have "drain_inbox X ?H c mailbox cursor grant w = (Inr (out, length ?q), w)"
    using read_leaves_net [OF laws(4,5) assms(2,3) D, of cid rnd dbs dbr c]
    by (simp add: drain_inbox_def client_hex_def assms(5) out)
  with pages out show ?thesis by (simp add: count)
qed

lemma paged_drain_complete_witness:
  "\<exists>msgs. drain_pages 2 sample (sample_handle (node_id_of sample bob)) bob_client mailbox_hex 7 [] 0 one_mail_net =
      Some (Inr msgs, one_mail_net) \<and>
    drain_inbox sample (sample_handle (node_id_of sample bob)) bob_client mailbox_hex 0 [] one_mail_net =
      (Inr (msgs, 1), one_mail_net)"
proof -
  have count: "pending_count (node_id_hex sample bob) (ms_store one_mail_service) = 1"
    using inbox_queues(2) by (simp add: pending_count_def fm_get_def split: option.splits)
  have "max_page (ms_limits one_mail_service) = 3"
    by (simp add: one_mail_service_def bobs_service_def with_limits_def small_limits_def)
  with paged_drain_complete [OF sample_crates_ok inbox_nets(2,6) one_mail_service_typed inbox_nets(3,4), of 7 0 2] count
  show ?thesis unfolding sample_handle_def by (simp add: usize_limit_def)
qed

end
