(* ===== verification/Revocation_Properties.thy ===== *)
theory Revocation_Properties
  imports Serve_Properties
begin

text \<open>
  When a revoked grant stops working on a running mailbox: with the first query of the revocation set
  that succeeds after the revocation, so within one refresh period when no query fails.
\<close>

section \<open>A grant with a revoked capability\<close>

text \<open>
  Documented behaviour of \<open>authorize\<close>: a chain with a capability that its closure calls revoked, by
  the capability's issuer and nonce, authorizes nothing. \<open>key\<close> reads these two off a capability.
\<close>

definition revocation_ok :: "('i, 'c) crates \<Rightarrow> ('c \<Rightarrow> node_id \<times> u64) \<Rightarrow> bool" where
  "revocation_ok X key \<longleftrightarrow>
     (\<forall>node roots now audience ability chain revoked.
        authorize X node roots now audience ability chain revoked = Inr () \<longrightarrow>
        (\<forall>c \<in> set chain. \<not> revoked (fst (key c)) (snd (key c))))"

lemma revocation_okD:
  "revocation_ok X key \<Longrightarrow> c \<in> set chain \<Longrightarrow> revoked (fst (key c)) (snd (key c)) \<Longrightarrow>
    authorize X node roots now audience ability chain revoked \<noteq> Inr ()"
  unfolding revocation_ok_def by blast

text \<open>The grant a request presents, and the requests that stand without one: about one's own name.\<close>

fun grant_of :: "'c MailRequest \<Rightarrow> 'c list" where
  "grant_of (Deliver _ g) = g"
| "grant_of (Drain _ _ g) = g"
| "grant_of (Ack _ _ g) = g"
| "grant_of (DrainPage _ _ _ g) = g"
| "grant_of (PutReceipt _ _ g) = g"
| "grant_of (CollectReceipts _ g) = g"

fun about_own_name :: "('i, 'c) crates \<Rightarrow> node_id \<Rightarrow> 'c MailRequest \<Rightarrow> bool" where
  "about_own_name X requester (Deliver _ _) = False"
| "about_own_name X requester (Drain r _ _) = (parse_node_id X r = Inr requester)"
| "about_own_name X requester (Ack r _ _) = (parse_node_id X r = Inr requester)"
| "about_own_name X requester (DrainPage r _ _ _) = (parse_node_id X r = Inr requester)"
| "about_own_name X requester (PutReceipt _ _ _) = False"
| "about_own_name X requester (CollectReceipts r _) = (parse_node_id X r = Inr requester)"

lemma revoked_grant_refused:
  assumes "revocation_ok X key" and "c \<in> set (grant_of req)" and "revoked (fst (key c)) (snd (key c))"
    and "\<not> about_own_name X requester req"
  shows "\<exists>m. handle X requester req now revoked svc = Returned (Error m, svc)"
proof -
  have no: "authorize X n roots now audience ability (grant_of req) revoked \<noteq> Inr ()" for n roots audience ability
    using revocation_okD [where revoked = revoked, OF assms(1,2)] assms(3) by blast
  have accepts: "\<not> accepts_for X (ms_store svc) r (grant_of req) now revoked" for r
    using no by (simp add: accepts_for_def)
  have acts: "\<not> acts_for X requester r (grant_of req) now revoked" if "parse_node_id X r \<noteq> Inr requester" for r
    using no that by (auto simp: acts_for_def)
  show ?thesis
  proof (cases req)
    case (Deliver e g)
    with accepts have "\<not> deliverable X svc e g now revoked" by (simp add: deliverable_def)
    from handle_deliver_refused [OF this] Deliver show ?thesis by auto
  next
    case (Drain r n g)
    with assms(4) acts [of r] handle_drain_cases [of X requester r g now revoked n svc] show ?thesis by auto
  next
    case (Ack r n g)
    with assms(4) acts [of r] handle_ack_cases [of X requester r g now revoked n svc] show ?thesis by auto
  next
    case (DrainPage r n l g)
    with assms(4) acts [of r] handle_drain_page_cases [of X requester r g now revoked n l svc]
    show ?thesis by auto
  next
    case (PutReceipt r x g)
    with accepts have "\<not> depositable X svc r x g now revoked" by (simp add: depositable_def)
    from handle_put_receipt_refused [OF this] PutReceipt show ?thesis by auto
  next
    case (CollectReceipts r g)
    with assms(4) acts [of r] handle_collect_cases [of X requester r g now revoked svc] show ?thesis by auto
  qed
qed

section \<open>The set over time\<close>

lemma refresh_keeps:
  assumes "\<And>entries. answer = Inr entries \<Longrightarrow> x \<in> set entries"
    and "\<And>entries. revoked = Some entries \<Longrightarrow> x \<in> set entries"
    and "refresh_revoked answer revoked = Some entries"
  shows "x \<in> set entries"
  using assms by (auto simp: refresh_revoked_def split: sum.splits)

text \<open>An entry that a query found and every later one finds stays, whichever of them fail.\<close>

lemma revocations_hold:
  assumes "0 < every" and "1 \<le> k" and "every * k \<le> elapsed" and "answers k = Inr found"
    and later: "\<And>i entries. k \<le> i \<Longrightarrow> answers i = Inr entries \<Longrightarrow> x \<in> set entries"
    and "revocations_at every answers initial elapsed = Some entries"
  shows "x \<in> set entries"
proof -
  let ?step = "\<lambda>i. refresh_revoked (answers i)"
  have "k \<le> elapsed div every"
    using assms(1,3) by (metis div_le_mono nonzero_mult_div_cancel_left not_less0)
  then obtain d where d: "Suc (elapsed div every) = k + Suc d" using le_Suc_ex by fastforce
  have ticks: "[1..<Suc (elapsed div every)] = [1..<k] @ k # [Suc k..<Suc (elapsed div every)]"
    unfolding d upt_add_eq_append [OF assms(2)] by (simp add: upt_conv_Cons del: upt_Suc)
  define start where "start = ?step k (fold ?step [1..<k] initial)"
  have found: "start = Some es \<Longrightarrow> x \<in> set es" for es
    using later [OF order_refl assms(4)] assms(4) by (auto simp: start_def refresh_revoked_def)
  have after: "fold ?step js start = Some es \<Longrightarrow> x \<in> set es" if "\<And>i. i \<in> set js \<Longrightarrow> k \<le> i" for js es
    using that
  proof (induction js arbitrary: es rule: rev_induct)
    case Nil
    with found show ?case by simp
  next
    case (snoc i js)
    have "?step i (fold ?step js start) = Some es" using snoc.prems(1) by simp
    then show ?case
      by (rule refresh_keeps [rotated 2]) (use later [of i] snoc in auto)
  qed
  have "fold ?step [Suc k..<Suc (elapsed div every)] start = Some entries"
    using assms(6) unfolding revocations_at_def ticks start_def by simp
  then show ?thesis by (rule after [rotated]) (auto simp del: upt_Suc)
qed

text \<open>C11: a grant that is revoked on chain stops working on a running mailbox: once one query of the
  refresher that came after the revocation has succeeded, every request that presents a chain with
  the revoked capability and is not about the requester's own name is answered with an error and
  changes nothing, whatever later queries fail, and also when the lock is poisoned.\<close>

theorem revocation_takes_effect:
  assumes "revocation_ok X key" and "0 < every"
    and "accepted_request X (ar_message a) = Some (token, requester, req)"
    and "c \<in> set (grant_of req)" and "\<not> about_own_name X requester req"
    and sees: "ar_revoked a = revocations_at every answers initial elapsed"
    and on_chain: "\<And>i entries. revoked_from \<le> every * i \<Longrightarrow> answers i = Inr entries \<Longrightarrow>
      (hex_encode X (fst (key c)), snd (key c)) \<in> set entries"
    and tick: "1 \<le> k" "revoked_from \<le> every * k" "every * k \<le> elapsed" "is_ok (answers k)"
  shows "\<exists>m. serve_message X a svc dirty = Returned ([(token, encode_reply X (Error m))], svc, dirty)"
proof -
  obtain found where found: "answers k = Inr found" using tick(4) by (auto simp: is_ok_iff)
  have "is_revoked X (ar_revoked a) (fst (key c)) (snd (key c))"
  proof (cases "ar_revoked a")
    case None
    then show ?thesis by (simp add: is_revoked_def)
  next
    case (Some entries)
    have "revoked_from \<le> every * i" if "k \<le> i" for i
      using tick(2) mult_le_mono2 [OF that, of every] by linarith
    then have "(hex_encode X (fst (key c)), snd (key c)) \<in> set entries"
      using revocations_hold [OF assms(2) tick(1,3) found _ sees [unfolded Some, symmetric]] on_chain by blast
    with Some show ?thesis by (simp add: is_revoked_def)
  qed
  from revoked_grant_refused [where revoked = "is_revoked X (ar_revoked a)", OF assms(1,4) this assms(5)]
  obtain m where "handle X requester req (ar_now a) (is_revoked X (ar_revoked a)) svc = Returned (Error m, svc)" by blast
  with assms(3) show ?thesis by (intro exI [of _ m]) (simp add: serve_message_def)
qed

text \<open>One refresh period after the revocation there was such a tick.\<close>

lemma tick_in_window:
  fixes every elapsed revoked_from :: nat
  assumes "0 < every" and "revoked_from + every \<le> elapsed"
  shows "1 \<le> elapsed div every \<and> revoked_from \<le> every * (elapsed div every) \<and> every * (elapsed div every) \<le> elapsed"
proof -
  have "every * (elapsed div every) + elapsed mod every = elapsed" by simp
  moreover have "elapsed mod every < every" using assms(1) by simp
  moreover have "1 \<le> elapsed div every" using assms by (simp add: div_greater_zero_iff Suc_le_eq)
  ultimately show ?thesis using assms(2) by linarith
qed

text \<open>
  But a start whose first query fails begins with an empty set: until the first query that succeeds
  nothing counts as revoked, unlike with a poisoned lock.
\<close>

lemma failed_first_query_opens:
  assumes "\<And>k. every * k \<le> elapsed \<Longrightarrow> \<not> is_ok (answers k)" and "0 < every"
  shows "\<not> is_revoked X (revocations_at every answers (initial_revoked (Inl e)) elapsed) issuer nonce"
proof -
  have empty: "fold (\<lambda>k. refresh_revoked (answers k)) ks (Some []) = Some []" if "\<And>k. k \<in> set ks \<Longrightarrow> \<not> is_ok (answers k)" for ks
    using that
  proof (induction ks)
    case (Cons k ks)
    from Cons.prems [of k] obtain m where "answers k = Inl m" by (auto simp: not_is_ok_iff)
    with Cons show ?case by (simp add: refresh_revoked_def)
  qed simp
  have failing: "\<not> is_ok (answers k)" if "k \<in> set [1..<Suc (elapsed div every)]" for k
  proof (rule assms(1))
    have "k \<le> elapsed div every" using that by auto
    then show "every * k \<le> elapsed"
      by (metis mult_le_mono2 order_trans times_div_less_eq_dividend)
  qed
  have "revocations_at every answers (initial_revoked (Inl e)) elapsed = Some []"
    unfolding revocations_at_def initial_revoked_def by (simp only: unwrap_or.simps) (rule empty, rule failing)
  then show ?thesis by (simp add: is_revoked_def)
qed

section \<open>A concrete run\<close>

definition sample_key :: "sample_cap \<Rightarrow> node_id \<times> u64" where
  "sample_key c = (replicate 32 (cap_issuer c), cap_nonce c)"

lemma sample_revocation_ok: "revocation_ok sample sample_key"
  unfolding revocation_ok_def sample_key_def
  by (auto simp: sample_def s_authorize_def split: list.splits if_splits)

text \<open>Bob revokes his grant at second 70; the query at 120 fails, the one at 180 finds it.\<close>

definition bobs_revocation :: "nat \<Rightarrow> (string \<times> u64) list result" where
  "bobs_revocation k = (if k = 2 then Inl ''timeout'' else if 60 * k < 70 then Inr []
     else Inr [(hex_encode sample (replicate 32 bob), 1)])"

lemma revocation_takes_effect_witness:
  "\<exists>m. serve_message sample (mail_arrival\<lparr>ar_revoked := revocations_at 60 bobs_revocation (Some []) 200\<rparr>)
     sample_service False = Returned ([(1, encode_reply sample (Error m))], sample_service, False)"
proof (rule revocation_takes_effect [where c = "hd bob_grant" and k = 3 and revoked_from = 70,
      OF sample_revocation_ok])
  show "accepted_request sample (ar_message (mail_arrival\<lparr>ar_revoked := revocations_at 60 bobs_revocation (Some []) 200\<rparr>)) =
      Some (1, node_id_of sample alice, Deliver (sample_mail 5) bob_grant)"
    using mail_arrival_accepted by simp
qed (auto simp: bob_grant_def bobs_revocation_def sample_key_def split: if_splits)

end
