(* ===== verification/Screened_Inbox.thy ===== *)
theory Screened_Inbox
  imports Inbox_Properties Screening_Properties "HOL-Library.Sublist"
begin

text \<open>
  Draining with a screening policy (\<open>MailClient::screen_inbox\<close>), against any mailbox: what a message
  in the inbox has to show for itself, and how a block is escaped.
\<close>

section \<open>What screening lets through\<close>

text \<open>The loop over the drained messages, with standing lookups that may change from one to the next.\<close>

definition earned ::
  "('a \<Rightarrow> 'b :: linorder) \<Rightarrow> 'w Host \<Rightarrow> 'a ScreeningPolicy \<Rightarrow> (string \<Rightarrow> 'a option) \<Rightarrow> Envelope \<Rightarrow> bool" where
  "earned base H policy verify_postage env \<longleftrightarrow>
     eb_from (en_body env) = sp_me policy \<or> eb_from (en_body env) \<in> sp_allowlist policy \<or>
     sp_waive_postage_for_established policy \<and>
       (\<exists>w w'. sender_standing H (eb_from (en_body env)) w = (Inr Established, w')) \<or>
     (\<exists>amount. eb_postage_receipt (en_body env) \<noteq> [] \<and>
        verify_postage (eb_postage_receipt (en_body env)) = Some amount \<and>
        base (sp_min_postage policy) \<le> base amount)"

lemma screen_earned:
  assumes "is_inbox (screen base policy env (unwrap_or Newcomer r) verify_postage)"
    and "sender_standing H (eb_from (en_body env)) w = (r, w')"
  shows "admissible policy env \<and> earned base H policy verify_postage env"
proof -
  have "trusted policy (eb_from (en_body env)) (unwrap_or Newcomer r) \<or> paid base policy env verify_postage"
    and adm: "admissible policy env"
    using assms(1) by (auto simp: screen_table split: if_splits)
  moreover have "r = Inr Established" if "unwrap_or Newcomer r = Established" using that by (cases r) auto
  ultimately show ?thesis using assms(2) by (auto simp: earned_def trusted_def paid_def)
qed

lemma screen_messages_result:
  assumes "screen_messages base H policy verify_postage ms w = ((inbox, spam), w')"
  shows "subseq inbox ms \<and> subseq spam ms \<and>
    (\<forall>m \<in> set inbox. admissible policy (msg_envelope m) \<and> earned base H policy verify_postage (msg_envelope m)) \<and>
    (\<forall>m \<in> set spam. admissible policy (msg_envelope m) \<and> \<not> sp_strict policy) \<and>
    (\<forall>m \<in> set ms. admissible policy (msg_envelope m) \<and> \<not> sp_strict policy \<longrightarrow> m \<in> set inbox \<union> set spam) \<and>
    length inbox + length spam \<le> length ms"
  using assms
proof (induction ms arbitrary: w w' inbox spam)
  case (Cons m ms)
  obtain r w1 where r: "sender_standing H (eb_from (en_body (msg_envelope m))) w = (r, w1)" by (rule prod.exhaust)
  obtain ins sps w2 where rest: "screen_messages base H policy verify_postage ms w1 = ((ins, sps), w2)"
    by (metis prod.collapse)
  note IH = Cons.IH [OF rest]
  define v where "v = screen base policy (msg_envelope m) (unwrap_or Newcomer r) verify_postage"
  have run: "((inbox, spam), w') = (case v of Inbox _ \<Rightarrow> ((m # ins, sps), w2)
      | Spam \<Rightarrow> ((ins, m # sps), w2) | Rejected \<Rightarrow> ((ins, sps), w2))"
    using Cons.prems by (simp add: r rest v_def Let_def)
  show ?case
  proof (cases v)
    case (Inbox b)
    then have "admissible policy (msg_envelope m) \<and> earned base H policy verify_postage (msg_envelope m)"
      using screen_earned [OF _ r, of base policy verify_postage] v_def by simp
    with Inbox run IH show ?thesis by auto
  next
    case Spam
    then have "admissible policy (msg_envelope m) \<and> \<not> sp_strict policy"
      by (auto simp: v_def screen_table split: if_splits)
    with Spam run IH show ?thesis by auto
  next
    case Rejected
    then have "\<not> (admissible policy (msg_envelope m) \<and> \<not> sp_strict policy)"
      by (auto simp: v_def screen_table split: if_splits)
    with Rejected run IH show ?thesis by (auto intro: subseq_Cons')
  qed
qed simp

text \<open>C12: strangers pay, whatever the mailbox replies: every message that \<open>screen_inbox\<close> puts into the
  inbox is authentic, addressed to this node and not from a blocked name, and it is from the node
  itself, from a contact, from a sender the lookup said is established (where that counts), or its
  postage receipt was verified to be worth the minimum. Both lists keep the order of the drain, what
  a lenient policy quarantines is authentic and admissible too, and then nothing admissible is lost.\<close>

theorem strangers_pay:
  assumes "screen_inbox base X H cl mailbox since grant policy verify_postage w = (Inr (inbox, spam, cursor), w')"
  shows "\<exists>msgs w1. drain_inbox X H cl mailbox since grant w = (Inr (msgs, cursor), w1) \<and>
    subseq inbox msgs \<and> subseq spam msgs \<and> length inbox + length spam \<le> length msgs \<and>
    (\<forall>m \<in> set inbox. verify_envelope X (msg_envelope m) = Inr () \<and> admissible policy (msg_envelope m) \<and>
       earned base H policy verify_postage (msg_envelope m)) \<and>
    (\<forall>m \<in> set spam. verify_envelope X (msg_envelope m) = Inr () \<and> admissible policy (msg_envelope m) \<and>
       \<not> sp_strict policy) \<and>
    (\<forall>m \<in> set msgs. admissible policy (msg_envelope m) \<and> \<not> sp_strict policy \<longrightarrow> m \<in> set inbox \<union> set spam)"
proof -
  from assms obtain msgs w1 where d: "drain_inbox X H cl mailbox since grant w = (Inr (msgs, cursor), w1)"
    and s: "screen_messages base H policy verify_postage msgs w1 = ((inbox, spam), w')"
    unfolding screen_inbox_def by (elim io_bind_InrE) (auto simp: Let_def split: prod.splits)
  obtain es where "map msg_envelope msgs = filter (\<lambda>e. is_ok (verify_envelope X e)) es"
    using drained_envelopes [OF d] by blast
  then have "msg_envelope ` set msgs = {e \<in> set es. is_ok (verify_envelope X e)}"
    by (metis set_filter set_map)
  then have v: "verify_envelope X (msg_envelope m) = Inr ()" if "m \<in> set msgs" for m
    using that verify_envelope_ok by blast
  note R = screen_messages_result [OF s]
  then have "set inbox \<subseteq> set msgs" "set spam \<subseteq> set msgs" by (auto elim: list_emb_set)
  with R v d show ?thesis by (intro exI [of _ msgs] exI [of _ w1]) blast
qed

lemma strangers_pay_witness:
  "\<exists>inbox spam w'. screen_inbox id sample (parrot (Drained [forged_mail, sample_mail 5] 9)) bob_client mailbox_hex 0 []
     (new_policy (0::nat) bob_hex) (\<lambda>_. None) sample_net = (Inr (inbox, spam, 9), w') \<and>
   msg_envelope ` set (inbox @ spam) \<subseteq> {e. verify_envelope sample e = Inr ()}"
proof -
  obtain msgs w' where s: "screen_inbox id sample (parrot (Drained [forged_mail, sample_mail 5] 9)) bob_client
      mailbox_hex 0 [] (new_policy (0::nat) bob_hex) (\<lambda>_. None) sample_net = (Inr ([], msgs, 9), w')"
    using screen_inbox_splits_witness by blast
  from strangers_pay [OF s] have "msg_envelope ` set ([] @ msgs) \<subseteq> {e. verify_envelope sample e = Inr ()}" by auto
  with s show ?thesis by blast
qed

section \<open>Escaping a block\<close>

text \<open>C36: but a block is for one spelling of a node id: a sender may sign an envelope that names it in
  another spelling (upper case, or with white space around it, which parsing trims); the envelope
  verifies for the same node, and screening treats it as if the sender had never been blocked.\<close>

theorem block_misses_spellings:
  assumes "parse_node_id X f = Inr (node_id_of X i)" and "f \<noteq> node_id_hex X i" and "identity_ok X"
    and "eb_from b = f" and "env = \<lparr>en_body = b, en_sig = sign_with X i (envelope_signing_bytes X b)\<rparr>"
  shows "verify_envelope X env = Inr () \<and>
    screen base (block (node_id_hex X i) policy) env standing verify_postage =
      screen base policy env standing verify_postage"
  using assms identity_okD(4) [OF assms(3)]
  by (simp add: verify_envelope_def screen_def is_blocked_def is_contact_def block_def deny_def
      split: option.splits)

lemma block_misses_spellings_witness:
  "verify_envelope sample crafted_mail = Inr () \<and>
   screen id (block (node_id_hex sample alice) (new_policy (0::nat) bob_hex)) crafted_mail Established (\<lambda>_. None) = Inbox False"
proof -
  have p: "parse_node_id sample crafted_sender = Inr (node_id_of sample alice)" by code_simp
  have ne: "crafted_sender \<noteq> node_id_hex sample alice" "crafted_sender \<noteq> bob_hex" by code_simp+
  have to: "eb_to (en_body crafted_mail) = bob_hex" "eb_from crafted_body = crafted_sender"
    by (simp_all add: crafted_mail_def crafted_body_def)
  have "screen id (new_policy (0::nat) bob_hex) crafted_mail Established (\<lambda>_. None) = Inbox False"
    using to(1) ne(2) to(2)
    by (simp add: screen_def new_policy_def is_blocked_def is_contact_def crafted_mail_def)
  with block_misses_spellings [OF p ne(1) sample_identity_ok to(2), of crafted_mail id "new_policy (0::nat) bob_hex"
      Established "\<lambda>_. None"]
  show ?thesis by (simp add: crafted_mail_def)
qed

end
