(* ===== verification/Spec2Isabelle.thy ===== *)
theory Spec2Isabelle
  imports Mailbox_Properties Service_Properties Thread_Properties Screening_Properties
    Encoding_Properties Journey_Properties Client_Properties Crypto_Properties Serve_Properties
    Inbox_Properties Shared_Properties Receipt_Journey Command_Properties Restart_Properties Paging_Properties Revocation_Properties Screened_Inbox Attachments
begin

text \<open>
  A verification development for ce-mail (src/), end-to-end encrypted store-and-forward mail between
  nodes that are their public keys.

  \<^bold>\<open>The program.\<close> A client seals the body and the attachments of a message to the recipient's key, puts
  them as blobs into a content-addressed store, signs an envelope that names them, and asks the
  recipient's mailbox node to keep it (client.rs). A mailbox node answers such requests from a store
  of bounded queues per recipient (mailbox.rs, service.rs, limits.rs, proto.rs) in a loop that saves
  the store after every batch that changed it (main.rs, persist.rs). The recipient drains its queue,
  verifies and opens what it gets, screens and threads it (client.rs, screening.rs, thread.rs), and may
  send a signed receipt back the same way (receipt.rs).

  \<^bold>\<open>The theories\<close>, in the order of their imports, with the code each models:
  \<^item> Mail_Prelude: results, panics (\<open>outcome\<close>), machine sizes, finite maps with a default, decimal
    numbers. A Rust \<open>Result\<close> is a sum with its error text on the left; a panic is \<open>Panicked\<close>;
    a \<open>usize\<close> is a \<open>nat\<close> that the code's guards compare with \<open>usize_limit\<close>; a \<open>String\<close> is its UTF-8
    bytes as a char list; a hash map is a finite map.
  \<^item> Rust_Strings, Rust_Tokens, Rust_Ordering: what the code uses of the standard library: \<open>trim\<close> with
    Unicode white space, word splitting, lower case, stable sorting by a comparator.
  \<^item> Wire_Format: the serde data model, with types, fitting values and UTF-8. Crates: the parameters,
    a record \<open>crates\<close> of the functions of bincode, hex, SHA-256, ce_identity, ce_cap, ce_iam_core, the
    curve and the AEAD, and their documented laws (\<open>hex_ok\<close>, \<open>identity_ok\<close>, \<open>bincode_ok\<close>, ...). The
    contract \<open>serde_type\<close> is interpreted for every type that is serialized.
  \<^item> Envelopes (envelope.rs), Receipts (receipt.rs), Size_Limits (limits.rs), Protocol (proto.rs).
  \<^item> Bounded_Queue: the contracts \<open>dedup_queue\<close>, \<open>acked_queue\<close>, \<open>collected_queue\<close>, \<open>page_source\<close>; Mailbox
    and Mailbox_Format (mailbox.rs): the store with its two indexes and its two file formats; the
    contracts are interpreted on the store's queues and receipt tables.
  \<^item> Shared_Mailbox (mailbox.rs, \<open>SharedMailbox\<close>): the store behind a lock that panics poison, threads
    that take the mutex, read, write back and release in separate steps, and the plain store without a
    lock that they implement. Of the mutex only its word is assumed: it is taken when it is free.
  \<^item> Mail_Service (service.rs): one definition per request, \<open>handle\<close>, and \<open>service_run\<close>, the services
    that any requests lead to. Service_Types: everything such a service holds fits its wire form.
  \<^item> Threads (thread.rs), Screening (screening.rs), Sealed_Box (crypto.rs), Attachments (attachment.rs).
  \<^item> Mail_Effects, Mail_Client (client.rs): \<open>io\<close>, a state-passing result over a world, and the client
    over a \<open>Host\<close>, the \<open>Transport\<close> trait with the clock and the randomness. Mail_Network: the contract
    \<open>mail_network\<close> between client and transport, with the client's lemmas proved in it; Mail_Journey:
    send, drain and acknowledge under it; Memory_Network: its interpretation on the tests' \<open>FakeNet\<close>.
  \<^item> Atomic_Write (persist.rs): a directory whose changes and file contents survive a crash only once
    synced, every operation with a fault switch, and \<open>atomic_write\<close> over it. Serve_Loop (main.rs,
    \<open>serve_mailbox\<close>): each poll's outcome, the times and the faults are inputs.
  \<^item> Inbox_Command (main.rs, \<open>Command::Inbox\<close>, \<open>Command::Read\<close>): the two local files are values.
    Command_Line (main.rs): the other subcommands as they come out of the argument parser; \<open>run_command\<close>
    runs one of those that end, \<open>serve_mailbox_command\<close> starts the server. The token functions of
    ce_iam_core are its parameter \<open>cap_tools\<close>.
  \<^item> Sample_Crates: one concrete instance of the parameters that satisfies all their laws, on which
    every witness evaluates.

  \<^bold>\<open>What the lemmas show.\<close> Mailbox_Properties: accepting refines an abstract bounded inbox, paging is
  complete, saving and loading, what acknowledged ids leave behind. Service_Properties: the invariant of
  every reachable service, who can add, remove and read mail, when a request panics.
  Shared_Properties: interleaved threads exclude each other, and do what the plain store does one
  operation at a time. Encoding_Properties: replies survive
  the wire. Crypto_Properties: what is signed, what opens. Journey_Properties and Client_Properties: mail
  reported sent arrives; a hostile mailbox cannot make the client show forged mail.
  Thread_Properties and Screening_Properties: conversations partition the mail, in an order that does not
  depend on hashing; screening is monotone. Serve_Properties: a batch is the sequence of
  the handler's exchanges, a crash at any moment leaves a file that some round saved; Restart_Properties: the server starts again from it. Inbox_Properties: when
  listing panics and what a resumed listing shows. Receipt_Journey: a receipt sent arrives.
  Paging_Properties: draining by the page is draining at once. Screened_Inbox: what a message in a
  screened inbox has to show for itself, and how a block is escaped. Revocation_Properties: when a
  revoked grant stops working on a running mailbox.
  Command_Properties: what one user sends another reads, through the commands alone, and what a token
  of \<open>grant-mailbox\<close> is good for.

  \<^bold>\<open>Bounds.\<close> Every loop of the code is modelled by a recursion that is proved to terminate, the reply chain
  of \<open>resolve_root\<close> by the ids it has not yet seen. Only the loops over pages, which the code leaves to
  its callers (\<open>read_pages\<close>, \<open>drain_pages\<close>), take a number of rounds; one more than there are messages is
  proved to be enough. The serve loop is modelled by any finite number of its rounds, the refresher of
  the revocation set by its ticks, whose answers are stored when they are asked for. Integers keep their
  width where the code computes with them: \<open>u64\<close> and \<open>u8\<close> are words, and a \<open>usize\<close> that could overflow
  is compared with its limit.

  \<^bold>\<open>Not modelled.\<close> The libraries named above, the node behind ce_rs, tokio's scheduling and the operating
  system are parameters or inputs. Argument parsing (clap), loading the identity, the data directory and
  logging are pure input and output; so is what the commands write to standard error. A listing's
  lines are returned, so a panic in the middle of printing loses them here. The JSON of the snapshot
  file is a value. Paths are those whose last component is a name.
\<close>

end
